(* ===== verification/Prelude.thy ===== *)
theory Prelude
  imports Main "HOL-Library.AList" "HOL-Library.List_Lexorder" "HOL-Library.Char_ord"
    "HOL-Library.Sublist" "HOL-Library.State_Monad"
begin

text \<open>
  What every component shares: Go strings as byte lists with the functions of package
  \<open>strings\<close> the driver calls, Go maps as association lists (the order of the list stands for
  one iteration order of the map), results \<open>(T, error)\<close> as sums with \<open>Inl\<close> the error, and
  fallible state-passing programs over \<open>State_Monad\<close>.
\<close>

section \<open>Collections of facts\<close>

named_theorems go_string_simps \<open>facts on the string functions\<close>
named_theorems go_map_simps \<open>facts on Go maps as association lists\<close>
named_theorems go_result_simps \<open>facts on results and fallible programs\<close>

section \<open>Strings\<close>

text \<open>\<open>strings.Split\<close> with a one-byte separator, \<open>strings.Join\<close>, and the cut at the first
  separator (\<open>strings.IndexByte\<close> with two slices, or \<open>strings.SplitN\<close> with a count of 2).\<close>

fun split_on :: "'a \<Rightarrow> 'a list \<Rightarrow> 'a list list" where
  "split_on c [] = [[]]"
| "split_on c (x # xs) =
     (if x = c then [] # split_on c xs
      else (case split_on c xs of [] \<Rightarrow> [[x]] | y # ys \<Rightarrow> (x # y) # ys))"

fun join_with :: "'a list \<Rightarrow> 'a list list \<Rightarrow> 'a list" where
  "join_with sep [] = []"
| "join_with sep [x] = x"
| "join_with sep (x # y # ys) = x @ sep @ join_with sep (y # ys)"

definition cut_at :: "'a \<Rightarrow> 'a list \<Rightarrow> ('a list \<times> 'a list) option" where
  "cut_at c s =
     (case dropWhile (\<lambda>x. x \<noteq> c) s of [] \<Rightarrow> None
      | _ # after \<Rightarrow> Some (takeWhile (\<lambda>x. x \<noteq> c) s, after))"

lemma split_on_not_Nil [simp]: "split_on c s \<noteq> []"
  by (cases s) (auto split: list.splits)

lemma join_with_Cons: "ys \<noteq> [] \<Longrightarrow> join_with sep (y # ys) = y @ sep @ join_with sep ys"
  by (cases ys) auto

lemma join_split_on: "join_with [c] (split_on c s) = s"
proof (induction s)
  case (Cons a s)
  show ?case
  proof (cases "split_on c s")
    case (Cons y ys)
    then show ?thesis using Cons.IH \<open>join_with [c] (split_on c s) = s\<close>
      by (cases ys) (auto simp: join_with_Cons)
  qed simp
qed simp

lemma split_on_no_sep: "c \<notin> set s \<Longrightarrow> split_on c s = [s]"
  by (induction s) auto

lemma split_on_append: "c \<notin> set x \<Longrightarrow> split_on c (x @ c # s) = x # split_on c s"
  by (induction x) auto

lemma split_on_append_sep: "split_on c (s @ c # t) = split_on c s @ split_on c t"
  by (induction s) (auto split: list.split)

lemma split_join_with:
  "xs \<noteq> [] \<Longrightarrow> \<forall>x \<in> set xs. c \<notin> set x \<Longrightarrow> split_on c (join_with [c] xs) = xs"
  by (induction "[c]" xs rule: join_with.induct) (auto simp: split_on_append split_on_no_sep)

lemma split_on_pieces: "x \<in> set (split_on c s) \<Longrightarrow> c \<notin> set x"
  by (induction s arbitrary: x) (auto split: if_splits list.splits)

lemma set_split_on: "x \<in> set (split_on c s) \<Longrightarrow> set x \<subseteq> set s"
proof (induction s arbitrary: x)
  case (Cons a s)
  then show ?case by (fastforce split: if_splits list.splits)
qed simp

lemma set_join_with: "set (join_with sep xs) \<subseteq> set sep \<union> \<Union> (set ` set xs)"
  by (induction sep xs rule: join_with.induct) auto

lemma cut_at_None [go_string_simps]: "c \<notin> set s \<Longrightarrow> cut_at c s = None"
proof -
  assume "c \<notin> set s"
  then have "dropWhile (\<lambda>x. x \<noteq> c) s = []" by (auto simp: dropWhile_eq_Nil_conv)
  then show ?thesis by (simp only: cut_at_def list.case)
qed

lemma cut_at_append [go_string_simps]: "c \<notin> set x \<Longrightarrow> cut_at c (x @ c # y) = Some (x, y)"
proof -
  assume a: "c \<notin> set x"
  then have "\<forall>z \<in> set x. z \<noteq> c" by auto
  then show ?thesis by (simp add: cut_at_def dropWhile_append2 takeWhile_append2)
qed

lemma cut_at_Some: "cut_at c s = Some (x, y) \<Longrightarrow> s = x @ c # y \<and> c \<notin> set x"
proof -
  assume a: "cut_at c s = Some (x, y)"
  then obtain z where d: "dropWhile (\<lambda>x. x \<noteq> c) s = z # y" and t: "takeWhile (\<lambda>x. x \<noteq> c) s = x"
    by (auto simp: cut_at_def split: list.splits)
  have "z = c" using hd_dropWhile [of "\<lambda>x. x \<noteq> c" s] d by simp
  moreover have "s = x @ z # y" using takeWhile_dropWhile_id [of "\<lambda>x. x \<noteq> c" s] d t by simp
  moreover have "c \<notin> set x" using t by (auto dest: set_takeWhileD)
  ultimately show ?thesis by simp
qed

lemma join_with_map_eq_Nil: "join_with sep xs = [] \<Longrightarrow> xs = [] \<or> hd xs = []"
  by (cases "(sep, xs)" rule: join_with.cases) auto

text \<open>\<open>%d\<close> of a number that is not negative.\<close>

definition digit_char :: "nat \<Rightarrow> char" where
  "digit_char n = char_of (48 + n)"

fun itoa :: "nat \<Rightarrow> string" where
  "itoa n = (if n < 10 then [digit_char n] else itoa (n div 10) @ [digit_char (n mod 10)])"

declare itoa.simps [simp del]

lemma of_char_digit [simp]: "n < 10 \<Longrightarrow> of_char (digit_char n) = (48 + n :: nat)"
  by (simp add: digit_char_def)

definition digits_nat :: "string \<Rightarrow> nat" where
  "digits_nat ds = foldl (\<lambda>n c. 10 * n + (of_char c - 48)) 0 ds"

lemma digits_nat_itoa [simp]: "digits_nat (itoa n) = n"
proof (induction n rule: itoa.induct)
  case (1 n)
  then show ?case
    by (cases "n < 10") (simp_all add: itoa.simps [of n] digits_nat_def)
qed

lemma itoa_inject [simp]: "itoa m = itoa n \<longleftrightarrow> m = n"
  by (metis digits_nat_itoa)

lemma itoa_chars: "c \<in> set (itoa n) \<Longrightarrow> \<exists>d < 10. c = digit_char d"
proof (induction n rule: itoa.induct)
  case (1 n)
  then show ?case
    by (cases "n < 10") (auto simp: itoa.simps [of n] intro: exI [of _ "n mod 10"])
qed

lemma itoa_not_Nil [simp]: "itoa n \<noteq> []"
  by (simp add: itoa.simps [of n])

text \<open>\<open>strconv.Itoa\<close>, and \<open>%d\<close> of any integer.\<close>

definition Itoa :: "int \<Rightarrow> string" where
  "Itoa i = (if i < 0 then ''-'' @ itoa (nat (- i)) else itoa (nat i))"

section \<open>Go maps\<close>

text \<open>Reading a missing key gives the zero value, here the empty string.\<close>

type_synonym 'v gomap = "(string \<times> 'v) list"

definition map_index :: "string gomap \<Rightarrow> string \<Rightarrow> string" where
  "map_index m k = (case map_of m k of None \<Rightarrow> [] | Some v \<Rightarrow> v)"

lemma gomap_update [go_map_simps]:
  "map_of (AList.update k v m) = (map_of m)(k \<mapsto> v)"
  by (rule AList.update_conv')

lemma gomap_delete [go_map_simps]:
  "map_of (AList.delete k m) = (map_of m)(k := None)"
  by (rule AList.delete_conv')

lemma map_of_eq_iff_mset:
  "distinct (map fst xs) \<Longrightarrow> distinct (map fst ys) \<Longrightarrow> set xs = set ys \<Longrightarrow> map_of xs = map_of ys"
  by (rule map_of_eqI) (auto simp: map_of_eq_Some_iff)

section \<open>Results\<close>

text \<open>A loop that applies a fallible step to each element and stops at the first error.\<close>

fun traverse :: "('a \<Rightarrow> 'e + 'b) \<Rightarrow> 'a list \<Rightarrow> 'e + 'b list" where
  "traverse f [] = Inr []"
| "traverse f (x # xs) =
     (case f x of Inl e \<Rightarrow> Inl e
      | Inr y \<Rightarrow> (case traverse f xs of Inl e \<Rightarrow> Inl e | Inr ys \<Rightarrow> Inr (y # ys)))"

lemma case_Inr_iff [go_result_simps]:
  "(case r of Inl e \<Rightarrow> Inl (h e) | Inr x \<Rightarrow> f x) = Inr y \<longleftrightarrow> (\<exists>x. r = Inr x \<and> f x = Inr y)"
  by (cases r) auto

lemma case_Inl_iff [go_result_simps]:
  "(case r of Inl e \<Rightarrow> Inl (h e) | Inr x \<Rightarrow> f x) = Inl z \<longleftrightarrow>
     (\<exists>e. r = Inl e \<and> z = h e) \<or> (\<exists>x. r = Inr x \<and> f x = Inl z)"
  by (cases r) auto

lemma traverse_Inr_iff [go_result_simps]:
  "traverse f xs = Inr ys \<longleftrightarrow> list_all2 (\<lambda>x y. f x = Inr y) xs ys"
proof (induction xs arbitrary: ys)
  case (Cons x xs)
  show ?case
  proof (cases "traverse f xs")
    case (Inl e)
    then have "\<not> list_all2 (\<lambda>x y. f x = Inr y) xs zs" for zs using Cons.IH [of zs] by simp
    with Inl show ?thesis by (auto simp: list_all2_Cons1 split: sum.splits)
  next
    case (Inr zs)
    then have "list_all2 (\<lambda>x y. f x = Inr y) xs us \<longleftrightarrow> us = zs" for us
      using Cons.IH [of us] by auto
    with Inr show ?thesis by (auto simp: list_all2_Cons1 split: sum.splits)
  qed
qed auto

lemma traverse_Inl:
  "traverse f xs = Inl e \<Longrightarrow> \<exists>x \<in> set xs. f x = Inl e"
  by (induction xs) (auto split: sum.splits)

section \<open>Fallible programs over a state\<close>

text \<open>\<open>r, err := m; if err != nil { return err }; f(r)\<close> is \<open>try_do m f\<close>: the state changes of
  \<open>m\<close> stay, its error ends the function.\<close>

type_synonym ('s, 'e, 'a) prog = "('s, 'e + 'a) state"

definition ok :: "'a \<Rightarrow> ('s, 'e, 'a) prog" where
  "ok x = State_Monad.return (Inr x)"

definition fail :: "'e \<Rightarrow> ('s, 'e, 'a) prog" where
  "fail e = State_Monad.return (Inl e)"

definition try_do :: "('s, 'e, 'a) prog \<Rightarrow> ('a \<Rightarrow> ('s, 'e, 'b) prog) \<Rightarrow> ('s, 'e, 'b) prog" where
  "try_do m f = State_Monad.bind m (\<lambda>r. case r of Inl e \<Rightarrow> fail e | Inr x \<Rightarrow> f x)"

text \<open>\<open>defer g()\<close>: the cleanup runs after the body, whatever its result.\<close>

definition finally_do :: "('s, 'e, 'a) prog \<Rightarrow> ('s, unit) state \<Rightarrow> ('s, 'e, 'a) prog" where
  "finally_do m g = do { r \<leftarrow> m; _ \<leftarrow> g; State_Monad.return r }"

lemma run_ok [simp]: "run_state (ok x) s = (Inr x, s)"
  by (simp add: ok_def)

lemma run_fail [simp]: "run_state (fail e) s = (Inl e, s)"
  by (simp add: fail_def)

lemma run_try_do [simp]:
  "run_state (try_do m f) s =
     (case run_state m s of (Inl e, s') \<Rightarrow> (Inl e, s') | (Inr x, s') \<Rightarrow> run_state (f x) s')"
  by (auto simp: try_do_def split: prod.splits sum.splits)

lemma run_finally_do [simp]:
  "run_state (finally_do m g) s =
     (case run_state m s of (r, s') \<Rightarrow> (r, snd (run_state g s')))"
  by (auto simp: finally_do_def split: prod.splits)

section \<open>Partial correctness of programs\<close>

text \<open>\<open>hoare P m Q\<close>: from a state with \<open>P\<close>, the result and the final state of \<open>m\<close> satisfy \<open>Q\<close>.
  Programs always return, so this is total correctness too.\<close>

definition hoare :: "('s \<Rightarrow> bool) \<Rightarrow> ('s, 'a) state \<Rightarrow> ('a \<Rightarrow> 's \<Rightarrow> bool) \<Rightarrow> bool" where
  "hoare P m Q \<longleftrightarrow> (\<forall>s r t. P s \<longrightarrow> run_state m s = (r, t) \<longrightarrow> Q r t)"

named_theorems hoare_rules \<open>rules for partial correctness\<close>

lemma hoareD: "hoare P m Q \<Longrightarrow> P s \<Longrightarrow> run_state m s = (r, t) \<Longrightarrow> Q r t"
  by (simp add: hoare_def)

lemma hoare_run: "hoare P m Q \<Longrightarrow> P s \<Longrightarrow> Q (fst (run_state m s)) (snd (run_state m s))"
  by (simp add: hoare_def)

lemma hoare_pre: "hoare R m Q \<Longrightarrow> (\<And>s. P s \<Longrightarrow> R s) \<Longrightarrow> hoare P m Q"
  by (auto simp: hoare_def)

lemma hoare_post: "hoare P m R \<Longrightarrow> (\<And>r s. R r s \<Longrightarrow> Q r s) \<Longrightarrow> hoare P m Q"
  by (auto simp: hoare_def)

lemma hoare_return [hoare_rules]: "hoare (Q x) (State_Monad.return x) Q"
  by (simp add: hoare_def)

lemma hoare_ok [hoare_rules]: "hoare (Q (Inr x)) (ok x) Q"
  by (simp add: hoare_def)

lemma hoare_fail [hoare_rules]: "hoare (Q (Inl e)) (fail e) Q"
  by (simp add: hoare_def)

lemma hoare_bind [hoare_rules]:
  "hoare P m R \<Longrightarrow> (\<And>x. hoare (R x) (f x) Q) \<Longrightarrow> hoare P (State_Monad.bind m f) Q"
  by (fastforce simp: hoare_def split: prod.splits)

lemma hoare_try [hoare_rules]:
  "hoare P m R \<Longrightarrow> (\<And>e s. R (Inl e) s \<Longrightarrow> Q (Inl e) s) \<Longrightarrow>
     (\<And>x. hoare (R (Inr x)) (f x) Q) \<Longrightarrow> hoare P (try_do m f) Q"
  by (fastforce simp: hoare_def split: prod.splits sum.splits)

lemma hoare_finally [hoare_rules]:
  "hoare P m R \<Longrightarrow> (\<And>r. hoare (R r) g (\<lambda>_. Q r)) \<Longrightarrow> hoare P (finally_do m g) Q"
  by (simp add: hoare_def split: prod.split) (metis old.unit.exhaust prod.collapse)

lemma hoare_if [hoare_rules]:
  "(b \<Longrightarrow> hoare P m Q) \<Longrightarrow> (\<not> b \<Longrightarrow> hoare P m' Q) \<Longrightarrow> hoare P (if b then m else m') Q"
  by simp

lemma hoare_case_sum [hoare_rules]:
  "(\<And>e. r = Inl e \<Longrightarrow> hoare P (f e) Q) \<Longrightarrow> (\<And>x. r = Inr x \<Longrightarrow> hoare P (g x) Q) \<Longrightarrow>
     hoare P (case r of Inl e \<Rightarrow> f e | Inr x \<Rightarrow> g x) Q"
  by (cases r) simp_all

lemma hoare_case_option [hoare_rules]:
  "(r = None \<Longrightarrow> hoare P f Q) \<Longrightarrow> (\<And>x. r = Some x \<Longrightarrow> hoare P (g x) Q) \<Longrightarrow>
     hoare P (case r of None \<Rightarrow> f | Some x \<Rightarrow> g x) Q"
  by (cases r) simp_all

text \<open>A program that keeps a predicate whatever its result.\<close>

definition keeps :: "('s \<Rightarrow> bool) \<Rightarrow> ('s, 'a) state \<Rightarrow> bool" where
  "keeps P m \<longleftrightarrow> hoare P m (\<lambda>_. P)"

named_theorems keeps_rules \<open>rules for invariants of programs\<close>

lemma keepsD: "keeps P m \<Longrightarrow> P s \<Longrightarrow> P (snd (run_state m s))"
  unfolding keeps_def by (drule hoare_run)

lemma keeps_return [keeps_rules]: "keeps P (State_Monad.return x)"
  by (simp add: keeps_def hoare_def)

lemma keeps_ok [keeps_rules]: "keeps P (ok x)"
  by (simp add: keeps_def hoare_def)

lemma keeps_fail [keeps_rules]: "keeps P (fail e)"
  by (simp add: keeps_def hoare_def)

lemma keeps_bind [keeps_rules]:
  "keeps P m \<Longrightarrow> (\<And>x. keeps P (f x)) \<Longrightarrow> keeps P (State_Monad.bind m f)"
  unfolding keeps_def by (rule hoare_bind)

lemma keeps_try [keeps_rules]:
  "keeps P m \<Longrightarrow> (\<And>x. keeps P (f x)) \<Longrightarrow> keeps P (try_do m f)"
  unfolding keeps_def by (rule hoare_try)

lemma keeps_finally [keeps_rules]:
  "keeps P m \<Longrightarrow> keeps P g \<Longrightarrow> keeps P (finally_do m g)"
  unfolding keeps_def by (rule hoare_finally)

lemma keeps_if [keeps_rules]:
  "(b \<Longrightarrow> keeps P m) \<Longrightarrow> (\<not> b \<Longrightarrow> keeps P m') \<Longrightarrow> keeps P (if b then m else m')"
  by simp

lemma keeps_case_sum [keeps_rules]:
  "(\<And>e. r = Inl e \<Longrightarrow> keeps P (f e)) \<Longrightarrow> (\<And>x. r = Inr x \<Longrightarrow> keeps P (g x)) \<Longrightarrow>
     keeps P (case r of Inl e \<Rightarrow> f e | Inr x \<Rightarrow> g x)"
  by (cases r) simp_all

lemma keeps_case_option [keeps_rules]:
  "(r = None \<Longrightarrow> keeps P f) \<Longrightarrow> (\<And>x. r = Some x \<Longrightarrow> keeps P (g x)) \<Longrightarrow>
     keeps P (case r of None \<Rightarrow> f | Some x \<Rightarrow> g x)"
  by (cases r) simp_all

end
