(* ===== verification/Regex.thy ===== *)
theory Regex
  imports Prelude
begin

text \<open>
  The part of Go's \<open>regexp\<close> that the driver's two anchored patterns use: character classes,
  sequence, repetition and an optional part. \<open>MatchString\<close> of a pattern anchored at both ends is
  membership of the whole input; it is computed by derivatives and proved equal to the language
  of the expression.
\<close>

datatype re =
    Never
  | Empty
  | Class "char \<Rightarrow> bool"
  | Seq re re
  | Either re re
  | Many re

definition Optional :: "re \<Rightarrow> re" where
  "Optional r = Either r Empty"

definition AtLeastOne :: "re \<Rightarrow> re" where
  "AtLeastOne r = Seq r (Many r)"

text \<open>The language, one rule for each way to match.\<close>

inductive in_lang :: "re \<Rightarrow> string \<Rightarrow> bool" where
  empty: "in_lang Empty []"
| cls: "p c \<Longrightarrow> in_lang (Class p) [c]"
| sequence: "in_lang r s \<Longrightarrow> in_lang q t \<Longrightarrow> in_lang (Seq r q) (s @ t)"
| left: "in_lang r s \<Longrightarrow> in_lang (Either r q) s"
| right: "in_lang q s \<Longrightarrow> in_lang (Either r q) s"
| none: "in_lang (Many r) []"
| more: "in_lang r s \<Longrightarrow> in_lang (Many r) t \<Longrightarrow> in_lang (Many r) (s @ t)"

inductive_simps in_lang_simps [simp]:
  "in_lang Never s"
  "in_lang Empty s"
  "in_lang (Class p) s"
  "in_lang (Seq r q) s"
  "in_lang (Either r q) s"

text \<open>The matcher.\<close>

fun accepts_empty :: "re \<Rightarrow> bool" where
  "accepts_empty Never = False"
| "accepts_empty Empty = True"
| "accepts_empty (Class p) = False"
| "accepts_empty (Seq r q) = (accepts_empty r \<and> accepts_empty q)"
| "accepts_empty (Either r q) = (accepts_empty r \<or> accepts_empty q)"
| "accepts_empty (Many r) = True"

fun after_char :: "char \<Rightarrow> re \<Rightarrow> re" where
  "after_char c Never = Never"
| "after_char c Empty = Never"
| "after_char c (Class p) = (if p c then Empty else Never)"
| "after_char c (Seq r q) =
     (if accepts_empty r then Either (Seq (after_char c r) q) (after_char c q)
      else Seq (after_char c r) q)"
| "after_char c (Either r q) = Either (after_char c r) (after_char c q)"
| "after_char c (Many r) = Seq (after_char c r) (Many r)"

definition MatchString :: "re \<Rightarrow> string \<Rightarrow> bool" where
  "MatchString r s = accepts_empty (foldl (\<lambda>q c. after_char c q) r s)"

lemma accepts_empty_iff: "accepts_empty r \<longleftrightarrow> in_lang r []"
  by (induction r) (auto intro: in_lang.none)

lemma Many_Cons: "in_lang (Many r) s \<Longrightarrow> s = c # u \<Longrightarrow>
    \<exists>v w. u = v @ w \<and> in_lang r (c # v) \<and> in_lang (Many r) w"
proof (induction "Many r" s arbitrary: u rule: in_lang.induct)
  case (more s t)
  then show ?case by (cases s) auto
qed simp

lemma Many_Cons_iff:
  "in_lang (Many r) (c # u) \<longleftrightarrow> (\<exists>v w. u = v @ w \<and> in_lang r (c # v) \<and> in_lang (Many r) w)"
  using Many_Cons in_lang.more by fastforce

lemma Seq_Cons_iff:
  "in_lang (Seq r q) (c # u) \<longleftrightarrow>
     (\<exists>v w. u = v @ w \<and> in_lang r (c # v) \<and> in_lang q w) \<or> in_lang r [] \<and> in_lang q (c # u)"
  by (auto simp: Cons_eq_append_conv)

lemma after_char_iff: "in_lang (after_char c r) u \<longleftrightarrow> in_lang r (c # u)"
proof (induction r arbitrary: u)
  case (Seq r q)
  then show ?case
    by (simp only: Seq_Cons_iff after_char.simps accepts_empty_iff) auto
next
  case (Many r)
  then show ?case by (auto simp: Many_Cons_iff)
qed auto

theorem MatchString_iff: "MatchString r s \<longleftrightarrow> in_lang r s"
  by (induction s arbitrary: r) (auto simp: MatchString_def accepts_empty_iff after_char_iff)

lemma Many_Class_iff: "in_lang (Many (Class p)) s \<longleftrightarrow> list_all p s"
proof (induction s)
  case Nil
  show ?case by (simp add: in_lang.none)
next
  case (Cons c s)
  then show ?case by (auto simp: Many_Cons_iff)
qed

lemma Optional_iff: "in_lang (Optional r) s \<longleftrightarrow> in_lang r s \<or> s = []"
  by (auto simp: Optional_def)

lemma AtLeastOne_Class_iff: "in_lang (AtLeastOne (Class p)) s \<longleftrightarrow> s \<noteq> [] \<and> list_all p s"
proof (cases s)
  case Nil
  then show ?thesis by (simp add: AtLeastOne_def)
next
  case (Cons c u)
  then show ?thesis
    by (simp add: AtLeastOne_def Seq_Cons_iff Many_Class_iff del: in_lang_simps(4))
qed

end
