(* ===== verification/Backend.thy ===== *)
theory Backend
  imports Regex
begin

text \<open>
  Package \<open>pkg/backend\<close>: the option schema and mount request of a backend (\<open>backend.go\<close>) and the
  option policy of the administrator (\<open>policy.go\<close>). A policy starts from the defaults, merges the
  options of the pod under schema, denylist and allowlist, and applies the forced options last.
\<close>

section \<open>Option schema and mount request\<close>

datatype value_kind = ValueFlag | ValueEnum | ValueBool | ValueDuration | ValueInt | ValueSize

text \<open>The Go constants are numbered by \<open>iota\<close>, which orders them.\<close>

fun iota :: "value_kind \<Rightarrow> nat" where
  "iota ValueFlag = 0"
| "iota ValueEnum = 1"
| "iota ValueBool = 2"
| "iota ValueDuration = 3"
| "iota ValueInt = 4"
| "iota ValueSize = 5"

lemma iota_inject [simp]: "iota k = iota l \<longleftrightarrow> k = l"
  by (cases k; cases l) simp_all

instantiation value_kind :: linorder
begin

definition less_eq_value_kind :: "value_kind \<Rightarrow> value_kind \<Rightarrow> bool" where
  "less_eq_value_kind k l \<longleftrightarrow> iota k \<le> iota l"

definition less_value_kind :: "value_kind \<Rightarrow> value_kind \<Rightarrow> bool" where
  "less_value_kind k l \<longleftrightarrow> iota k < iota l"

instance
  by standard (auto simp: less_eq_value_kind_def less_value_kind_def)

end

record option_spec =
  Kind :: value_kind
  Enum :: "string list"
  MinInt :: int
  MaxInt :: int

type_synonym option_schema = "option_spec gomap"

text \<open>Composite literals leave the other fields at their zero value.\<close>

definition kind_spec :: "value_kind \<Rightarrow> option_spec" where
  "kind_spec k = \<lparr>Kind = k, Enum = [], MinInt = 0, MaxInt = 0\<rparr>"

definition enum_spec :: "string list \<Rightarrow> option_spec" where
  "enum_spec vs = \<lparr>Kind = ValueEnum, Enum = vs, MinInt = 0, MaxInt = 0\<rparr>"

definition int_spec :: "int \<Rightarrow> int \<Rightarrow> option_spec" where
  "int_spec lo hi = \<lparr>Kind = ValueInt, Enum = [], MinInt = lo, MaxInt = hi\<rparr>"

lemmas spec_literals = kind_spec_def enum_spec_def int_spec_def

record source =
  src_Path :: string
  src_Mode :: string

record mount_spec =
  VolumeID :: string
  Target :: string
  Sources :: "source list"
  Options :: "string gomap"
  ReadOnly :: bool

text \<open>The interface a backend implements, over the node state \<open>'w\<close> its calls change. The
  errors \<open>'e\<close> of its mount operations are opaque to the driver, which only wraps them.\<close>

record ('w, 'e) backend =
  Name :: string
  Schema :: option_schema
  SourceModes :: "string list \<times> string"
  MaxWritable :: nat
  DefaultOptions :: "string gomap"
  DefaultDenylist :: "string list"
  Mount :: "mount_spec \<Rightarrow> ('w, 'e, unit) prog"
  Share :: "string \<Rightarrow> string \<Rightarrow> string \<Rightarrow> bool \<Rightarrow> ('w, 'e, unit) prog"
  Unmount :: "string \<Rightarrow> string \<Rightarrow> ('w, 'e, unit) prog"

section \<open>Option values\<close>

definition is_digit :: "char \<Rightarrow> bool" where
  "is_digit c \<longleftrightarrow> CHR ''0'' \<le> c \<and> c \<le> CHR ''9''"

definition digits_value :: "string \<Rightarrow> int" where
  "digits_value ds = foldl (\<lambda>n c. 10 * n + (of_char c - 48)) 0 ds"

text \<open>\<open>strconv.ParseUint(s, 10, bits)\<close> and \<open>strconv.ParseInt(s, 10, bits)\<close>.\<close>

definition ParseUint :: "string \<Rightarrow> nat \<Rightarrow> int option" where
  "ParseUint s bits =
     (if s \<noteq> [] \<and> list_all is_digit s \<and> digits_value s < 2 ^ bits then Some (digits_value s)
      else None)"

definition ParseInt :: "string \<Rightarrow> nat \<Rightarrow> int option" where
  "ParseInt s bits =
     (let neg = (s \<noteq> [] \<and> hd s = CHR ''-'');
          ds = (if s \<noteq> [] \<and> (hd s = CHR ''-'' \<or> hd s = CHR ''+'') then tl s else s);
          n = (if neg then - digits_value ds else digits_value ds)
      in if ds \<noteq> [] \<and> list_all is_digit ds \<and> - (2 ^ (bits - 1)) \<le> n \<and> n < 2 ^ (bits - 1)
         then Some n else None)"

definition sizeRE :: re where
  "sizeRE = Seq (AtLeastOne (Class is_digit)) (Optional (Class (\<lambda>c. c \<in> set ''KMGT'')))"

section \<open>The option policy\<close>

type_synonym denylist_mode = string

definition DenylistRefuse :: denylist_mode where
  "DenylistRefuse = ''refuse''"

definition DenylistStrip :: denylist_mode where
  "DenylistStrip = ''strip''"

record policy_config =
  Allowlist :: "string list"
  Denylist :: "string list"
  DenylistMode :: denylist_mode
  Defaults :: "string gomap"
  Forced :: "string gomap"

record policy =
  schema :: option_schema
  config :: policy_config

definition NewPolicy :: "option_schema \<Rightarrow> policy_config \<Rightarrow> policy" where
  "NewPolicy s c = \<lparr>schema = s, config = c\<rparr>"

datatype policy_error =
    UnknownOption string
  | TakesNoValue string
  | NotInEnum string string "string list"
  | NotABool string string
  | NotADuration string string
  | NotAnInteger string string
  | OutOfRange string int int int
  | NotAByteSize string string
  | DeniedByPolicy string
  | NotAllowlisted string
  | InDefaultOptions policy_error
  | InForcedOptions policy_error

definition checkSchema :: "policy \<Rightarrow> string \<Rightarrow> string \<Rightarrow> policy_error + unit" where
  "checkSchema p key v =
     (case map_of (schema p) key of
        None \<Rightarrow> Inl (UnknownOption key)
      | Some spec \<Rightarrow>
          (case Kind spec of
             ValueFlag \<Rightarrow> if v \<noteq> [] \<and> v \<noteq> ''true'' then Inl (TakesNoValue key) else Inr ()
           | ValueEnum \<Rightarrow> if v \<in> set (Enum spec) then Inr () else Inl (NotInEnum key v (Enum spec))
           | ValueBool \<Rightarrow> if v \<noteq> ''true'' \<and> v \<noteq> ''false'' then Inl (NotABool key v) else Inr ()
           | ValueDuration \<Rightarrow>
               (case ParseUint v 32 of None \<Rightarrow> Inl (NotADuration key v) | Some _ \<Rightarrow> Inr ())
           | ValueInt \<Rightarrow>
               (case ParseInt v 64 of
                  None \<Rightarrow> Inl (NotAnInteger key v)
                | Some n \<Rightarrow>
                    if n < MinInt spec \<or> n > MaxInt spec
                    then Inl (OutOfRange key n (MinInt spec) (MaxInt spec)) else Inr ())
           | ValueSize \<Rightarrow> if \<not> MatchString sizeRE v then Inl (NotAByteSize key v) else Inr ()))"

definition denied :: "policy \<Rightarrow> string \<Rightarrow> bool" where
  "denied p key = list_ex (\<lambda>d. d = key) (Denylist (config p))"

definition allowed :: "policy \<Rightarrow> string \<Rightarrow> bool" where
  "allowed p key =
     (if Allowlist (config p) = [] then True
      else list_ex (\<lambda>a. a = key) (Allowlist (config p)))"

text \<open>Each map is walked in an order Go does not fix; the lists stand for one such order.\<close>

definition Validate :: "policy \<Rightarrow> policy_error + unit" where
  "Validate p =
     (case traverse (\<lambda>(k, v). checkSchema p k v) (Defaults (config p)) of
        Inl e \<Rightarrow> Inl (InDefaultOptions e)
      | Inr _ \<Rightarrow>
          (case traverse (\<lambda>(k, v). checkSchema p k v) (Forced (config p)) of
             Inl e \<Rightarrow> Inl (InForcedOptions e)
           | Inr _ \<Rightarrow> Inr ()))"

definition assign_all :: "string gomap \<Rightarrow> string gomap \<Rightarrow> string gomap" where
  "assign_all entries m = foldl (\<lambda>r (k, v). AList.update k v r) m entries"

fun resolve_pod :: "policy \<Rightarrow> string gomap \<Rightarrow> string gomap \<Rightarrow> policy_error + string gomap" where
  "resolve_pod p result [] = Inr result"
| "resolve_pod p result ((k, v) # rest) =
     (case checkSchema p k v of
        Inl e \<Rightarrow> Inl e
      | Inr _ \<Rightarrow>
          if denied p k then
            (if DenylistMode (config p) = DenylistStrip then resolve_pod p result rest
             else Inl (DeniedByPolicy k))
          else if \<not> allowed p k then Inl (NotAllowlisted k)
          else resolve_pod p (AList.update k v result) rest)"

definition Resolve :: "policy \<Rightarrow> string gomap \<Rightarrow> policy_error + string gomap" where
  "Resolve p podOptions =
     (case resolve_pod p (assign_all (Defaults (config p)) []) podOptions of
        Inl e \<Rightarrow> Inl e
      | Inr result \<Rightarrow> Inr (assign_all (Forced (config p)) result))"

end
