(* ===== verification/Policy.thy ===== *)
theory Policy
  imports Backend "HOL-Library.Multiset"
begin

text \<open>
  What the option policy guarantees: the value of every key of a resolved option set, exactly when
  a pod request is refused, that resolved options are within the schema, and that the order in
  which Go walks the maps does not show in the result. The locale \<open>backend_contract\<close> states what
  the driver relies on of a backend's constant tables; the backends interpret it in their theories.
\<close>

section \<open>Assigning maps\<close>

abbreviation wf_map :: "'v gomap \<Rightarrow> bool" where
  "wf_map m \<equiv> distinct (map fst m)"

lemma assign_all_Nil [simp]: "assign_all [] m = m"
  by (simp add: assign_all_def)

lemma assign_all_Cons [simp]: "assign_all ((k, v) # es) m = assign_all es (AList.update k v m)"
  by (simp add: assign_all_def)

lemma map_of_assign_all [go_map_simps]:
  "wf_map es \<Longrightarrow> map_of (assign_all es m) = map_of m ++ map_of es"
proof (induction es arbitrary: m)
  case (Cons e es)
  obtain k v where e: "e = (k, v)" by fastforce
  have "map_of es k = None" using Cons.prems e by (simp add: map_of_eq_None_iff)
  then show ?case using Cons e by (auto simp: gomap_update map_add_def fun_eq_iff split: option.split)
qed simp

lemma wf_assign_all: "wf_map m \<Longrightarrow> wf_map (assign_all es m)"
  by (induction es arbitrary: m) (auto simp: distinct_update)

section \<open>Pod options\<close>

text \<open>When an entry of the pod is acceptable, and what then reaches the result.\<close>

definition entry_ok :: "policy \<Rightarrow> string \<times> string \<Rightarrow> bool" where
  "entry_ok p = (\<lambda>(k, v). checkSchema p k v = Inr () \<and>
     (if denied p k then DenylistMode (config p) = DenylistStrip else allowed p k))"

definition kept :: "policy \<Rightarrow> string gomap \<Rightarrow> string gomap" where
  "kept p opts = filter (\<lambda>(k, v). \<not> denied p k) opts"

lemma resolve_pod_Inr_iff:
  "resolve_pod p m opts = Inr r \<longleftrightarrow> list_all (entry_ok p) opts \<and> r = assign_all (kept p opts) m"
  by (induction p m opts rule: resolve_pod.induct)
    (auto simp: entry_ok_def kept_def split: sum.splits)

lemma wf_kept: "wf_map opts \<Longrightarrow> wf_map (kept p opts)"
  by (auto simp: kept_def distinct_map_filter)

lemma map_of_kept:
  "wf_map opts \<Longrightarrow> map_of (kept p opts) k = (if denied p k then None else map_of opts k)"
  by (induction opts) (auto simp: kept_def)

lemma Resolve_Inr_iff:
  "Resolve p opts = Inr r \<longleftrightarrow>
     list_all (entry_ok p) opts \<and>
     r = assign_all (Forced (config p)) (assign_all (kept p opts) (assign_all (Defaults (config p)) []))"
proof (cases "resolve_pod p (assign_all (Defaults (config p)) []) opts")
  case (Inl e)
  then have "\<not> list_all (entry_ok p) opts" by (metis resolve_pod_Inr_iff sum.distinct(1))
  with Inl show ?thesis by (simp add: Resolve_def)
next
  case (Inr x)
  then have "list_all (entry_ok p) opts"
    and "x = assign_all (kept p opts) (assign_all (Defaults (config p)) [])"
    by (simp_all only: resolve_pod_Inr_iff)
  with Inr show ?thesis by (auto simp: Resolve_def)
qed

lemma wf_Resolve: "Resolve p opts = Inr r \<Longrightarrow> wf_map r"
  by (simp add: Resolve_Inr_iff wf_assign_all)

lemma map_of_Resolve:
  assumes "wf_map (Defaults (config p))" and "wf_map (Forced (config p))" and "wf_map opts"
    and "Resolve p opts = Inr r"
  shows "map_of r = map_of (Defaults (config p)) ++ map_of (kept p opts) ++ map_of (Forced (config p))"
  using assms by (simp add: Resolve_Inr_iff map_of_assign_all wf_kept)

text \<open>C22: After a successful \<open>Resolve\<close>, every option key has the forced value if there is one,
  else the value the pod asked for unless the key is on the denylist, else the default, and is
  absent when none of the three names it.\<close>

theorem Resolve_precedence:
  assumes "wf_map (Defaults (config p))" and "wf_map (Forced (config p))" and "wf_map opts"
    and "Resolve p opts = Inr r"
  shows "map_of r k =
    (case map_of (Forced (config p)) k of
       Some v \<Rightarrow> Some v
     | None \<Rightarrow> if \<not> denied p k \<and> map_of opts k \<noteq> None then map_of opts k
              else map_of (Defaults (config p)) k)"
  using assms by (auto simp: map_of_Resolve map_add_def map_of_kept split: option.split)

text \<open>C23: \<open>Resolve\<close> accepts a pod request exactly when each of its options is within the schema
  and is either denied under the strip mode, or not denied and allowlisted.\<close>

theorem Resolve_accepts_iff:
  "(\<exists>r. Resolve p opts = Inr r) \<longleftrightarrow>
     (\<forall>(k, v) \<in> set opts. checkSchema p k v = Inr () \<and>
        (denied p k \<longrightarrow> DenylistMode (config p) = DenylistStrip) \<and>
        (\<not> denied p k \<longrightarrow> allowed p k))"
  by (auto simp: Resolve_Inr_iff list_all_iff entry_ok_def split: if_splits)

definition schema_ok :: "policy \<Rightarrow> string gomap \<Rightarrow> bool" where
  "schema_ok p m = list_all (\<lambda>(k, v). checkSchema p k v = Inr ()) m"

lemma Validate_iff:
  "Validate p = Inr () \<longleftrightarrow> schema_ok p (Defaults (config p)) \<and> schema_ok p (Forced (config p))"
proof -
  have t: "(\<exists>ys. traverse (\<lambda>(k, v). checkSchema p k v) m = Inr ys) \<longleftrightarrow> schema_ok p m" for m
    by (induction m) (auto simp: schema_ok_def split: sum.splits)
  show ?thesis using t [of "Defaults (config p)"] t [of "Forced (config p)"]
    by (auto simp: Validate_def split: sum.splits)
qed

lemma set_update_subset: "set (AList.update k v m) \<subseteq> insert (k, v) (set m)"
  by (induction m) auto

lemma set_assign_all: "set (assign_all es m) \<subseteq> set m \<union> set es"
proof (induction es arbitrary: m)
  case (Cons e es)
  then show ?case using set_update_subset by (cases e) fastforce
qed simp

lemma Resolve_schema_ok:
  assumes "Validate p = Inr ()" and "Resolve p opts = Inr r"
  shows "schema_ok p r"
proof -
  let ?d = "Defaults (config p)" and ?f = "Forced (config p)"
  have "set r \<subseteq> set ?d \<union> set (kept p opts) \<union> set ?f"
    using assms(2) set_assign_all [of ?d "[]"] set_assign_all [of "kept p opts" "assign_all ?d []"]
      set_assign_all [of ?f "assign_all (kept p opts) (assign_all ?d [])"]
    by (auto simp: Resolve_Inr_iff)
  moreover have "schema_ok p (kept p opts)"
    using assms(2) by (auto simp: Resolve_Inr_iff schema_ok_def kept_def entry_ok_def list_all_iff)
  ultimately show ?thesis
    using assms(1) by (auto simp: Validate_iff schema_ok_def list_all_iff)
qed

text \<open>If the administrator's options pass \<open>Validate\<close> at startup, every option of every resolved
  set is known to the schema with a permitted value, whoever it came from.\<close>

theorem Resolve_within_schema:
  assumes "Validate p = Inr ()" and "Resolve p opts = Inr r" and "map_of r k = Some v"
  shows "\<exists>spec. map_of (schema p) k = Some spec \<and> checkSchema p k v = Inr ()"
proof -
  have "(k, v) \<in> set r" using assms(3) by (rule map_of_SomeD)
  then have "checkSchema p k v = Inr ()"
    using Resolve_schema_ok [OF assms(1,2)] by (auto simp: schema_ok_def list_all_iff)
  then show ?thesis by (auto simp: checkSchema_def split: option.splits)
qed

lemma checkSchema_reorder:
  "schema p = schema q \<Longrightarrow> checkSchema p k v = checkSchema q k v"
  by (simp add: checkSchema_def split: option.split)

definition reordered :: "policy \<Rightarrow> policy \<Rightarrow> bool" where
  "reordered p q \<longleftrightarrow> schema p = schema q \<and>
     Allowlist (config p) = Allowlist (config q) \<and> Denylist (config p) = Denylist (config q) \<and>
     DenylistMode (config p) = DenylistMode (config q) \<and>
     mset (Defaults (config p)) = mset (Defaults (config q)) \<and>
     mset (Forced (config p)) = mset (Forced (config q))"

lemma reordered_entry_ok:
  assumes "reordered p q"
  shows "entry_ok p = entry_ok q" and "kept p = kept q"
  using assms
  by (auto simp: entry_ok_def kept_def reordered_def denied_def allowed_def fun_eq_iff
        checkSchema_reorder [of p q])

lemma map_of_mset:
  assumes "wf_map xs" and "mset xs = mset ys"
  shows "wf_map ys" and "map_of xs = map_of ys"
proof -
  show w: "wf_map ys"
    using assms by (metis mset_map mset_eq_imp_distinct_iff)
  show "map_of xs = map_of ys"
    using assms w by (intro map_of_eq_iff_mset) (auto dest: mset_eq_setD)
qed

text \<open>C37: The order in which Go iterates the option maps decides at most which error is reported:
  for the same maps listed in any other order, \<open>Resolve\<close> succeeds in the same cases and with the
  same option set.\<close>

theorem Resolve_order_independent:
  assumes "wf_map (Defaults (config p))" and "wf_map (Forced (config p))" and "wf_map opts"
    and "reordered p q" and "mset opts = mset opts'"
  shows "rel_sum (\<lambda>_ _. True) (\<lambda>r r'. map_of r = map_of r') (Resolve p opts) (Resolve q opts')"
proof -
  have wf: "wf_map (Defaults (config q))" "wf_map (Forced (config q))" "wf_map opts'"
    and m: "map_of (Defaults (config p)) = map_of (Defaults (config q))"
      "map_of (Forced (config p)) = map_of (Forced (config q))"
    using assms map_of_mset by (auto simp: reordered_def)
  have "mset (kept p opts) = mset (kept q opts')"
    using reordered_entry_ok(2) [OF assms(4)] assms(5) by (simp add: kept_def)
  then have k: "map_of (kept p opts) = map_of (kept q opts')"
    using map_of_mset wf_kept assms(3) by blast
  have acc: "list_all (entry_ok p) opts \<longleftrightarrow> list_all (entry_ok q) opts'"
    using reordered_entry_ok(1) [OF assms(4)] mset_eq_setD [OF assms(5)] by (simp add: list_all_iff)
  show ?thesis
  proof (cases "Resolve p opts")
    case (Inl e)
    then obtain e' where "Resolve q opts' = Inl e'"
      using acc by (metis Resolve_Inr_iff sum.distinct(1) sum.exhaust)
    with Inl show ?thesis by simp
  next
    case (Inr r)
    then obtain r' where r': "Resolve q opts' = Inr r'" using acc by (metis Resolve_Inr_iff)
    then show ?thesis
      using Inr map_of_Resolve [OF assms(1-3) Inr] map_of_Resolve [OF wf r'] by (simp add: m k)
  qed
qed

section \<open>A policy\<close>

text \<open>The pod may choose \<open>mode\<close>; a \<open>limit\<close> it asks for is dropped, and \<open>ro\<close> is forced.\<close>

definition strip_policy :: policy where
  "strip_policy = NewPolicy
     [(''mode'', enum_spec [''fast'', ''safe'']), (''limit'', int_spec 0 10), (''ro'', kind_spec ValueFlag)]
     \<lparr>Allowlist = [], Denylist = [''limit''], DenylistMode = DenylistStrip,
      Defaults = [(''mode'', ''safe''), (''limit'', ''3'')], Forced = [(''ro'', [])]\<rparr>"

abbreviation pod_wish :: "string gomap" where
  "pod_wish \<equiv> [(''mode'', ''fast''), (''limit'', ''9'')]"

lemma strip_policy_Resolve:
  "Resolve strip_policy pod_wish = Inr [(''mode'', ''fast''), (''limit'', ''3''), (''ro'', [])]"
  by code_simp

theorem Resolve_precedence_witness:
  "map_of [(''mode'', ''fast''), (''limit'', ''3''), (''ro'', [])] ''limit'' = Some ''3'' \<and>
   denied strip_policy ''limit''"
proof -
  have w: "wf_map (Defaults (config strip_policy))" "wf_map (Forced (config strip_policy))"
    "wf_map pod_wish" by code_simp+
  have d: "denied strip_policy ''limit''" by code_simp
  have "map_of (Forced (config strip_policy)) ''limit'' = None"
    "map_of (Defaults (config strip_policy)) ''limit'' = Some ''3''" by code_simp+
  then show ?thesis using d Resolve_precedence [OF w strip_policy_Resolve, of "''limit''"] by simp
qed

theorem Resolve_accepts_iff_witness:
  "(\<exists>r. Resolve strip_policy pod_wish = Inr r) \<and> \<not> (\<exists>r. Resolve strip_policy [(''limit'', ''x'')] = Inr r)"
proof -
  have a: "checkSchema strip_policy ''mode'' ''fast'' = Inr ()" "\<not> denied strip_policy ''mode''"
    "allowed strip_policy ''mode''" "checkSchema strip_policy ''limit'' ''9'' = Inr ()"
    "DenylistMode (config strip_policy) = DenylistStrip" "denied strip_policy ''limit''"
    "checkSchema strip_policy ''limit'' ''x'' \<noteq> Inr ()"
    by code_simp+
  show ?thesis
    using Resolve_accepts_iff [of strip_policy pod_wish]
      Resolve_accepts_iff [of strip_policy "[(''limit'', ''x'')]"] a by simp
qed

theorem Resolve_within_schema_witness:
  "\<exists>spec. map_of (schema strip_policy) ''mode'' = Some spec \<and>
     checkSchema strip_policy ''mode'' ''fast'' = Inr ()"
proof -
  have v: "Validate strip_policy = Inr ()" by code_simp
  show ?thesis using Resolve_within_schema [OF v strip_policy_Resolve, of "''mode''" "''fast''"] by simp
qed

theorem Resolve_order_independent_witness:
  "rel_sum (\<lambda>_ _. True) (\<lambda>r r'. map_of r = map_of r')
     (Resolve strip_policy pod_wish) (Resolve strip_policy [(''limit'', ''9''), (''mode'', ''fast'')])"
proof -
  have w: "wf_map (Defaults (config strip_policy))" "wf_map (Forced (config strip_policy))"
    "wf_map pod_wish" by code_simp+
  show ?thesis
    by (rule Resolve_order_independent [OF w]) (simp_all add: reordered_def)
qed

section \<open>Numbers as option values\<close>

lemma digit_is_digit [simp]: "d < 10 \<Longrightarrow> is_digit (digit_char d)"
  by (simp add: is_digit_def less_eq_char_def)

lemma of_char_digit_int: "d < 10 \<Longrightarrow> (of_char (digit_char d) :: int) = 48 + int d"
  using of_nat_of_char [of "digit_char d", where ?'a = int] by simp

lemma digits_value_itoa [simp]: "digits_value (itoa n) = int n"
proof (induction n rule: itoa.induct)
  case (1 n)
  have "10 * int (n div 10) + int (n mod 10) = int n"
    by (metis mult_div_mod_eq of_nat_add of_nat_mult of_nat_numeral)
  with 1 show ?case
    by (cases "n < 10") (simp_all add: itoa.simps [of n] digits_value_def of_char_digit_int)
qed

lemma itoa_digits: "list_all is_digit (itoa n)"
  using itoa_chars by (fastforce simp: list_all_iff)

lemma itoa_head: "hd (itoa n) \<noteq> CHR ''-'' \<and> hd (itoa n) \<noteq> CHR ''+''"
proof -
  have "is_digit (hd (itoa n))" using itoa_digits [of n] by (cases "itoa n") (simp_all add: itoa_not_Nil)
  then show ?thesis by (auto simp: is_digit_def less_eq_char_def)
qed

lemma ParseInt_Itoa:
  "ParseInt (Itoa i) bits = (if - (2 ^ (bits - 1)) \<le> i \<and> i < 2 ^ (bits - 1) then Some i else None)"
  using itoa_head [of "nat i"] itoa_digits
  by (cases "i < 0") (auto simp: ParseInt_def Itoa_def Let_def)

lemma ParseUint_Itoa:
  "ParseUint (Itoa i) bits = (if 0 \<le> i \<and> i < 2 ^ bits then Some i else None)"
  using itoa_digits by (cases "i < 0") (auto simp: ParseUint_def Itoa_def is_digit_def less_eq_char_def)

text \<open>C36: An integer, written in decimal, is accepted for an integer option exactly within the bounds of
  its schema entry, and for a duration exactly as a number of seconds of 32 bits; numbers beyond 64
  bits are refused and never wrap around into the range.\<close>

theorem number_option_bounds:
  assumes "map_of (schema p) k = Some spec" and "- (2 ^ 63) \<le> MinInt spec" and "MaxInt spec < 2 ^ 63"
  shows "(Kind spec = ValueInt \<longrightarrow>
      (checkSchema p k (Itoa i) = Inr () \<longleftrightarrow> MinInt spec \<le> i \<and> i \<le> MaxInt spec)) \<and>
    (Kind spec = ValueDuration \<longrightarrow> (checkSchema p k (Itoa i) = Inr () \<longleftrightarrow> 0 \<le> i \<and> i < 2 ^ 32))"
  using assms by (auto simp: checkSchema_def ParseInt_Itoa ParseUint_Itoa)

theorem number_option_bounds_witness:
  "checkSchema strip_policy ''limit'' (Itoa 10) = Inr () \<and>
   checkSchema strip_policy ''limit'' (Itoa (2 ^ 64 + 3)) \<noteq> Inr ()"
proof -
  have s: "map_of (schema strip_policy) ''limit'' = Some (int_spec 0 10)"
    by (simp add: strip_policy_def NewPolicy_def)
  show ?thesis using number_option_bounds [OF s] by (simp add: int_spec_def)
qed

section \<open>Separators in option values\<close>

text \<open>The characters that would end an option or a branch on a mount command line.\<close>

definition separator :: "char \<Rightarrow> bool" where
  "separator c \<longleftrightarrow> c = CHR '','' \<or> c = CHR ''='' \<or> c = CHR '':'' \<or> c = CHR 0x5C \<or> c = CHR ''/''"

definition plain :: "string \<Rightarrow> bool" where
  "plain s \<longleftrightarrow> list_all (\<lambda>c. \<not> separator c) s"

lemma plain_no: "plain s \<Longrightarrow> CHR '','' \<notin> set s \<and> CHR ''='' \<notin> set s \<and> CHR '':'' \<notin> set s \<and> CHR ''/'' \<notin> set s"
  by (auto simp: plain_def separator_def list_all_iff)

definition plain_schema :: "option_schema \<Rightarrow> bool" where
  "plain_schema s = list_all (\<lambda>(k, spec). k \<noteq> [] \<and> plain k \<and> list_all plain (Enum spec)) s"

lemma digit_not_separator: "is_digit c \<Longrightarrow> \<not> separator c"
  by (auto simp: is_digit_def separator_def)

lemma digits_plain: "list_all is_digit s \<Longrightarrow> plain s"
  by (auto simp: plain_def list_all_iff digit_not_separator)

lemma ParseInt_plain: "ParseInt s n = Some i \<Longrightarrow> plain s"
proof (cases "s \<noteq> [] \<and> (hd s = CHR ''-'' \<or> hd s = CHR ''+'')")
  case True
  moreover assume "ParseInt s n = Some i"
  ultimately have "plain (tl s)"
    by (simp add: ParseInt_def Let_def digits_plain split: if_splits)
  moreover have "\<not> separator (hd s)" using True by (auto simp: separator_def)
  ultimately show ?thesis using True by (cases s) (auto simp: plain_def)
next
  case False
  moreover assume "ParseInt s n = Some i"
  ultimately show ?thesis by (auto simp: ParseInt_def Let_def digits_plain split: if_splits)
qed

lemma size_plain: "MatchString sizeRE s \<Longrightarrow> plain s"
proof -
  assume "MatchString sizeRE s"
  then obtain u v where s: "s = u @ v" and u: "list_all is_digit u"
    and v: "v = [] \<or> (\<exists>c \<in> set ''KMGT''. v = [c])"
    by (auto simp: MatchString_iff sizeRE_def AtLeastOne_Class_iff Optional_iff)
  have "plain v" using v by (auto simp: plain_def separator_def)
  then show ?thesis using s digits_plain [OF u] by (simp add: plain_def)
qed

lemma checkSchema_plain:
  assumes "plain_schema (schema p)" and "checkSchema p k v = Inr ()"
  shows "k \<noteq> [] \<and> plain k \<and> plain v"
proof -
  obtain spec where spec: "map_of (schema p) k = Some spec"
    using assms(2) by (auto simp: checkSchema_def split: option.splits)
  then have k: "k \<noteq> [] \<and> plain k \<and> list_all plain (Enum spec)"
    using assms(1) map_of_SomeD by (fastforce simp: plain_schema_def list_all_iff)
  have "plain v"
  proof (cases "Kind spec")
    case ValueDuration
    then show ?thesis using assms(2) spec
      by (auto simp: checkSchema_def ParseUint_def digits_plain split: option.splits if_splits)
  next
    case ValueInt
    then show ?thesis using assms(2) spec
      by (auto simp: checkSchema_def ParseInt_plain split: option.splits)
  next
    case ValueSize
    then show ?thesis using assms(2) spec
      by (auto simp: checkSchema_def size_plain split: if_splits)
  next
    case ValueEnum
    then show ?thesis using assms(2) spec k
      by (auto simp: checkSchema_def list_all_iff split: if_splits)
  qed (use assms(2) spec in \<open>auto simp: checkSchema_def plain_def separator_def split: if_splits\<close>)
  then show ?thesis using k by simp
qed

section \<open>What the driver relies on of a backend's tables\<close>

locale backend_contract =
  fixes schema_of :: option_schema
    and modes :: "string list"
    and default_mode :: string
    and default_options :: "string gomap"
    and default_denylist :: "string list"
  assumes schema_keys: "wf_map schema_of"
    and schema_plain: "plain_schema schema_of"
    and default_mode_known: "default_mode \<in> set modes"
    and writable_known: "''RW'' \<in> set modes"
    and modes_plain: "list_all plain modes"
    and defaults_wf: "wf_map default_options"
    and defaults_ok: "list_all (\<lambda>(k, v). checkSchema (NewPolicy schema_of c) k v = Inr ()) default_options"
    and denylist_known: "set default_denylist \<subseteq> set (map fst schema_of)"
begin

text \<open>The configuration \<open>main\<close> builds when the administrator sets no option flag.\<close>

definition default_config :: policy_config where
  "default_config = \<lparr>Allowlist = [], Denylist = default_denylist, DenylistMode = DenylistRefuse,
     Defaults = default_options, Forced = []\<rparr>"

abbreviation default_policy :: policy where
  "default_policy \<equiv> NewPolicy schema_of default_config"

lemma default_policy_valid: "Validate default_policy = Inr ()"
  using defaults_ok by (simp add: Validate_iff schema_ok_def NewPolicy_def default_config_def)

lemma resolved_plain:
  assumes "schema p = schema_of" and "Validate p = Inr ()" and "Resolve p opts = Inr r"
  shows "list_all (\<lambda>(k, v). k \<noteq> [] \<and> plain k \<and> plain v) r"
proof -
  have ps: "plain_schema (schema p)" using assms(1) schema_plain by simp
  have "schema_ok p r" using assms(2,3) by (rule Resolve_schema_ok)
  then have "checkSchema p k v = Inr ()" if "(k, v) \<in> set r" for k v
    using that by (auto simp: schema_ok_def list_all_iff)
  then show ?thesis using checkSchema_plain [OF ps] by (auto simp: list_all_iff)
qed

lemma default_denied:
  assumes "k \<in> set default_denylist" and "k \<in> fst ` set opts"
  shows "\<exists>e. Resolve default_policy opts = Inl e"
proof -
  have "denied default_policy k"
    using assms(1) by (auto simp: denied_def NewPolicy_def default_config_def list_ex_iff)
  moreover obtain v where "(k, v) \<in> set opts" using assms(2) by force
  ultimately have "\<not> list_all (entry_ok default_policy) opts"
    by (auto simp: list_all_iff entry_ok_def NewPolicy_def default_config_def DenylistRefuse_def
        DenylistStrip_def intro!: bexI [of _ "(k, v)"])
  then show ?thesis by (metis Resolve_Inr_iff sum.exhaust)
qed

end

end
