(* ===== verification/GoPath.thy ===== *)
theory GoPath
  imports Prelude
begin

text \<open>
  The functions of Go's \<open>path/filepath\<close> on Unix that the driver calls: \<open>IsAbs\<close>, \<open>Clean\<close>,
  \<open>Join\<close>, \<open>Dir\<close>, \<open>Base\<close> and \<open>Rel\<close>. A path is a byte string; cleaning works on its elements, the
  pieces between slashes. The lemmas say that a cleaned absolute path is exactly a list of proper
  elements, so that questions on path strings become questions on lists.
\<close>

section \<open>Operations\<close>

abbreviation slash :: char where "slash \<equiv> CHR ''/''"

definition filepath_IsAbs :: "string \<Rightarrow> bool" where
  "filepath_IsAbs p = (case p of [] \<Rightarrow> False | c # _ \<Rightarrow> c = slash)"

text \<open>One element of the input against the elements kept so far, the last one first: a dot or an
  empty element is dropped, a double dot takes one proper element back, and at the front stays
  only in a relative path.\<close>

definition clean_step :: "bool \<Rightarrow> string list \<Rightarrow> string \<Rightarrow> string list" where
  "clean_step rooted kept e =
     (if e = [] \<or> e = ''.'' then kept
      else if e = ''..'' then
        (case kept of
           [] \<Rightarrow> (if rooted then [] else [''..''])
         | k # ks \<Rightarrow> if k = ''..'' then ''..'' # kept else ks)
      else e # kept)"

definition clean_elems :: "bool \<Rightarrow> string list \<Rightarrow> string list" where
  "clean_elems rooted es = rev (foldl (clean_step rooted) [] es)"

definition join_slash :: "string list \<Rightarrow> string" where
  "join_slash es = join_with [slash] es"

definition render :: "string list \<Rightarrow> string" where
  "render es = slash # join_slash es"

definition filepath_Clean :: "string \<Rightarrow> string" where
  "filepath_Clean p =
     (if filepath_IsAbs p then render (clean_elems True (split_on slash p))
      else (case clean_elems False (split_on slash p) of
              [] \<Rightarrow> ''.''
            | e # es \<Rightarrow> join_slash (e # es)))"

text \<open>\<open>Join\<close> drops leading empty arguments, joins the rest with slashes and cleans the result.\<close>

definition filepath_Join :: "string list \<Rightarrow> string" where
  "filepath_Join parts =
     (case dropWhile (\<lambda>p. p = []) parts of
        [] \<Rightarrow> []
      | q # qs \<Rightarrow> filepath_Clean (join_slash (q # qs)))"

definition filepath_Dir :: "string \<Rightarrow> string" where
  "filepath_Dir p = filepath_Clean (rev (dropWhile (\<lambda>c. c \<noteq> slash) (rev p)))"

definition filepath_Base :: "string \<Rightarrow> string" where
  "filepath_Base p =
     (if p = [] then ''.''
      else let q = rev (takeWhile (\<lambda>c. c \<noteq> slash) (dropWhile (\<lambda>c. c = slash) (rev p)))
           in if q = [] then [slash] else q)"

text \<open>\<open>Rel\<close> compares the cleaned paths element by element; it fails when one is rooted and the
  other is not, or when the way from the base would need to undo a double dot.\<close>

fun drop_common :: "string list \<Rightarrow> string list \<Rightarrow> string list \<times> string list" where
  "drop_common (b # bs) (t # ts) = (if b = t then drop_common bs ts else (b # bs, t # ts))"
| "drop_common bs ts = (bs, ts)"

definition filepath_Rel :: "string \<Rightarrow> string \<Rightarrow> string option" where
  "filepath_Rel base targ =
     (let b = filepath_Clean base; t = filepath_Clean targ in
      if b = t then Some ''.''
      else if filepath_IsAbs b \<noteq> filepath_IsAbs t then None
      else (case drop_common (clean_elems (filepath_IsAbs b) (split_on slash b))
                             (clean_elems (filepath_IsAbs t) (split_on slash t)) of
              (bs, ts) \<Rightarrow>
                if bs \<noteq> [] \<and> hd bs = ''..'' then None
                else Some (join_slash (map (\<lambda>_. ''..'') bs @ ts))))"

section \<open>Elements of cleaned absolute paths\<close>

definition proper :: "string \<Rightarrow> bool" where
  "proper e \<longleftrightarrow> e \<noteq> [] \<and> e \<noteq> ''.'' \<and> e \<noteq> ''..'' \<and> slash \<notin> set e"

abbreviation propers :: "string list \<Rightarrow> bool" where
  "propers es \<equiv> list_all proper es"

text \<open>The elements an absolute path string stands for.\<close>

definition elems :: "string \<Rightarrow> string list" where
  "elems p = clean_elems True (split_on slash p)"

definition abs_clean :: "string \<Rightarrow> bool" where
  "abs_clean p \<longleftrightarrow> filepath_IsAbs p \<and> filepath_Clean p = p"

lemma IsAbs_Cons [simp]: "filepath_IsAbs (c # s) \<longleftrightarrow> c = slash"
  by (simp add: filepath_IsAbs_def)

lemma IsAbs_Nil [simp]: "\<not> filepath_IsAbs []"
  by (simp add: filepath_IsAbs_def)

lemma IsAbs_render [simp]: "filepath_IsAbs (render es)"
  by (simp add: render_def)

lemma IsAbs_append [simp]: "filepath_IsAbs p \<Longrightarrow> filepath_IsAbs (p @ q)"
  by (cases p) auto

lemma clean_step_True_proper:
  "slash \<notin> set e \<Longrightarrow> propers kept \<Longrightarrow> propers (clean_step True kept e)"
  by (auto simp: clean_step_def proper_def split: list.splits)

lemma foldl_clean_propers:
  "\<forall>e \<in> set es. slash \<notin> set e \<Longrightarrow> propers kept \<Longrightarrow> propers (foldl (clean_step True) kept es)"
  by (induction es arbitrary: kept) (auto simp: clean_step_True_proper)

lemma propers_elems [simp]: "propers (elems p)"
  using foldl_clean_propers [of "split_on slash p" "[]"]
  by (auto simp: elems_def clean_elems_def split_on_pieces)

lemma foldl_clean_step_propers:
  "propers es \<Longrightarrow> foldl (clean_step r) kept es = rev es @ kept"
  by (induction es arbitrary: kept) (auto simp: clean_step_def proper_def)

lemma split_render: "propers es \<Longrightarrow> split_on slash (render es) = (if es = [] then [[], []] else [] # es)"
  by (auto simp: render_def join_slash_def list_all_iff proper_def split_join_with)

lemma elems_render [simp]: "propers es \<Longrightarrow> elems (render es) = es"
  by (simp add: elems_def clean_elems_def split_render clean_step_def foldl_clean_step_propers)

lemma Clean_abs: "filepath_IsAbs p \<Longrightarrow> filepath_Clean p = render (elems p)"
  by (simp add: filepath_Clean_def elems_def)

lemma Clean_render [simp]: "propers es \<Longrightarrow> filepath_Clean (render es) = render es"
  by (simp add: Clean_abs)

lemma render_inject [simp]: "propers es \<Longrightarrow> propers fs \<Longrightarrow> render es = render fs \<longleftrightarrow> es = fs"
  by (metis elems_render)

lemma abs_clean_render [simp]: "propers es \<Longrightarrow> abs_clean (render es)"
  by (simp add: abs_clean_def)

lemma abs_cleanD: "abs_clean p \<Longrightarrow> p = render (elems p)"
  by (metis abs_clean_def Clean_abs)

lemma abs_clean_Clean [simp]: "filepath_IsAbs p \<Longrightarrow> abs_clean (filepath_Clean p)"
  by (simp add: Clean_abs)

lemma elems_Clean [simp]: "filepath_IsAbs p \<Longrightarrow> elems (filepath_Clean p) = elems p"
  by (simp add: Clean_abs)

text \<open>Concatenation with a slash appends the elements.\<close>

definition extend :: "string list \<Rightarrow> string list \<Rightarrow> string list" where
  "extend base es = rev (foldl (clean_step True) (rev base) es)"

lemma elems_append_slash: "elems (p @ slash # q) = extend (elems p) (split_on slash q)"
  by (simp add: elems_def clean_elems_def extend_def split_on_append_sep)

lemma extend_propers [simp]: "propers es \<Longrightarrow> extend base es = base @ es"
  by (simp add: extend_def foldl_clean_step_propers)

lemma extend_Nil [simp]: "extend base [] = base"
  by (simp add: extend_def)

lemma propers_extend: "propers base \<Longrightarrow> \<forall>e \<in> set es. slash \<notin> set e \<Longrightarrow> propers (extend base es)"
  using foldl_clean_propers [of es "rev base"] by (simp add: extend_def)

section \<open>A cleaned path is never empty\<close>

lemma foldl_clean_no_empty:
  "[] \<notin> set kept \<Longrightarrow> [] \<notin> set (foldl (clean_step r) kept es)"
proof (induction es arbitrary: kept)
  case (Cons e es)
  have "[] \<notin> set (clean_step r kept e)"
    using Cons.prems by (auto simp: clean_step_def split: list.splits)
  then show ?case using Cons.IH by simp
qed simp

lemma join_slash_not_Nil: "e \<noteq> [] \<Longrightarrow> join_slash (e # es) \<noteq> []"
  by (cases es) (simp_all add: join_slash_def)

lemma Clean_not_Nil [simp]: "filepath_Clean p \<noteq> []"
proof (cases "filepath_IsAbs p")
  case False
  have "[] \<notin> set (clean_elems False (split_on slash p))"
    using foldl_clean_no_empty [of "[]"] by (simp add: clean_elems_def)
  then show ?thesis
    using False by (auto simp: filepath_Clean_def join_slash_not_Nil split: list.splits)
qed (simp add: Clean_abs render_def)

lemma Join_not_Nil: "\<exists>p \<in> set ps. p \<noteq> [] \<Longrightarrow> filepath_Join ps \<noteq> []"
  by (auto simp: filepath_Join_def dropWhile_eq_Nil_conv split: list.split)

section \<open>Joining below an absolute directory\<close>

lemma Join_abs2:
  assumes "filepath_IsAbs d"
  shows "filepath_Join [d, q] = render (extend (elems d) (split_on slash q))"
proof -
  have "d \<noteq> []" using assms by auto
  then have "filepath_Join [d, q] = filepath_Clean (d @ slash # q)"
    by (simp add: filepath_Join_def join_slash_def)
  also have "\<dots> = render (elems (d @ slash # q))" using assms by (simp add: Clean_abs)
  finally show ?thesis by (simp add: elems_append_slash)
qed

lemma Join_abs_render [simp]:
  assumes "filepath_IsAbs d" and "propers es"
  shows "filepath_Join [d, render es] = render (elems d @ es)"
proof -
  have "extend (elems d) (split_on slash (render es)) = elems d @ es"
    using assms(2)
    by (auto simp: split_render extend_def clean_step_def foldl_clean_step_propers)
  then show ?thesis using assms(1) by (simp add: Join_abs2)
qed

lemma Join_abs_proper [simp]:
  assumes "filepath_IsAbs d" and "proper e"
  shows "filepath_Join [d, e] = render (elems d @ [e])"
proof -
  have "split_on slash e = [e]" using assms(2) by (auto simp: proper_def split_on_no_sep)
  then show ?thesis using assms by (simp add: Join_abs2)
qed

lemma Join_abs_propers:
  assumes "filepath_IsAbs d" and "propers es"
  shows "filepath_Join (d # es) = render (elems d @ es)"
proof (cases es)
  case Nil
  have "d \<noteq> []" using assms by auto
  then show ?thesis using Nil assms by (simp add: filepath_Join_def join_slash_def Clean_abs)
next
  case (Cons e es')
  have d: "d \<noteq> []" using assms by auto
  have sp: "split_on slash (join_slash es) = es"
    using assms(2) Cons by (auto simp: join_slash_def list_all_iff proper_def split_join_with)
  have "filepath_Join (d # es) = filepath_Clean (d @ slash # join_slash es)"
    using d Cons by (simp add: filepath_Join_def join_slash_def)
  also have "\<dots> = render (extend (elems d) es)"
    using assms(1) by (simp add: Clean_abs elems_append_slash sp)
  finally show ?thesis using assms(2) by simp
qed

lemma Join_root [simp]: "filepath_Join [''/'', q] = render (extend [] (split_on slash q))"
proof -
  have "elems ''/'' = []" by (simp add: elems_def clean_elems_def clean_step_def)
  then show ?thesis by (simp add: Join_abs2)
qed

section \<open>Directory containment on strings and on elements\<close>

lemma join_slash_append:
  "xs \<noteq> [] \<Longrightarrow> ys \<noteq> [] \<Longrightarrow> join_slash (xs @ ys) = join_slash xs @ slash # join_slash ys"
proof (induction xs)
  case (Cons x xs)
  then show ?case by (cases "xs = []") (auto simp: join_slash_def join_with_Cons)
qed simp

lemma render_append:
  "xs \<noteq> [] \<Longrightarrow> ys \<noteq> [] \<Longrightarrow> render (xs @ ys) = render xs @ slash # join_slash ys"
  by (simp add: render_def join_slash_append)

text \<open>For a directory other than the root: string prefix up to a slash is prefix on elements.\<close>

lemma prefix_render_iff:
  assumes "propers ps" and "propers ds" and "ds \<noteq> []"
  shows "(render ps = render ds \<or> prefix (render ds @ [slash]) (render ps)) \<longleftrightarrow> prefix ds ps"
proof
  assume "render ps = render ds \<or> prefix (render ds @ [slash]) (render ps)"
  then show "prefix ds ps"
  proof
    assume "prefix (render ds @ [slash]) (render ps)"
    then obtain z where z: "render ps = render ds @ slash # z" by (auto simp: prefix_def)
    have "split_on slash (render ps) = split_on slash (render ds) @ split_on slash z"
      by (simp add: z split_on_append_sep)
    then show ?thesis using assms
      by (auto simp: split_render prefix_def Cons_eq_append_conv split: if_splits)
  qed (use assms in simp)
next
  assume "prefix ds ps"
  then obtain zs where zs: "ps = ds @ zs" by (auto simp: prefix_def)
  show "render ps = render ds \<or> prefix (render ds @ [slash]) (render ps)"
  proof (cases "zs = []")
    case False
    then have "render ps = (render ds @ [slash]) @ join_slash zs"
      using assms(3) zs by (simp add: render_append)
    then show ?thesis by (metis prefixI)
  qed (use zs in simp)
qed

lemma drop_common_append [simp]: "drop_common bs (bs @ ts) = ([], ts)"
  by (induction bs) auto

section \<open>The parent directory\<close>

lemma join_slash_one [simp]: "join_slash [b] = b"
  by (simp add: join_slash_def)

lemma render_snoc: "render (bs @ [b]) = (if bs = [] then [] else render bs) @ slash # b"
  by (cases "bs = []") (simp_all add: render_append, simp add: render_def)

lemma Dir_after_slash:
  assumes "slash \<notin> set b"
  shows "filepath_Dir (d @ slash # b) = filepath_Clean (d @ [slash])"
proof -
  have "dropWhile (\<lambda>c. c \<noteq> slash) (rev b @ slash # rev d) = slash # rev d"
    using assms by (subst dropWhile_append2) auto
  then show ?thesis by (simp add: filepath_Dir_def)
qed

lemma Dir_render [simp]:
  assumes "propers cs"
  shows "filepath_Dir (render cs) = render (butlast cs)"
proof (cases cs rule: rev_cases)
  case Nil
  then show ?thesis by (simp add: filepath_Dir_def render_def join_slash_def filepath_Clean_def
        clean_elems_def clean_step_def)
next
  case (snoc bs b)
  then have b: "slash \<notin> set b" and bs: "propers bs" using assms by (auto simp: proper_def)
  let ?d = "if bs = [] then [] else render bs"
  have "filepath_Dir (render cs) = filepath_Clean (?d @ [slash])"
    using Dir_after_slash [OF b, of ?d] snoc by (simp add: render_snoc)
  also have "\<dots> = render bs"
  proof (cases "bs = []")
    case True
    then show ?thesis by (simp add: filepath_Clean_def render_def clean_elems_def clean_step_def)
  next
    case False
    have "filepath_Clean (render bs @ [slash]) = render (elems (render bs @ [slash]))"
      by (rule Clean_abs) simp
    also have "elems (render bs @ [slash]) = extend (elems (render bs)) [[]]"
      using elems_append_slash [of "render bs" "[]"] by simp
    finally show ?thesis using False bs by (simp add: extend_def clean_step_def)
  qed
  finally show ?thesis using snoc by simp
qed

lemma Base_render_snoc [simp]:
  assumes "proper b"
  shows "filepath_Base (render (bs @ [b])) = b"
proof -
  have b: "slash \<notin> set b" "b \<noteq> []" using assms by (auto simp: proper_def)
  let ?d = "if bs = [] then [] else render bs"
  obtain x xs where x: "rev b = x # xs" using b by (cases "rev b") auto
  then have "x \<in> set b" by (metis list.set_intros(1) set_rev)
  then have "x \<noteq> slash" using b by auto
  with x have "dropWhile (\<lambda>c. c = slash) (rev (?d @ slash # b)) = rev (?d @ slash # b)" by simp
  moreover have "takeWhile (\<lambda>c. c \<noteq> slash) (rev b @ slash # rev ?d) = rev b"
    using b by (subst takeWhile_append2) auto
  ultimately show ?thesis using b by (simp add: filepath_Base_def render_snoc Let_def)
qed

lemma elems_root [simp]: "elems ''/'' = []"
  by (simp add: elems_def clean_elems_def clean_step_def)

lemma render_Nil [simp]: "render [] = ''/''"
  by (simp add: render_def join_slash_def)

lemma render_eq_root [simp]: "propers es \<Longrightarrow> render es = ''/'' \<longleftrightarrow> es = []"
  by (metis elems_render elems_root render_Nil)

lemma proper_piece: "c \<in> set (split_on slash s) \<Longrightarrow> c \<noteq> [] \<Longrightarrow> c \<noteq> ''.'' \<Longrightarrow> c \<noteq> ''..'' \<Longrightarrow> proper c"
  using split_on_pieces by (force simp: proper_def)

section \<open>Joining any parts below an absolute directory\<close>

lemma split_join_slash:
  "es \<noteq> [] \<Longrightarrow> split_on slash (join_slash es) = concat (map (split_on slash) es)"
proof (induction es)
  case (Cons e es)
  then show ?case
    by (cases es) (simp_all add: join_slash_def split_on_append_sep)
qed simp

lemma Join_abs:
  assumes "filepath_IsAbs d"
  shows "filepath_Join (d # es) = render (extend (elems d) (concat (map (split_on slash) es)))"
proof (cases es)
  case Nil
  then show ?thesis using assms by (cases d) (auto simp: filepath_Join_def Clean_abs join_slash_def)
next
  case (Cons e es')
  have j: "join_slash (d # es) = d @ slash # join_slash es"
    using Cons by (simp add: join_slash_def)
  have "filepath_Join (d # es) = filepath_Clean (join_slash (d # es))"
    using assms by (cases d) (auto simp: filepath_Join_def)
  also have "\<dots> = render (elems (d @ slash # join_slash es))"
    using assms by (simp add: j Clean_abs)
  finally show ?thesis using Cons by (simp add: elems_append_slash split_join_slash)
qed

lemma IsAbs_Join [simp]: "filepath_IsAbs d \<Longrightarrow> filepath_IsAbs (filepath_Join (d # es))"
  by (simp add: Join_abs)

lemma propers_extend_pieces:
  "propers base \<Longrightarrow> propers (extend base (concat (map (split_on slash) es)))"
  by (rule propers_extend) (auto simp: split_on_pieces)

lemma elems_Join [simp]:
  "filepath_IsAbs d \<Longrightarrow> elems (filepath_Join (d # es)) = extend (elems d) (concat (map (split_on slash) es))"
  by (simp add: Join_abs propers_extend_pieces)

lemma render_elems_Join:
  "filepath_IsAbs d \<Longrightarrow> render (elems (filepath_Join (d # es))) = filepath_Join (d # es)"
  by (simp add: Join_abs propers_extend_pieces)

lemma extend_append: "extend base (es @ fs) = extend (extend base es) fs"
  by (simp add: extend_def)

lemma Join_snoc_proper:
  assumes "filepath_IsAbs d" and "proper e"
  shows "elems (filepath_Join (d # es @ [e])) = elems (filepath_Join (d # es)) @ [e]"
  using assms by (simp add: extend_append split_on_no_sep proper_def)

end
