(* ===== verification/Overlay.thy ===== *)
theory Overlay
  imports Policy GoPath
begin

text \<open>
  Package \<open>pkg/backend/overlay\<close>, the part that makes no system call: the tables of
  \<open>overlay.go\<close>, the layout of a mount (\<open>layout.go\<close>) and the escaping of the classic option string
  (\<open>mount_linux.go\<close>).
\<close>

section \<open>Tables\<close>

definition modeRW :: string where "modeRW = ''RW''"
definition modeRO :: string where "modeRO = ''RO''"

definition overlay_Schema :: option_schema where
  "overlay_Schema =
    [(''default_permissions'', kind_spec ValueFlag),
     (''redirect_dir'', enum_spec [''nofollow'', ''off'', ''follow'']),
     (''index'', enum_spec [''off'']),
     (''xino'', enum_spec [''off'', ''auto'', ''on'']),
     (''uuid'', enum_spec [''auto'', ''null'', ''off'', ''on'']),
     (''verity'', enum_spec [''off'', ''on'', ''require'']),
     (''metacopy'', enum_spec [''on'', ''off'']),
     (''userxattr'', kind_spec ValueFlag),
     (''nfs_export'', enum_spec [''on'', ''off''])]"

definition overlay_DefaultOptions :: "string gomap" where
  "overlay_DefaultOptions =
    [(''index'', ''off''), (''metacopy'', ''off''), (''xino'', ''off''),
     (''redirect_dir'', ''nofollow'')]"

definition overlay_DefaultDenylist :: "string list" where
  "overlay_DefaultDenylist = [''metacopy'', ''userxattr'', ''nfs_export'']"

definition overlay_SourceModes :: "string list \<times> string" where
  "overlay_SourceModes = ([modeRW, modeRO], modeRW)"

definition overlay_MaxWritable :: nat where
  "overlay_MaxWritable = 1"

interpretation overlay_tables: backend_contract overlay_Schema "fst overlay_SourceModes"
  "snd overlay_SourceModes" overlay_DefaultOptions overlay_DefaultDenylist
  by unfold_locales
    (simp_all add: overlay_Schema_def overlay_SourceModes_def overlay_DefaultOptions_def
      overlay_DefaultDenylist_def modeRW_def modeRO_def plain_schema_def plain_def separator_def
      spec_literals checkSchema_def NewPolicy_def)

section \<open>Layout\<close>

definition workspaceDir :: string where "workspaceDir = ''.union-csi''"
definition upperName :: string where "upperName = ''upper''"
definition workName :: string where "workName = ''work''"

record layout =
  lowers :: "string list"
  rwRoot :: string
  upper :: string
  work :: string
  readOnly :: bool
  options :: "string gomap"

datatype layout_error =
    NoSourceVolumes
  | MoreThanOneRW
  | RWNotFirst
  | UnknownSourceMode string

text \<open>The loop of \<open>planLayout\<close>, from source \<open>i\<close> on.\<close>

fun plan_sources :: "nat \<Rightarrow> source list \<Rightarrow> layout \<Rightarrow> layout_error + layout" where
  "plan_sources i [] l = Inr l"
| "plan_sources i (s # ss) l =
     (if src_Mode s = modeRW then
        (if upper l \<noteq> [] then Inl MoreThanOneRW
         else if i \<noteq> 0 then Inl RWNotFirst
         else plan_sources (Suc i) ss
                (l\<lparr>rwRoot := src_Path s,
                   upper := filepath_Join [src_Path s, workspaceDir, upperName],
                   work := filepath_Join [src_Path s, workspaceDir, workName]\<rparr>))
      else if src_Mode s = modeRO then
        plan_sources (Suc i) ss (l\<lparr>lowers := lowers l @ [src_Path s]\<rparr>)
      else Inl (UnknownSourceMode (src_Mode s)))"

definition planLayout :: "mount_spec \<Rightarrow> layout_error + layout" where
  "planLayout spec =
     (if Sources spec = [] then Inl NoSourceVolumes
      else (case plan_sources 0 (Sources spec)
                   \<lparr>lowers = [], rwRoot = [], upper = [], work = [], readOnly = False,
                    options = Options spec\<rparr> of
              Inl e \<Rightarrow> Inl e
            | Inr l \<Rightarrow> Inr (l\<lparr>readOnly := ReadOnly spec \<or> upper l = []\<rparr>)))"

definition single :: "layout \<Rightarrow> string" where
  "single l =
     (if lowers l = [] then upper l
      else if length (lowers l) = 1 \<and> upper l = [] then lowers l ! 0
      else [])"

definition sortedOptions :: "layout \<Rightarrow> string list" where
  "sortedOptions l = sort (map fst (options l))"

section \<open>The classic option string\<close>

definition backslash :: char where "backslash = CHR 0x5C"

text \<open>The replacer works on single bytes, so its rules never overlap.\<close>

definition escapeOptionValue :: "string \<Rightarrow> string" where
  "escapeOptionValue s =
     concat (map (\<lambda>c. if c = backslash \<or> c = CHR '':'' \<or> c = CHR '','' then [backslash, c] else [c]) s)"

definition option_fields :: "option_schema \<Rightarrow> layout \<Rightarrow> string list" where
  "option_fields sch l =
     map (\<lambda>k. if (case map_of sch k of None \<Rightarrow> ValueFlag | Some spec \<Rightarrow> Kind spec) = ValueFlag then k
              else k @ ''='' @ map_index (options l) k)
       (sortedOptions l)"

definition classic_options :: "layout \<Rightarrow> option_schema \<Rightarrow> string" where
  "classic_options l sch =
     join_with '',''
       ([''lowerdir='' @ join_with '':'' (map escapeOptionValue (lowers l))] @
        (if upper l \<noteq> []
         then [''upperdir='' @ escapeOptionValue (upper l), ''workdir='' @ escapeOptionValue (work l)]
         else []) @
        option_fields sch l)"

section \<open>Properties of the layout\<close>

lemma mode_distinct [simp]: "modeRW \<noteq> modeRO" "modeRO \<noteq> modeRW"
  by (simp_all add: modeRW_def modeRO_def)

lemma workspace_names [simp]: "workspaceDir \<noteq> []" "upperName \<noteq> []" "workName \<noteq> []"
  by (simp_all add: workspaceDir_def upperName_def workName_def)

lemma upper_not_Nil [simp]: "filepath_Join [p, workspaceDir, n] \<noteq> []"
  by (rule Join_not_Nil) simp

text \<open>Past the first source only read-only ones are left to take.\<close>

lemma plan_sources_tail:
  "i \<noteq> 0 \<Longrightarrow> plan_sources i ss l = Inr l' \<longleftrightarrow>
     list_all (\<lambda>s. src_Mode s = modeRO) ss \<and> l' = l\<lparr>lowers := lowers l @ map src_Path ss\<rparr>"
  by (induction i ss l rule: plan_sources.induct) auto

lemma plan_sources_tail_error:
  "plan_sources (Suc i) ss l = Inl e \<Longrightarrow>
     \<exists>s \<in> set ss. src_Mode s \<noteq> modeRO \<and>
       e = (if src_Mode s \<noteq> modeRW then UnknownSourceMode (src_Mode s)
            else if upper l \<noteq> [] then MoreThanOneRW else RWNotFirst)"
  by (induction ss arbitrary: i l) (fastforce split: if_splits)+

text \<open>The geometry a request has to have, written down without the loop.\<close>

definition reference_layout :: "mount_spec \<Rightarrow> layout option" where
  "reference_layout spec =
     (case Sources spec of
        [] \<Rightarrow> None
      | s # ss \<Rightarrow>
          if \<not> list_all (\<lambda>t. src_Mode t = modeRO) ss then None
          else if src_Mode s = modeRW then
            Some \<lparr>lowers = map src_Path ss, rwRoot = src_Path s,
                  upper = filepath_Join [src_Path s, workspaceDir, upperName],
                  work = filepath_Join [src_Path s, workspaceDir, workName],
                  readOnly = ReadOnly spec, options = Options spec\<rparr>
          else if src_Mode s = modeRO then
            Some \<lparr>lowers = map src_Path (s # ss), rwRoot = [], upper = [], work = [],
                  readOnly = True, options = Options spec\<rparr>
          else None)"

text \<open>C24: \<open>planLayout\<close> accepts exactly the requests whose first source is writable or read-only and
  whose others are all read-only; the layout it returns has the writable source's workspace as the
  single upper layer, the read-only sources as lower layers in the order given, and is read-only
  when the request asks for it or nothing is writable.\<close>

theorem planLayout_reference:
  "planLayout spec = Inr l \<longleftrightarrow> reference_layout spec = Some l"
  by (cases "Sources spec")
    (auto simp: planLayout_def reference_layout_def plan_sources_tail case_Inr_iff split: if_splits)

lemma planLayout_modes:
  assumes "planLayout spec = Inl e" and "Sources spec \<noteq> []"
    and "list_all (\<lambda>s. src_Mode s \<in> {modeRW, modeRO}) (Sources spec)"
    and "length (filter (\<lambda>s. src_Mode s = modeRW) (Sources spec)) \<le> 1"
  shows "e = RWNotFirst"
proof -
  obtain s ss where S: "Sources spec = s # ss" using assms(2) by (cases "Sources spec") auto
  show ?thesis
  proof (cases "src_Mode s = modeRW")
    case True
    then have "\<forall>t \<in> set ss. src_Mode t = modeRO"
      using assms(3,4) S by (auto simp: list_all_iff filter_empty_conv)
    then show ?thesis using assms(1) True S
      by (auto simp: planLayout_def dest!: plan_sources_tail_error split: sum.splits)
  next
    case False
    then have "src_Mode s = modeRO" using assms(3) S by simp
    then show ?thesis using assms(1,3) S
      by (auto simp: planLayout_def list_all_iff dest!: plan_sources_tail_error split: sum.splits)
  qed
qed

text \<open>A bind mount replaces the overlay exactly when there is one branch in all: otherwise an
  overlay mount is made, and then it has an upper and a lower layer or at least two lower layers,
  the shapes every kernel accepts.\<close>

theorem single_iff_one_branch:
  assumes "planLayout spec = Inr l" and "list_all (\<lambda>s. src_Path s \<noteq> []) (Sources spec)"
  shows "(single l \<noteq> [] \<longleftrightarrow> length (Sources spec) = 1) \<and>
     (single l = [] \<longrightarrow> upper l \<noteq> [] \<and> lowers l \<noteq> [] \<or> 2 \<le> length (lowers l))"
proof (rule conjI)
  obtain s ss where S: "Sources spec = s # ss" "reference_layout spec = Some l"
    using assms(1) by (cases "Sources spec") (auto simp: planLayout_reference reference_layout_def)
  show "single l \<noteq> [] \<longleftrightarrow> length (Sources spec) = 1"
    using S assms(2)
    by (auto simp: reference_layout_def single_def split: if_splits)
  show "single l = [] \<longrightarrow> upper l \<noteq> [] \<and> lowers l \<noteq> [] \<or> 2 \<le> length (lowers l)"
    using S assms(2)
    by (cases ss) (auto simp: reference_layout_def single_def split: if_splits)
qed

theorem single_iff_one_branch_witness:
  "single \<lparr>lowers = [''/ro''], rwRoot = [], upper = [], work = [], readOnly = True, options = []\<rparr> \<noteq> []"
proof -
  let ?spec = "\<lparr>VolumeID = ''v'', Target = ''/t'', Sources = [\<lparr>src_Path = ''/ro'', src_Mode = modeRO\<rparr>],
     Options = [], ReadOnly = False\<rparr>"
  have p: "planLayout ?spec =
      Inr \<lparr>lowers = [''/ro''], rwRoot = [], upper = [], work = [], readOnly = True, options = []\<rparr>"
    by code_simp
  show ?thesis using single_iff_one_branch [OF p] by simp
qed

section \<open>Reading the classic option string back\<close>

text \<open>How the kernel reads the value of a layer option: a backslash takes the next character
  literally, a bare separator ends a field.\<close>

fun split_escaped :: "char \<Rightarrow> string \<Rightarrow> string list" where
  "split_escaped sep [] = [[]]"
| "split_escaped sep [c] = (if c = sep then [[], []] else [[c]])"
| "split_escaped sep (c # d # s) =
     (if c = sep then [] # split_escaped sep (d # s)
      else if c = backslash then
        (case split_escaped sep s of [] \<Rightarrow> [[d]] | f # fs \<Rightarrow> (d # f) # fs)
      else (case split_escaped sep (d # s) of [] \<Rightarrow> [[c]] | f # fs \<Rightarrow> (c # f) # fs))"

lemma split_escaped_not_Nil [simp]: "split_escaped sep s \<noteq> []"
  by (induction sep s rule: split_escaped.induct) (auto split: list.splits)

lemma split_escaped_bs [simp]:
  "sep \<noteq> backslash \<Longrightarrow> split_escaped sep (backslash # c # s) =
     (c # hd (split_escaped sep s)) # tl (split_escaped sep s)"
  by (cases "split_escaped sep s") auto

lemma split_escaped_plain:
  "c \<noteq> sep \<Longrightarrow> c \<noteq> backslash \<Longrightarrow> split_escaped sep (c # s) =
     (c # hd (split_escaped sep s)) # tl (split_escaped sep s)"
  by (cases s) (auto split: list.splits)

lemma split_escaped_sep: "split_escaped sep (sep # s) = [] # split_escaped sep s"
  by (cases s) auto

lemma escape_Cons:
  "escapeOptionValue (c # s) =
     (if c = backslash \<or> c = CHR '':'' \<or> c = CHR '','' then [backslash, c] else [c]) @ escapeOptionValue s"
  by (simp add: escapeOptionValue_def)

lemma split_escaped_escape_append:
  assumes "sep = CHR '':'' \<or> sep = CHR '',''"
  shows "split_escaped sep (escapeOptionValue d @ s) =
     (d @ hd (split_escaped sep s)) # tl (split_escaped sep s)"
proof (induction d)
  case (Cons c d)
  have sep: "sep \<noteq> backslash" using assms by (auto simp: backslash_def)
  show ?case
  proof (cases "c = backslash \<or> c = CHR '':'' \<or> c = CHR '',''")
    case True
    then show ?thesis using Cons sep by (simp add: escape_Cons)
  next
    case False
    then have "c \<noteq> sep" "c \<noteq> backslash" using assms by auto
    then show ?thesis using Cons False by (simp add: escape_Cons split_escaped_plain)
  qed
qed (simp add: escapeOptionValue_def)

text \<open>Escaping is undone by the kernel's reading: the value of \<open>lowerdir\<close> splits at its bare
  colons into the original layer paths, whatever bytes those contain.\<close>

theorem lowerdir_roundtrip:
  assumes "ds \<noteq> []"
  shows "split_escaped (CHR '':'') (join_with '':'' (map escapeOptionValue ds)) = ds"
  using assms
proof (induction ds)
  case (Cons d ds)
  show ?case
  proof (cases ds)
    case Nil
    then show ?thesis using split_escaped_escape_append [of "CHR '':''" d "[]"] by simp
  next
    case (Cons e es)
    then have "split_escaped (CHR '':'') (join_with '':'' (map escapeOptionValue ds)) = ds"
      using Cons.IH by simp
    then show ?thesis using Cons
      by (simp add: split_escaped_escape_append split_escaped_sep)
  qed
qed simp

theorem lowerdir_roundtrip_witness:
  "split_escaped (CHR '':'') (join_with '':'' (map escapeOptionValue [''/a:b'', ''/c,d''])) = [''/a:b'', ''/c,d'']"
  by (rule lowerdir_roundtrip) simp

end
