(* ===== verification/OverlayMount.thy ===== *)
theory OverlayMount
  imports Overlay "HOL-Library.Word"
begin

text \<open>
  The system calls of \<open>pkg/backend/overlay/mount_linux.go\<close> and \<open>pkg/backend/bind_linux.go\<close>. The
  kernel is a parameter: a function from the calls made so far, with their results, and the next
  call to its result, so that any sequence of successes and failures is covered. The state is the
  log of calls and the cached answer of \<open>fsopenSupported\<close>.
\<close>

section \<open>System calls\<close>

datatype errno = ENOSYS | EEXIST | ELOOP | EINVAL | ENOENT | Errno nat

datatype open_flag = O_RDONLY | O_PATH | O_DIRECTORY | O_CLOEXEC | O_NOFOLLOW

datatype mount_flag = MS_BIND | MS_REC | MS_REMOUNT | MS_RDONLY | MS_NOSUID | MS_NODEV | MS_NOEXEC

text \<open>\<open>Openat2\<close> stands for a call from the working directory with \<open>RESOLVE_NO_SYMLINKS\<close>, the only
  form used; \<open>SysUnmount\<close> is always a detach.\<close>

datatype syscall =
    Openat2 string "open_flag list"
  | Open string "open_flag list"
  | Openat nat string "open_flag list"
  | Mkdirat nat string
  | Close nat
  | Fstatfs nat
  | SysMount string string string "mount_flag list" string
  | SysUnmount string
  | Fsopen
  | FsconfigSetString nat string string
  | FsconfigSetFlag nat string
  | FsconfigCreate nat
  | Fsmount nat bool
  | MoveMount nat string

text \<open>A success carries a descriptor or, for \<open>Fstatfs\<close>, the type of the file system.\<close>

type_synonym answer = "errno + nat"
type_synonym call_log = "(syscall \<times> answer) list"
type_synonym kernel = "call_log \<Rightarrow> syscall \<Rightarrow> answer"

record node =
  calls :: call_log
  fsopen_cache :: "bool option"

definition sys :: "kernel \<Rightarrow> syscall \<Rightarrow> (node, answer) state" where
  "sys K c = State (\<lambda>n. let r = K (calls n) c in (r, n\<lparr>calls := calls n @ [(c, r)]\<rparr>))"

lemma run_sys [simp]:
  "run_state (sys K c) n = (K (calls n) c, n\<lparr>calls := calls n @ [(c, K (calls n) c)]\<rparr>)"
  by (simp add: sys_def Let_def)

section \<open>Errors\<close>

datatype overlay_error =
    LayoutError layout_error
  | OpenFailed string errno
  | StatfsFailed string errno
  | UnsupportedUpper string string
  | CreateFailed string errno
  | IsSymlink string
  | BindFailed string string errno
  | RemountFailed string errno
  | FsopenFailed errno
  | FsconfigFailed string errno
  | FsmountFailed errno
  | MoveMountFailed errno
  | ClassicMountFailed errno
  | UnmountFailed string errno
  | MountOf string overlay_error
  | OverlayBind overlay_error

type_synonym 'a op = "(node, overlay_error, 'a) prog"

text \<open>A call whose only use is its success; the error is wrapped.\<close>

definition sys_check :: "kernel \<Rightarrow> syscall \<Rightarrow> (errno \<Rightarrow> overlay_error) \<Rightarrow> nat op" where
  "sys_check K c wrap =
     do { r \<leftarrow> sys K c; case r of Inl e \<Rightarrow> fail (wrap e) | Inr v \<Rightarrow> ok v }"

definition close_fd :: "kernel \<Rightarrow> nat \<Rightarrow> (node, unit) state" where
  "close_fd K fd = do { _ \<leftarrow> sys K (Close fd); State_Monad.return () }"

section \<open>Bind mounts\<close>

definition BindMount :: "kernel \<Rightarrow> string \<Rightarrow> string \<Rightarrow> bool \<Rightarrow> unit op" where
  "BindMount K src target ro =
     try_do (sys_check K (SysMount src target [] [MS_BIND, MS_REC] []) (BindFailed src target)) (\<lambda>_.
       if \<not> ro then ok ()
       else do {
         r \<leftarrow> sys K (SysMount [] target [] [MS_REMOUNT, MS_BIND, MS_RDONLY] []);
         case r of
           Inr _ \<Rightarrow> ok ()
         | Inl e \<Rightarrow> do { _ \<leftarrow> sys K (SysUnmount target); fail (RemountFailed target e) } })"

section \<open>Layers\<close>

definition fdPath :: "nat \<Rightarrow> string" where
  "fdPath fd = ''/proc/self/fd/'' @ itoa fd"

definition openLayer :: "kernel \<Rightarrow> string \<Rightarrow> open_flag list \<Rightarrow> nat op" where
  "openLayer K dir flags =
     do {
       r \<leftarrow> sys K (Openat2 dir (flags @ [O_DIRECTORY, O_CLOEXEC]));
       r \<leftarrow> (if r = Inl ENOSYS
             then sys K (Open dir (flags @ [O_DIRECTORY, O_NOFOLLOW, O_CLOEXEC]))
             else State_Monad.return r);
       case r of Inl e \<Rightarrow> fail (OpenFailed dir e) | Inr fd \<Rightarrow> ok fd
     }"

text \<open>The type of the file system is narrowed to 32 bits before the lookup.\<close>

definition unsupportedUpperFS :: "(32 word \<times> string) list" where
  "unsupportedUpperFS =
    [(0x6969, ''NFS''), (0x65735546, ''FUSE''), (0x00c36400, ''CephFS''), (0xff534d42, ''CIFS''),
     (0x517b, ''SMB''), (0xfe534d42, ''SMB''), (0x794c7630, ''overlay'')]"

definition checkUpperFS :: "kernel \<Rightarrow> nat \<Rightarrow> string \<Rightarrow> unit op" where
  "checkUpperFS K fd path =
     try_do (sys_check K (Fstatfs fd) (StatfsFailed path)) (\<lambda>typ.
       case map_of unsupportedUpperFS (word_of_nat typ) of
         Some name \<Rightarrow> fail (UnsupportedUpper path name)
       | None \<Rightarrow> ok ())"

definition openDirNoFollow :: "kernel \<Rightarrow> nat \<Rightarrow> string \<Rightarrow> string \<Rightarrow> nat op" where
  "openDirNoFollow K parent parentPath name =
     (let path = filepath_Join [parentPath, name];
          open_child = do {
            r \<leftarrow> sys K (Openat parent name [O_RDONLY, O_DIRECTORY, O_NOFOLLOW, O_CLOEXEC]);
            case r of
              Inr fd \<Rightarrow> ok fd
            | Inl e \<Rightarrow> if e = ELOOP then fail (IsSymlink path) else fail (OpenFailed path e) }
      in do {
        m \<leftarrow> sys K (Mkdirat parent name);
        case m of
          Inl e \<Rightarrow> if e \<noteq> EEXIST then fail (CreateFailed path e) else open_child
        | Inr _ \<Rightarrow> open_child
      })"

section \<open>The workspace of the writable source\<close>

record workspace =
  fds :: "nat list"
  ws_upper :: string
  ws_work :: string

fun close_all :: "kernel \<Rightarrow> nat list \<Rightarrow> (node, unit) state" where
  "close_all K [] = State_Monad.return ()"
| "close_all K (fd # rest) = do { _ \<leftarrow> close_fd K fd; close_all K rest }"

definition ws_close :: "kernel \<Rightarrow> workspace \<Rightarrow> (node, unit) state" where
  "ws_close K ws = close_all K (fds ws)"

text \<open>The loop over the two names; \<open>acc\<close> are the descriptors opened so far.\<close>

fun open_subdirs :: "kernel \<Rightarrow> nat \<Rightarrow> string \<Rightarrow> string list \<Rightarrow> nat list \<Rightarrow> nat list op" where
  "open_subdirs K wsFD parentPath [] acc = ok acc"
| "open_subdirs K wsFD parentPath (name # names) acc =
     do {
       r \<leftarrow> openDirNoFollow K wsFD parentPath name;
       case r of
         Inl e \<Rightarrow> do { _ \<leftarrow> close_all K acc; fail e }
       | Inr fd \<Rightarrow> open_subdirs K wsFD parentPath names (acc @ [fd])
     }"

definition openWorkspace :: "kernel \<Rightarrow> string \<Rightarrow> workspace op" where
  "openWorkspace K root =
     try_do (openLayer K root [O_RDONLY]) (\<lambda>rootFD.
       finally_do
         (try_do (checkUpperFS K rootFD root) (\<lambda>_.
          try_do (openDirNoFollow K rootFD root workspaceDir) (\<lambda>wsFD.
            finally_do
              (try_do (open_subdirs K wsFD (filepath_Join [root, workspaceDir])
                         [upperName, workName] [])
                 (\<lambda>ds. ok \<lparr>fds = ds, ws_upper = fdPath (ds ! 0), ws_work = fdPath (ds ! 1)\<rparr>))
              (close_fd K wsFD))))
         (close_fd K rootFD))"

section \<open>The two mount interfaces\<close>

definition fsopenSupported :: "kernel \<Rightarrow> (node, bool) state" where
  "fsopenSupported K =
     State (\<lambda>n. case fsopen_cache n of
         Some b \<Rightarrow> (b, n)
       | None \<Rightarrow>
           (case run_state (sys K Fsopen) n of
              (Inl _, n') \<Rightarrow> (False, n'\<lparr>fsopen_cache := Some False\<rparr>)
            | (Inr fd, n') \<Rightarrow> (True, (snd (run_state (close_fd K fd) n'))\<lparr>fsopen_cache := Some True\<rparr>)))"

fun set_lowers :: "kernel \<Rightarrow> nat \<Rightarrow> string list \<Rightarrow> unit op" where
  "set_lowers K fd [] = ok ()"
| "set_lowers K fd (dir # dirs) =
     try_do (sys_check K (FsconfigSetString fd ''lowerdir+'' dir) (FsconfigFailed ''lowerdir+''))
       (\<lambda>_. set_lowers K fd dirs)"

fun set_options :: "kernel \<Rightarrow> nat \<Rightarrow> option_schema \<Rightarrow> string gomap \<Rightarrow> string list \<Rightarrow> unit op" where
  "set_options K fd sch opts [] = ok ()"
| "set_options K fd sch opts (k # ks) =
     try_do (sys_check K
         (if (case map_of sch k of None \<Rightarrow> ValueFlag | Some spec \<Rightarrow> Kind spec) = ValueFlag
          then FsconfigSetFlag fd k else FsconfigSetString fd k (map_index opts k))
         (FsconfigFailed k))
       (\<lambda>_. set_options K fd sch opts ks)"

definition mountFsconfig :: "kernel \<Rightarrow> layout \<Rightarrow> string \<Rightarrow> option_schema \<Rightarrow> unit op" where
  "mountFsconfig K l target sch =
     try_do (sys_check K Fsopen FsopenFailed) (\<lambda>fd.
       finally_do
         (try_do (set_lowers K fd (lowers l)) (\<lambda>_.
          try_do (if upper l \<noteq> [] then
                    try_do (sys_check K (FsconfigSetString fd ''upperdir'' (upper l))
                              (FsconfigFailed ''upperdir'')) (\<lambda>_.
                    try_do (sys_check K (FsconfigSetString fd ''workdir'' (work l))
                              (FsconfigFailed ''workdir'')) (\<lambda>_. ok ()))
                  else ok ()) (\<lambda>_.
          try_do (set_options K fd sch (options l) (sortedOptions l)) (\<lambda>_.
          try_do (sys_check K (FsconfigCreate fd) (FsconfigFailed ''create'')) (\<lambda>_.
          try_do (sys_check K (Fsmount fd (readOnly l)) FsmountFailed) (\<lambda>mfd.
            finally_do
              (try_do (sys_check K (MoveMount mfd target) MoveMountFailed) (\<lambda>_. ok ()))
              (close_fd K mfd)))))))
         (close_fd K fd))"

definition mountClassic :: "kernel \<Rightarrow> layout \<Rightarrow> string \<Rightarrow> option_schema \<Rightarrow> unit op" where
  "mountClassic K l target sch =
     try_do (sys_check K
         (SysMount ''overlay'' target ''overlay'' (if readOnly l then [MS_RDONLY] else [])
            (classic_options l sch))
         ClassicMountFailed)
       (\<lambda>_. ok ())"

section \<open>Mounting and unmounting the union\<close>

definition wrap_error :: "(overlay_error \<Rightarrow> overlay_error) \<Rightarrow> 'a op \<Rightarrow> 'a op" where
  "wrap_error w m = do { r \<leftarrow> m; case r of Inl e \<Rightarrow> fail (w e) | Inr x \<Rightarrow> ok x }"

definition bindMount :: "kernel \<Rightarrow> string \<Rightarrow> string \<Rightarrow> bool \<Rightarrow> unit op" where
  "bindMount K src target ro = wrap_error OverlayBind (BindMount K src target ro)"

definition mount_layout :: "kernel \<Rightarrow> option_schema \<Rightarrow> string \<Rightarrow> layout \<Rightarrow> unit op" where
  "mount_layout K sch target l =
     (if single l \<noteq> [] then bindMount K (single l) target (readOnly l)
      else do {
        s \<leftarrow> fsopenSupported K;
        if s then wrap_error (MountOf target) (mountFsconfig K l target sch)
        else wrap_error (MountOf target) (mountClassic K l target sch)
      })"

text \<open>The lower layers are opened one by one and replaced by their descriptor paths; each stays
  open until the mount is done.\<close>

fun with_lowers :: "kernel \<Rightarrow> string list \<Rightarrow> string list \<Rightarrow> (string list \<Rightarrow> unit op) \<Rightarrow> unit op" where
  "with_lowers K [] opened body = body opened"
| "with_lowers K (dir # dirs) opened body =
     try_do (openLayer K dir [O_PATH]) (\<lambda>fd.
       finally_do (with_lowers K dirs (opened @ [fdPath fd]) body) (close_fd K fd))"

definition mountUnion :: "kernel \<Rightarrow> mount_spec \<Rightarrow> option_schema \<Rightarrow> unit op" where
  "mountUnion K spec sch =
     (case planLayout spec of
        Inl e \<Rightarrow> fail (LayoutError e)
      | Inr l \<Rightarrow>
          (if rwRoot l \<noteq> [] then
             try_do (openWorkspace K (rwRoot l)) (\<lambda>ws.
               finally_do
                 (with_lowers K (lowers l) [] (\<lambda>dirs.
                    mount_layout K sch (Target spec)
                      (l\<lparr>upper := ws_upper ws, work := ws_work ws, lowers := dirs\<rparr>)))
                 (ws_close K ws))
           else
             with_lowers K (lowers l) [] (\<lambda>dirs.
               mount_layout K sch (Target spec) (l\<lparr>lowers := dirs\<rparr>))))"

definition unmountUnion :: "kernel \<Rightarrow> string \<Rightarrow> unit op" where
  "unmountUnion K target =
     do {
       r \<leftarrow> sys K (SysUnmount target);
       case r of
         Inr _ \<Rightarrow> ok ()
       | Inl e \<Rightarrow> if e = EINVAL \<or> e = ENOENT then ok () else fail (UnmountFailed target e)
     }"

definition overlayBackend :: "kernel \<Rightarrow> (node, overlay_error) backend" where
  "overlayBackend K =
     \<lparr>Name = ''overlay'', Schema = overlay_Schema, SourceModes = overlay_SourceModes,
      MaxWritable = overlay_MaxWritable, DefaultOptions = overlay_DefaultOptions,
      DefaultDenylist = overlay_DefaultDenylist,
      Mount = (\<lambda>spec. mountUnion K spec overlay_Schema),
      Share = (\<lambda>_ source target ro. bindMount K source target ro),
      Unmount = (\<lambda>_ target. unmountUnion K target)\<rparr>"

end
