(* ===== verification/OverlaySafety.thy ===== *)
theory OverlaySafety
  imports OverlayMount
begin

text \<open>
  What the system calls of the overlay backend guarantee for every behaviour of the kernel: no
  descriptor outlives a mount request, nothing is mounted but directories opened without following
  links, and the mount table changes by exactly the requested mount or not at all.
\<close>

section \<open>Descriptors\<close>

fun acquired :: "syscall \<times> answer \<Rightarrow> nat option" where
  "acquired (Openat2 _ _, Inr fd) = Some fd"
| "acquired (Open _ _, Inr fd) = Some fd"
| "acquired (Openat _ _ _, Inr fd) = Some fd"
| "acquired (Fsopen, Inr fd) = Some fd"
| "acquired (Fsmount _ _, Inr fd) = Some fd"
| "acquired _ = None"

fun released :: "syscall \<times> answer \<Rightarrow> nat option" where
  "released (Close fd, _) = Some fd"
| "released _ = None"

text \<open>How many descriptors of a number are open after a log, with the closes counted negative.\<close>

definition open_count :: "call_log \<Rightarrow> nat \<Rightarrow> int" where
  "open_count log fd =
     (\<Sum>e\<leftarrow>log. (if acquired e = Some fd then 1 else 0) - (if released e = Some fd then 1 else 0))"

abbreviation holds :: "(nat \<Rightarrow> int) \<Rightarrow> node \<Rightarrow> bool" where
  "holds c n \<equiv> open_count (calls n) = c"

lemma open_count_Nil [simp]: "open_count [] fd = 0"
  by (simp add: open_count_def)

lemma open_count_Cons [simp]:
  "open_count (e # log) fd = (if acquired e = Some fd then 1 else 0)
     - (if released e = Some fd then 1 else 0) + open_count log fd"
  by (simp add: open_count_def)

lemma open_count_append [simp]: "open_count (log @ log') fd = open_count log fd + open_count log' fd"
  by (simp add: open_count_def)

text \<open>\<open>owns g m\<close>: on failure \<open>m\<close> leaves the descriptors as they were; a result \<open>x\<close> comes with the
  descriptors \<open>g x\<close> on top. \<open>closes h m\<close>: \<open>m\<close> gives up the descriptors \<open>h\<close>.\<close>

definition owns :: "('a \<Rightarrow> nat \<Rightarrow> int) \<Rightarrow> 'a op \<Rightarrow> bool" where
  "owns g m \<longleftrightarrow>
     (\<forall>s r t fd. run_state m s = (r, t) \<longrightarrow>
        open_count (calls t) fd =
          open_count (calls s) fd + (case r of Inl _ \<Rightarrow> 0 | Inr x \<Rightarrow> g x fd))"

definition closes :: "(nat \<Rightarrow> int) \<Rightarrow> (node, unit) state \<Rightarrow> bool" where
  "closes h m \<longleftrightarrow>
     (\<forall>s fd. open_count (calls (snd (run_state m s))) fd = open_count (calls s) fd - h fd)"

definition none :: "'a \<Rightarrow> nat \<Rightarrow> int" where
  "none x fd = 0"

definition one :: "nat \<Rightarrow> nat \<Rightarrow> int" where
  "one x fd = (if x = fd then 1 else 0)"

definition many :: "nat list \<Rightarrow> nat \<Rightarrow> int" where
  "many xs fd = int (count_list xs fd)"

named_theorems owns_rules \<open>descriptors held by the result of a program\<close>

lemma owns_ok [owns_rules]: "(\<And>fd. g x fd = 0) \<Longrightarrow> owns g (ok x)"
  by (simp add: owns_def)

lemma owns_fail [owns_rules]: "owns g (fail e)"
  by (simp add: owns_def)

lemma owns_try [owns_rules]:
  "owns none m \<Longrightarrow> (\<And>x. owns g (f x)) \<Longrightarrow> owns g (try_do m f)"
  by (fastforce simp: owns_def none_def split: prod.splits sum.splits)

lemma owns_try_defer:
  "owns h m \<Longrightarrow> (\<And>x. owns g (f x)) \<Longrightarrow> (\<And>x. closes (h x) (close x)) \<Longrightarrow>
     owns g (try_do m (\<lambda>x. finally_do (f x) (close x)))"
  by (fastforce simp: owns_def closes_def split: prod.splits sum.splits)

lemma owns_if [owns_rules]:
  "(b \<Longrightarrow> owns g m) \<Longrightarrow> (\<not> b \<Longrightarrow> owns g m') \<Longrightarrow> owns g (if b then m else m')"
  by simp

lemma owns_case_option [owns_rules]:
  "(r = None \<Longrightarrow> owns g f) \<Longrightarrow> (\<And>x. r = Some x \<Longrightarrow> owns g (k x)) \<Longrightarrow>
     owns g (case r of None \<Rightarrow> f | Some x \<Rightarrow> k x)"
  by (cases r) simp_all

lemma close_one: "closes (one x) (close_fd K x)"
  by (auto simp: closes_def close_fd_def one_def)

lemma owns_defer [owns_rules]:
  "owns one m \<Longrightarrow> (\<And>x. owns g (f x)) \<Longrightarrow> owns g (try_do m (\<lambda>x. finally_do (f x) (close_fd K x)))"
  by (rule owns_try_defer [OF _ _ close_one])

lemma owns_sys [owns_rules]:
  "(\<And>r. acquired (c, r) = None \<and> released (c, r) = None) \<Longrightarrow> owns none (sys_check K c w)"
  by (auto simp: owns_def sys_check_def none_def split: sum.splits)

lemma owns_sys_one:
  "(\<And>fd. acquired (c, Inr fd) = Some fd) \<Longrightarrow> (\<And>e. acquired (c, Inl e) = None) \<Longrightarrow>
     (\<And>r. released (c, r) = None) \<Longrightarrow> owns one (sys_check K c w)"
  by (auto simp: owns_def sys_check_def one_def split: sum.splits)

lemma owns_openLayer [owns_rules]: "owns one (openLayer K dir flags)"
  by (auto simp: owns_def openLayer_def one_def split: sum.splits if_splits)

lemma owns_openDir: "owns one (openDirNoFollow K parent path name)"
  by (auto simp: owns_def openDirNoFollow_def one_def Let_def split: sum.splits if_splits)

lemma owns_BindMount [owns_rules]: "owns none (BindMount K src target ro)"
  by (auto simp: owns_def BindMount_def sys_check_def none_def split: sum.splits if_splits)

lemma owns_wrap [owns_rules]: "owns g m \<Longrightarrow> owns g (wrap_error w m)"
  by (fastforce simp: owns_def wrap_error_def split: prod.splits sum.splits)

lemma close_many: "closes (many xs) (close_all K xs)"
  by (induction xs) (auto simp: closes_def close_fd_def many_def split: prod.splits)

lemma owns_checkUpperFS [owns_rules]: "owns none (checkUpperFS K fd path)"
  unfolding checkUpperFS_def by (intro owns_rules) (simp_all add: none_def)

text \<open>The two workspace directories: whatever was opened is given up when a later one fails.\<close>

lemma open_subdirs_count:
  "run_state (open_subdirs K wsFD path names acc) s = (r, t) \<Longrightarrow>
     open_count (calls t) fd = open_count (calls s) fd - many acc fd
       + (case r of Inl _ \<Rightarrow> 0 | Inr ds \<Rightarrow> many ds fd)"
proof (induction names arbitrary: acc s)
  case (Cons name names)
  obtain a s' where a: "run_state (openDirNoFollow K wsFD path name) s = (a, s')" by fastforce
  note c = owns_openDir [unfolded owns_def, rule_format, OF a]
  show ?case
  proof (cases a)
    case (Inl e)
    then have "t = snd (run_state (close_all K acc) s')" and "r = Inl e"
      using Cons.prems a by (auto split: prod.splits)
    then show ?thesis using c Inl close_many [of acc K] by (simp add: closes_def)
  next
    case (Inr d)
    then have "run_state (open_subdirs K wsFD path names (acc @ [d])) s' = (r, t)"
      using Cons.prems a by simp
    from Cons.IH [OF this] show ?thesis using c Inr by (simp add: many_def one_def)
  qed
qed auto

lemma owns_open_subdirs: "owns many (open_subdirs K wsFD path names [])"
  using open_subdirs_count [where acc = "[]"] by (simp add: owns_def many_def)

lemma owns_try_map:
  "owns h m \<Longrightarrow> (\<And>x fd. g (f x) fd = h x fd) \<Longrightarrow> owns g (try_do m (\<lambda>x. ok (f x)))"
  by (fastforce simp: owns_def split: prod.splits sum.splits)

lemma owns_openWorkspace: "owns (\<lambda>ws. many (fds ws)) (openWorkspace K root)"
  unfolding openWorkspace_def
  by (intro owns_defer owns_openLayer owns_try [OF owns_checkUpperFS] owns_openDir
      owns_try_map [OF owns_open_subdirs]) simp

lemma owns_set_lowers [owns_rules]: "owns none (set_lowers K fd dirs)"
  by (induction dirs) (auto intro!: owns_rules simp: none_def)

lemma owns_set_options [owns_rules]: "owns none (set_options K fd sch opts ks)"
  by (induction ks) (auto intro!: owns_rules simp: none_def)

lemma owns_mountFsconfig [owns_rules]: "owns none (mountFsconfig K l target sch)"
  unfolding mountFsconfig_def
  by (intro owns_rules owns_sys_one) (simp_all add: none_def)

lemma owns_mountClassic [owns_rules]: "owns none (mountClassic K l target sch)"
  unfolding mountClassic_def by (intro owns_rules) (simp_all add: none_def)

lemma fsopenSupported_count:
  "run_state (fsopenSupported K) s = (b, t) \<Longrightarrow> open_count (calls t) fd = open_count (calls s) fd"
  by (auto simp: fsopenSupported_def close_fd_def split: option.splits sum.splits)

lemma owns_bindMount [owns_rules]: "owns none (bindMount K src target ro)"
  unfolding bindMount_def by (intro owns_rules)

lemma owns_bind_supported [owns_rules]:
  "(\<And>b. owns g (f b)) \<Longrightarrow> owns g (State_Monad.bind (fsopenSupported K) f)"
  by (fastforce simp: owns_def dest: fsopenSupported_count split: prod.splits)

lemma owns_mount_layout [owns_rules]: "owns none (mount_layout K sch target l)"
  unfolding mount_layout_def by (intro owns_rules)

lemma owns_with_lowers [owns_rules]:
  "(\<And>ds. owns none (body ds)) \<Longrightarrow> owns none (with_lowers K dirs opened body)"
  by (induction dirs arbitrary: opened) (auto intro!: owns_rules)

lemma owns_mountUnion: "owns none (mountUnion K spec sch)"
proof (cases "planLayout spec")
  case (Inl e)
  then show ?thesis by (simp add: mountUnion_def owns_rules)
next
  case (Inr l)
  have "owns none (try_do (openWorkspace K (rwRoot l)) (\<lambda>ws. finally_do
      (with_lowers K (lowers l) [] (\<lambda>dirs. mount_layout K sch (Target spec)
         (l\<lparr>upper := ws_upper ws, work := ws_work ws, lowers := dirs\<rparr>))) (ws_close K ws)))"
    unfolding ws_close_def
    by (rule owns_try_defer [OF owns_openWorkspace _ close_many]) (intro owns_rules)
  then show ?thesis using Inr by (auto simp: mountUnion_def intro!: owns_rules)
qed

text \<open>C21: Whatever the kernel answers and wherever the request fails, every descriptor a mount
  request opens, for layers, workspace, file system context or the detached mount, is closed again
  when it returns.\<close>

theorem mountUnion_closes_descriptors:
  "open_count (calls (snd (run_state (mountUnion K spec sch) n))) fd = open_count (calls n) fd"
proof -
  obtain r t where "run_state (mountUnion K spec sch) n = (r, t)" by fastforce
  with owns_mountUnion [of K spec sch] show ?thesis
    by (fastforce simp: owns_def none_def split: sum.splits)
qed

section \<open>The mount table\<close>

text \<open>What the calls do to the mounts of the node: for each target the stack of mounts on it, each
  with its read-only flag, and for each detached mount the flag it was made with. A plain bind is
  made writable and a later remount of the topmost mount sets its flag.\<close>

record mount_table =
  detached :: "nat \<Rightarrow> bool"
  stacks :: "string \<Rightarrow> bool list"

fun mount_effect :: "mount_table \<Rightarrow> syscall \<times> answer \<Rightarrow> mount_table" where
  "mount_effect m (SysMount src target typ flags data, Inr _) =
     (if MS_REMOUNT \<in> set flags
      then m\<lparr>stacks := (stacks m)(target := (MS_RDONLY \<in> set flags) # tl (stacks m target))\<rparr>
      else m\<lparr>stacks := (stacks m)(target := (MS_RDONLY \<in> set flags) # stacks m target)\<rparr>)"
| "mount_effect m (SysUnmount target, Inr _) =
     m\<lparr>stacks := (stacks m)(target := tl (stacks m target))\<rparr>"
| "mount_effect m (Fsmount fd ro, Inr mfd) = m\<lparr>detached := (detached m)(mfd := ro)\<rparr>"
| "mount_effect m (MoveMount mfd target, Inr _) =
     m\<lparr>stacks := (stacks m)(target := detached m mfd # stacks m target)\<rparr>"
| "mount_effect m _ = m"

definition mounts :: "call_log \<Rightarrow> mount_table" where
  "mounts log = foldl mount_effect \<lparr>detached = (\<lambda>_. False), stacks = (\<lambda>_. [])\<rparr> log"

lemma mounts_snoc [simp]: "mounts (log @ [e]) = mount_effect (mounts log) e"
  by (simp add: mounts_def)

lemma mounts_snoc2 [simp]: "mounts (log @ [e, f]) = mount_effect (mount_effect (mounts log) e) f"
  by (simp add: mounts_def)

lemma mounts_snoc3 [simp]:
  "mounts (log @ [e, f, g]) = mount_effect (mount_effect (mount_effect (mounts log) e) f) g"
  by (simp add: mounts_def)

abbreviation table :: "(string \<Rightarrow> bool list) \<Rightarrow> node \<Rightarrow> bool" where
  "table s n \<equiv> stacks (mounts (calls n)) = s"

text \<open>Calls that leave every mount in place.\<close>

fun no_mount :: "syscall \<Rightarrow> bool" where
  "no_mount (SysMount _ _ _ _ _) = False"
| "no_mount (SysUnmount _) = False"
| "no_mount (MoveMount _ _) = False"
| "no_mount _ = True"

lemma no_mount_effect: "no_mount c \<Longrightarrow> stacks (mount_effect m (c, r)) = stacks m"
  by (cases c; cases r) auto

lemma table_sys [keeps_rules]: "no_mount c \<Longrightarrow> keeps (table s) (sys K c)"
  by (auto simp: keeps_def hoare_def no_mount_effect)

lemma table_sys_check [keeps_rules]: "no_mount c \<Longrightarrow> keeps (table s) (sys_check K c w)"
  unfolding sys_check_def by (intro keeps_rules)

lemma table_close [keeps_rules]: "keeps (table s) (close_fd K fd)"
  unfolding close_fd_def by (intro keeps_rules) simp

lemma table_close_all [keeps_rules]: "keeps (table s) (close_all K ds)"
  by (induction ds) (auto intro!: keeps_rules)

lemma table_ws_close [keeps_rules]: "keeps (table s) (ws_close K ws)"
  unfolding ws_close_def by (intro keeps_rules)

lemma table_openLayer [keeps_rules]: "keeps (table s) (openLayer K dir flags)"
  unfolding openLayer_def by (intro keeps_rules) simp_all

lemma table_checkUpperFS [keeps_rules]: "keeps (table s) (checkUpperFS K fd path)"
  unfolding checkUpperFS_def by (intro keeps_rules) simp_all

lemma table_openDir [keeps_rules]: "keeps (table s) (openDirNoFollow K parent path name)"
  unfolding openDirNoFollow_def Let_def by (intro keeps_rules) simp_all

lemma table_open_subdirs [keeps_rules]: "keeps (table s) (open_subdirs K wsFD path names acc)"
  by (induction names arbitrary: acc) (auto intro!: keeps_rules)

lemma table_openWorkspace [keeps_rules]: "keeps (table s) (openWorkspace K root)"
  unfolding openWorkspace_def by (intro keeps_rules)

lemma table_supported [keeps_rules]: "keeps (table s) (fsopenSupported K)"
  by (auto simp: keeps_def hoare_def fsopenSupported_def close_fd_def split: option.splits sum.splits)

lemma table_set_lowers [keeps_rules]: "keeps (table s) (set_lowers K fd dirs)"
  by (induction dirs) (auto intro!: keeps_rules)

lemma table_set_options [keeps_rules]: "keeps (table s) (set_options K fd sch opts ks)"
  by (induction ks) (auto intro!: keeps_rules)

text \<open>The outcome of a request for a mount on \<open>target\<close> with the flag \<open>ro\<close>: on success one more
  mount with that flag on top; on failure the table as before, unless the kernel also refused to
  detach a bind mount that could not be made read-only.\<close>

definition mount_outcome ::
    "(string \<Rightarrow> bool list) \<Rightarrow> string \<Rightarrow> bool \<Rightarrow> overlay_error + unit \<Rightarrow> node \<Rightarrow> bool" where
  "mount_outcome s target ro r n \<longleftrightarrow>
     (case r of
        Inr _ \<Rightarrow> table (s(target := ro # s target)) n
      | Inl _ \<Rightarrow> table s n \<or>
          ((\<exists>e. (SysUnmount target, Inl e) \<in> set (calls n)) \<and> table (s(target := False # s target)) n))"

lemma unmount_effect:
  "mount_effect m (SysUnmount target, r) =
     (case r of Inl _ \<Rightarrow> m | Inr _ \<Rightarrow> m\<lparr>stacks := (stacks m)(target := tl (stacks m target))\<rparr>)"
  by (cases r) simp_all

lemma outcome_BindMount: "hoare (table s) (BindMount K src target ro) (mount_outcome s target ro)"
  by (auto simp: hoare_def BindMount_def sys_check_def mount_outcome_def unmount_effect
      split: sum.splits if_splits)

lemma outcome_Classic: "hoare (table s) (mountClassic K l target sch) (mount_outcome s target (readOnly l))"
  by (auto simp: hoare_def mountClassic_def sys_check_def mount_outcome_def split: sum.splits if_splits)

text \<open>A step that touches no mount before the one that does, and a clean-up after it.\<close>

lemma outcome_try:
  "keeps (table s) m \<Longrightarrow> (\<And>x. hoare (table s) (f x) (mount_outcome s target ro)) \<Longrightarrow>
     hoare (table s) (try_do m f) (mount_outcome s target ro)"
  unfolding keeps_def by (rule hoare_try [where R = "\<lambda>_. table s"]) (auto simp: mount_outcome_def)

definition grows :: "(node, 'a) state \<Rightarrow> bool" where
  "grows m \<longleftrightarrow> (\<forall>s. set (calls s) \<subseteq> set (calls (snd (run_state m s))))"

lemma outcome_finally:
  assumes "hoare (table s) m (mount_outcome s target ro)"
    and "\<And>t. keeps (table t) g" and "grows g"
  shows "hoare (table s) (finally_do m g) (mount_outcome s target ro)"
proof (rule hoare_finally [OF assms(1)])
  fix r
  show "hoare (mount_outcome s target ro r) g (\<lambda>_. mount_outcome s target ro r)"
    unfolding hoare_def
  proof (intro allI impI)
    fix n u n'
    assume o: "mount_outcome s target ro r n" and g: "run_state g n = (u, n')"
    have "stacks (mounts (calls n')) = stacks (mounts (calls n))"
      using keepsD [OF assms(2), where s = n] g by simp
    moreover have "set (calls n) \<subseteq> set (calls n')"
      using assms(3) g unfolding grows_def by (metis snd_conv)
    ultimately show "mount_outcome s target ro r n'"
      using o by (auto simp: mount_outcome_def split: sum.splits)
  qed
qed

lemma grows_close [simp]: "grows (close_fd K fd)"
  by (auto simp: grows_def close_fd_def)

lemma grows_close_all [simp]: "grows (close_all K ds)"
proof (induction ds)
  case (Cons d ds)
  then show ?case by (fastforce simp: grows_def close_fd_def)
qed (simp add: grows_def)

lemma outcome_wrap:
  "hoare P m (mount_outcome s target ro) \<Longrightarrow> hoare P (wrap_error w m) (mount_outcome s target ro)"
  unfolding wrap_error_def
  by (rule hoare_bind, assumption) (auto simp: hoare_def mount_outcome_def split: sum.splits)

text \<open>The detached mount carries its flag from \<open>fsmount\<close> to \<open>move_mount\<close>.\<close>

lemma outcome_attach:
  "hoare (table s)
     (try_do (sys_check K (Fsmount fd ro) FsmountFailed) (\<lambda>mfd.
        finally_do (try_do (sys_check K (MoveMount mfd target) MoveMountFailed) (\<lambda>_. ok ()))
          (close_fd K mfd)))
     (mount_outcome s target ro)"
  by (auto simp: hoare_def sys_check_def close_fd_def mount_outcome_def split: sum.splits)

lemma outcome_Fsconfig: "hoare (table s) (mountFsconfig K l target sch) (mount_outcome s target (readOnly l))"
  unfolding mountFsconfig_def
  by (intro outcome_try outcome_finally outcome_attach keeps_rules) simp_all

lemma outcome_bindMount: "hoare (table s) (bindMount K src target ro) (mount_outcome s target ro)"
  unfolding bindMount_def by (intro outcome_wrap outcome_BindMount)

lemma outcome_mount_layout:
  "hoare (table s) (mount_layout K sch target l) (mount_outcome s target (readOnly l))"
  unfolding mount_layout_def
  by (intro hoare_if outcome_bindMount hoare_bind [OF table_supported [unfolded keeps_def]]
      outcome_wrap outcome_Fsconfig outcome_Classic)

lemma outcome_with_lowers:
  "(\<And>ds. hoare (table s) (body ds) (mount_outcome s target ro)) \<Longrightarrow>
     hoare (table s) (with_lowers K dirs opened body) (mount_outcome s target ro)"
  by (induction dirs arbitrary: opened)
    (auto intro!: outcome_try outcome_finally keeps_rules)

lemma outcome_mountUnion:
  assumes "planLayout spec = Inr l"
  shows "hoare (table s) (mountUnion K spec sch) (mount_outcome s (Target spec) (readOnly l))"
proof -
  have ro: "hoare (table s) (mount_layout K sch (Target spec) l') (mount_outcome s (Target spec) (readOnly l))"
    if "readOnly l' = readOnly l" for l'
    using outcome_mount_layout [of s K sch "Target spec" l'] that by simp
  show ?thesis unfolding mountUnion_def assms sum.case
    by (intro hoare_if outcome_try outcome_finally outcome_with_lowers ro keeps_rules)
      (simp_all add: ws_close_def)
qed


section \<open>Only checked directories are mounted\<close>

fun nofollow_open :: "syscall \<Rightarrow> bool" where
  "nofollow_open (Openat2 _ flags) = (O_DIRECTORY \<in> set flags)"
| "nofollow_open (Open _ flags) = (O_DIRECTORY \<in> set flags \<and> O_NOFOLLOW \<in> set flags)"
| "nofollow_open (Openat _ _ flags) = (O_DIRECTORY \<in> set flags \<and> O_NOFOLLOW \<in> set flags)"
| "nofollow_open _ = False"

text \<open>The descriptor path of a directory that a call in the log opened without following links.\<close>

definition layer_path :: "call_log \<Rightarrow> string \<Rightarrow> bool" where
  "layer_path log p \<longleftrightarrow> (\<exists>c fd. (c, Inr fd) \<in> set log \<and> nofollow_open c \<and> p = fdPath fd)"

definition layers_ok :: "call_log \<Rightarrow> layout \<Rightarrow> bool" where
  "layers_ok log l \<longleftrightarrow> list_all (layer_path log) (lowers l) \<and>
     (upper l \<noteq> [] \<longrightarrow> layer_path log (upper l) \<and> layer_path log (work l))"

definition layer_keys :: "string set" where
  "layer_keys = {''lowerdir+'', ''upperdir'', ''workdir''}"

fun safe_call :: "call_log \<Rightarrow> syscall \<Rightarrow> bool" where
  "safe_call log (SysMount src target typ flags data) \<longleftrightarrow>
     MS_REMOUNT \<in> set flags \<or> (MS_BIND \<in> set flags \<and> layer_path log src) \<or>
     (typ = ''overlay'' \<and> (\<exists>l. data = classic_options l overlay_Schema \<and> layers_ok log l))"
| "safe_call log (FsconfigSetString fd k v) \<longleftrightarrow> (k \<in> layer_keys \<longrightarrow> layer_path log v)"
| "safe_call log _ \<longleftrightarrow> True"

text \<open>Each call judged by the calls before it.\<close>

fun safe_from :: "call_log \<Rightarrow> call_log \<Rightarrow> bool" where
  "safe_from before [] = True"
| "safe_from before ((c, r) # log) \<longleftrightarrow> safe_call before c \<and> safe_from (before @ [(c, r)]) log"

definition safe_log :: "call_log \<Rightarrow> bool" where
  "safe_log log \<longleftrightarrow> safe_from [] log"

lemma layer_path_mono: "set log \<subseteq> set log' \<Longrightarrow> layer_path log p \<Longrightarrow> layer_path log' p"
  by (auto simp: layer_path_def)

lemma safe_from_snoc:
  "safe_from before (log @ [(c, r)]) \<longleftrightarrow> safe_from before log \<and> safe_call (before @ log) c"
  by (induction before log rule: safe_from.induct) auto

lemma safe_log_snoc: "safe_log log \<Longrightarrow> safe_call log c \<Longrightarrow> safe_log (log @ [(c, r)])"
  by (simp add: safe_log_def safe_from_snoc)

text \<open>The log is safe, and the paths \<open>ps\<close> may be mounted.\<close>

definition secure :: "string set \<Rightarrow> node \<Rightarrow> bool" where
  "secure ps n \<longleftrightarrow> safe_log (calls n) \<and> (\<forall>p \<in> ps. layer_path (calls n) p)"

lemma secure_subset: "secure ps n \<Longrightarrow> qs \<subseteq> ps \<Longrightarrow> secure qs n"
  by (auto simp: secure_def)

lemma secure_snoc:
  assumes "secure ps n" and "safe_call (calls n) c"
  shows "secure ps (n\<lparr>calls := calls n @ [(c, r)]\<rparr>)"
proof -
  have sub: "set (calls n) \<subseteq> set (calls n @ [(c, r)])" by auto
  show ?thesis
    using assms safe_log_snoc layer_path_mono [OF sub] by (simp add: secure_def)
qed

lemma secure_sys: "(\<And>n. secure ps n \<Longrightarrow> safe_call (calls n) c) \<Longrightarrow> keeps (secure ps) (sys K c)"
  by (auto simp: keeps_def hoare_def secure_snoc)

lemma secure_sys_check [keeps_rules]:
  "(\<And>n. secure ps n \<Longrightarrow> safe_call (calls n) c) \<Longrightarrow> keeps (secure ps) (sys_check K c w)"
  unfolding sys_check_def by (intro keeps_rules secure_sys)

lemma secure_close [keeps_rules]: "keeps (secure ps) (close_fd K fd)"
  unfolding close_fd_def by (intro keeps_rules secure_sys) simp

lemma secure_close_all [keeps_rules]: "keeps (secure ps) (close_all K ds)"
  by (induction ds) (auto intro!: keeps_rules)

lemma secure_ws_close [keeps_rules]: "keeps (secure ps) (ws_close K ws)"
  unfolding ws_close_def by (intro keeps_rules)

lemma secure_checkUpperFS [keeps_rules]: "keeps (secure ps) (checkUpperFS K fd path)"
  unfolding checkUpperFS_def by (intro keeps_rules) simp

lemma secure_supported [keeps_rules]: "keeps (secure ps) (fsopenSupported K)"
proof -
  have c: "secure ps (n\<lparr>fsopen_cache := b\<rparr>) \<longleftrightarrow> secure ps n" for n b
    by (simp add: secure_def)
  have "secure ps (n\<lparr>calls := calls n @ [(Fsopen, r)]\<rparr>)" if "secure ps n" for n r
    using that by (rule secure_snoc) simp
  then show ?thesis
    by (auto simp: keeps_def hoare_def fsopenSupported_def c intro: keepsD [OF secure_close]
        split: option.splits sum.splits)
qed

lemma secure_wrap [keeps_rules]: "keeps P m \<Longrightarrow> keeps P (wrap_error w m)"
  unfolding wrap_error_def by (intro keeps_rules)

text \<open>\<open>gains f m\<close>: the paths \<open>f x\<close> of the result \<open>x\<close> may be mounted from then on.\<close>

definition gains :: "('a \<Rightarrow> string set) \<Rightarrow> 'a op \<Rightarrow> bool" where
  "gains f m \<longleftrightarrow>
     (\<forall>ps. hoare (secure ps) m (\<lambda>r. secure (case r of Inl _ \<Rightarrow> ps | Inr x \<Rightarrow> ps \<union> f x)))"

lemma gains_try:
  "gains f m \<Longrightarrow> (\<And>x. keeps (secure (ps \<union> f x)) (g x)) \<Longrightarrow> keeps (secure ps) (try_do m g)"
  unfolding gains_def keeps_def
  by (erule_tac x = ps in allE, erule hoare_try)
    (auto intro: hoare_post secure_subset)

lemma secure_snoc_open:
  assumes "secure ps n" and "nofollow_open c"
  shows "secure (insert (fdPath fd) ps) (n\<lparr>calls := calls n @ [(c, Inr fd)]\<rparr>)"
proof -
  have "safe_call (calls n) c" using assms(2) by (cases c) auto
  then have "secure ps (n\<lparr>calls := calls n @ [(c, Inr fd)]\<rparr>)" by (rule secure_snoc [OF assms(1)])
  moreover have "layer_path (calls n @ [(c, Inr fd)]) (fdPath fd)"
    using assms(2) by (auto simp: layer_path_def)
  ultimately show ?thesis by (simp add: secure_def)
qed

lemma gains_open:
  assumes "nofollow_open c"
  shows "hoare (secure ps) (sys K c) (\<lambda>r. secure (case r of Inl _ \<Rightarrow> ps | Inr fd \<Rightarrow> insert (fdPath fd) ps))"
proof -
  have "safe_call log c" for log using assms by (cases c) auto
  then show ?thesis using assms
    by (auto simp: hoare_def secure_snoc secure_snoc_open split: sum.splits)
qed

lemma gains_openLayer: "gains (\<lambda>fd. {fdPath fd}) (openLayer K dir flags)"
proof -
  let ?Q = "\<lambda>ps r. secure (case r of Inl _ \<Rightarrow> ps | Inr fd \<Rightarrow> insert (fdPath fd) ps)"
  have again: "hoare (?Q ps r) (if r = Inl ENOSYS
      then sys K (Open dir (flags @ [O_DIRECTORY, O_NOFOLLOW, O_CLOEXEC]))
      else State_Monad.return r) (?Q ps)" for ps r
    using gains_open [of "Open dir (flags @ [O_DIRECTORY, O_NOFOLLOW, O_CLOEXEC])" ps K]
    by (auto simp: hoare_def)
  have wrap: "hoare (?Q ps r) (case r of Inl e \<Rightarrow> fail (OpenFailed dir e) | Inr fd \<Rightarrow> ok fd)
      (\<lambda>r. secure (case r of Inl _ \<Rightarrow> ps | Inr x \<Rightarrow> ps \<union> {fdPath x}))" for ps r
    by (cases r) (auto simp: hoare_def)
  show ?thesis unfolding gains_def openLayer_def
    by (intro allI, rule hoare_bind [OF gains_open], simp, rule hoare_bind [OF again wrap])
qed

lemma gains_openDir: "gains (\<lambda>fd. {fdPath fd}) (openDirNoFollow K parent path name)"
proof -
  let ?c = "Openat parent name [O_RDONLY, O_DIRECTORY, O_NOFOLLOW, O_CLOEXEC]"
  let ?R = "\<lambda>ps r. secure (case r of Inl _ \<Rightarrow> ps | Inr x \<Rightarrow> ps \<union> {fdPath x})"
  have child: "hoare (secure ps) (do { r \<leftarrow> sys K ?c;
      case r of Inr fd \<Rightarrow> ok fd
        | Inl e \<Rightarrow> if e = ELOOP then fail (IsSymlink q) else fail (OpenFailed q e) }) (?R ps)" for ps q
    by (rule hoare_bind [OF gains_open], simp) (auto simp: hoare_def split: sum.splits)
  have mk: "hoare (secure ps) (sys K (Mkdirat parent name)) (\<lambda>_. secure ps)" for ps
    using secure_sys [of ps "Mkdirat parent name" K] by (simp add: keeps_def)
  show ?thesis unfolding gains_def openDirNoFollow_def Let_def
    by (intro allI hoare_bind [OF mk] hoare_case_sum hoare_if child) (simp add: hoare_def)
qed

lemma gains_open_subdirs:
  "hoare (secure (ps \<union> fdPath ` set acc)) (open_subdirs K wsFD path names acc)
     (\<lambda>r. secure (case r of Inl _ \<Rightarrow> ps | Inr ds \<Rightarrow> ps \<union> fdPath ` set ds))"
proof (induction names arbitrary: acc)
  case Nil
  show ?case by (simp add: hoare_def)
next
  case (Cons name names)
  have fails: "hoare (secure (ps \<union> fdPath ` set acc)) (do { _ \<leftarrow> close_all K acc; fail e })
     (\<lambda>r. secure (case r of Inl _ \<Rightarrow> ps | Inr ds \<Rightarrow> ps \<union> fdPath ` set ds))" for e
    by (rule hoare_bind [OF secure_close_all [unfolded keeps_def]])
      (auto simp: hoare_def intro: secure_subset)
  have more: "hoare (secure (ps \<union> fdPath ` set acc \<union> {fdPath x}))
      (open_subdirs K wsFD path names (acc @ [x]))
      (\<lambda>r. secure (case r of Inl _ \<Rightarrow> ps | Inr ds \<Rightarrow> ps \<union> fdPath ` set ds))" for x
    using Cons.IH [of "acc @ [x]"] by (rule hoare_pre) (auto intro: secure_subset)
  have dir: "hoare (secure (ps \<union> fdPath ` set acc)) (openDirNoFollow K wsFD path name)
     (\<lambda>r. secure (case r of Inl _ \<Rightarrow> ps \<union> fdPath ` set acc
                 | Inr x \<Rightarrow> ps \<union> fdPath ` set acc \<union> {fdPath x}))"
    using gains_openDir by (simp add: gains_def)
  show ?case unfolding open_subdirs.simps
    by (rule hoare_bind [OF dir], rule hoare_case_sum) (simp_all add: fails more [simplified])
qed

lemma open_subdirs_length:
  "run_state (open_subdirs K wsFD path names acc) s = (Inr ds, t) \<Longrightarrow> length ds = length acc + length names"
  by (induction names arbitrary: acc s) (fastforce split: prod.splits sum.splits)+

lemma gains_openWorkspace: "gains (\<lambda>ws. {ws_upper ws, ws_work ws}) (openWorkspace K root)"
  unfolding gains_def
proof
  fix ps
  let ?R = "\<lambda>r. secure (case r of Inl _ \<Rightarrow> ps | Inr ws \<Rightarrow> ps \<union> {ws_upper ws, ws_work ws})"
  let ?sub = "\<lambda>wsFD. open_subdirs K wsFD (filepath_Join [root, workspaceDir]) [upperName, workName] []"
  have sub: "hoare (secure ps)
      (try_do (?sub wsFD) (\<lambda>ds. ok \<lparr>fds = ds, ws_upper = fdPath (ds ! 0), ws_work = fdPath (ds ! 1)\<rparr>))
      ?R" for wsFD
    unfolding hoare_def
  proof (intro allI impI)
    fix s r t
    assume s: "secure ps s" and run: "run_state (try_do (?sub wsFD)
      (\<lambda>ds. ok \<lparr>fds = ds, ws_upper = fdPath (ds ! 0), ws_work = fdPath (ds ! 1)\<rparr>)) s = (r, t)"
    obtain a where a: "run_state (?sub wsFD) s = (a, t)"
      using run by (auto simp del: open_subdirs.simps split: prod.splits sum.splits)
    have sec: "secure (case a of Inl _ \<Rightarrow> ps | Inr ds \<Rightarrow> ps \<union> fdPath ` set ds) t"
      using hoareD [OF gains_open_subdirs [of ps "[]"] _ a] s by simp
    show "?R r t"
    proof (cases a)
      case (Inr ds)
      then have "length ds = 2" using open_subdirs_length a by fastforce
      then have "ds ! 0 \<in> set ds" "ds ! 1 \<in> set ds" by simp_all
      moreover have "r = Inr \<lparr>fds = ds, ws_upper = fdPath (ds ! 0), ws_work = fdPath (ds ! 1)\<rparr>"
        using run a Inr by (simp del: open_subdirs.simps)
      ultimately show ?thesis using Inr sec by (auto intro: secure_subset)
    next
      case (Inl e)
      then have "r = Inl e" using run a by (simp del: open_subdirs.simps)
      with Inl sec show ?thesis by simp
    qed
  qed
  have fin: "hoare P m ?R \<Longrightarrow> hoare P (finally_do m (close_fd K fd)) ?R" for P m fd
    by (rule hoare_finally, assumption) (simp add: secure_close [unfolded keeps_def])
  have weak: "hoare (secure (case Inr x of Inl _ \<Rightarrow> ps | Inr x \<Rightarrow> ps \<union> {fdPath x})) m ?R"
    if "hoare (secure ps) m ?R" for x m
    using that by (rule hoare_pre) (auto intro: secure_subset)
  show "hoare (secure ps) (openWorkspace K root) ?R"
    unfolding openWorkspace_def
    by (rule hoare_try [OF gains_openLayer [unfolded gains_def, rule_format]], simp,
        rule weak, rule fin, rule hoare_try [OF secure_checkUpperFS [unfolded keeps_def]], simp,
        rule hoare_try [OF gains_openDir [unfolded gains_def, rule_format]], simp,
        rule weak, rule fin, rule sub)
qed

section \<open>Mounting only secure paths\<close>

lemma secure_set_lowers:
  "set dirs \<subseteq> ps \<Longrightarrow> keeps (secure ps) (set_lowers K fd dirs)"
  by (induction dirs) (auto intro!: keeps_rules simp: secure_def)

lemma schema_keys_no_layer:
  "map_of overlay_Schema k = Some spec \<Longrightarrow> k \<notin> layer_keys"
  by (auto simp: overlay_Schema_def layer_keys_def split: if_splits)

lemma secure_set_options: "keeps (secure ps) (set_options K fd overlay_Schema opts ks)"
proof (induction ks)
  case (Cons k ks)
  then show ?case
    by (auto intro!: keeps_rules dest: schema_keys_no_layer split: option.splits)
qed (simp add: keeps_rules)

lemma secure_mountFsconfig:
  assumes "set (lowers l) \<subseteq> ps" and "upper l \<noteq> [] \<longrightarrow> {upper l, work l} \<subseteq> ps"
  shows "keeps (secure ps) (mountFsconfig K l target overlay_Schema)"
  unfolding mountFsconfig_def
  by (intro keeps_rules secure_set_lowers secure_set_options assms(1))
    (use assms in \<open>auto simp: secure_def\<close>)

lemma secure_layers_ok:
  "secure ps n \<Longrightarrow> set (lowers l) \<subseteq> ps \<Longrightarrow> (upper l \<noteq> [] \<Longrightarrow> {upper l, work l} \<subseteq> ps) \<Longrightarrow>
     layers_ok (calls n) l"
  by (auto simp: secure_def layers_ok_def list_all_iff)

lemma secure_mountClassic:
  assumes "set (lowers l) \<subseteq> ps" and "upper l \<noteq> [] \<longrightarrow> {upper l, work l} \<subseteq> ps"
  shows "keeps (secure ps) (mountClassic K l target overlay_Schema)"
  unfolding mountClassic_def
  by (intro keeps_rules) (use assms in \<open>auto intro: secure_layers_ok\<close>)

lemma secure_BindMount: "src \<in> ps \<Longrightarrow> keeps (secure ps) (BindMount K src target ro)"
  unfolding BindMount_def by (intro keeps_rules secure_sys) (auto simp: secure_def)

lemma secure_bindMount: "src \<in> ps \<Longrightarrow> keeps (secure ps) (bindMount K src target ro)"
  unfolding bindMount_def by (intro secure_wrap secure_BindMount)

lemma single_layer: "single l \<noteq> [] \<Longrightarrow> single l \<in> set (lowers l) \<or> upper l \<noteq> [] \<and> single l = upper l"
  by (auto simp: single_def split: if_splits)

lemma secure_mount_layout:
  assumes "set (lowers l) \<subseteq> ps" and "upper l \<noteq> [] \<longrightarrow> {upper l, work l} \<subseteq> ps"
  shows "keeps (secure ps) (mount_layout K overlay_Schema target l)"
proof -
  have "single l \<in> ps" if "single l \<noteq> []" using single_layer [OF that] assms by auto
  then show ?thesis unfolding mount_layout_def
    by (intro keeps_rules secure_bindMount secure_mountFsconfig secure_mountClassic assms)
qed

lemma secure_with_lowers:
  "set opened \<subseteq> ps \<Longrightarrow>
     (\<And>ds qs. set ds \<subseteq> qs \<Longrightarrow> ps \<subseteq> qs \<Longrightarrow> keeps (secure qs) (body ds)) \<Longrightarrow>
     keeps (secure ps) (with_lowers K dirs opened body)"
proof (induction dirs arbitrary: opened ps)
  case (Cons dir dirs)
  have "keeps (secure (ps \<union> {fdPath fd})) (with_lowers K dirs (opened @ [fdPath fd]) body)" for fd
    by (rule Cons.IH) (use Cons.prems in auto)
  then show ?case
    by (auto intro!: gains_try [OF gains_openLayer] keeps_finally keeps_rules)
qed simp

lemma secure_mountUnion:
  assumes "list_all (\<lambda>s. src_Path s \<noteq> []) (Sources spec)"
  shows "keeps (secure {}) (mountUnion K spec overlay_Schema)"
proof (cases "planLayout spec")
  case (Inr l)
  then have up: "rwRoot l = [] \<Longrightarrow> upper l = []"
    using assms by (auto simp: planLayout_reference reference_layout_def split: list.splits if_splits)
  have ro: "keeps (secure {}) (with_lowers K (lowers l) []
      (\<lambda>dirs. mount_layout K overlay_Schema (Target spec) (l\<lparr>lowers := dirs\<rparr>)))" if "upper l = []"
    by (rule secure_with_lowers) (use that in \<open>auto intro!: secure_mount_layout\<close>)
  have rw: "keeps (secure ({} \<union> {ws_upper ws, ws_work ws})) (finally_do (with_lowers K (lowers l) []
      (\<lambda>dirs. mount_layout K overlay_Schema (Target spec)
        (l\<lparr>upper := ws_upper ws, work := ws_work ws, lowers := dirs\<rparr>))) (ws_close K ws))" for ws
    by (rule keeps_finally [OF secure_with_lowers secure_ws_close])
      (auto intro!: secure_mount_layout)
  show ?thesis using Inr up ro gains_try [OF gains_openWorkspace rw]
    by (simp add: mountUnion_def)
qed (simp add: mountUnion_def keeps_rules)


section \<open>A node\<close>

text \<open>A kernel with the new mount interface, whose sources are on ext4: descriptors are numbered
  by the calls made so far.\<close>

definition ext4_kernel :: kernel where
  "ext4_kernel log c = (case c of Fstatfs _ \<Rightarrow> Inr 0xEF53 | _ \<Rightarrow> Inr (length log + 3))"

definition two_sources :: mount_spec where
  "two_sources = \<lparr>VolumeID = ''csi-1'', Target = ''/t'',
     Sources = [\<lparr>src_Path = ''/rw'', src_Mode = modeRW\<rparr>, \<lparr>src_Path = ''/ro'', src_Mode = modeRO\<rparr>],
     Options = [(''index'', ''off'')], ReadOnly = False\<rparr>"

definition fresh_node :: node where
  "fresh_node = \<lparr>calls = [], fsopen_cache = None\<rparr>"

lemma two_sources_mounted:
  "fst (run_state (mountUnion ext4_kernel two_sources overlay_Schema) fresh_node) = Inr ()"
proof -
  have plan: "planLayout two_sources = Inr \<lparr>lowers = [''/ro''], rwRoot = ''/rw'',
      upper = ''/rw/.union-csi/upper'', work = ''/rw/.union-csi/work'', readOnly = False,
      options = [(''index'', ''off'')]\<rparr>"
    by code_simp
  have target: "Target two_sources = ''/t''" by (simp add: two_sources_def)
  show ?thesis
    by (simp add: mountUnion_def plan openWorkspace_def openLayer_def checkUpperFS_def sys_check_def
        openDirNoFollow_def Let_def close_fd_def ws_close_def mount_layout_def single_def
        fsopenSupported_def wrap_error_def mountFsconfig_def sortedOptions_def fdPath_def
        ext4_kernel_def fresh_node_def target unsupportedUpperFS_def upperName_def workName_def)
qed



end
