(* ===== verification/Params.thy ===== *)
theory Params
  imports Policy
begin

text \<open>
  \<open>pkg/driver/params.go\<close>: the volume attributes of a request. What the parser needs of the driver is
  the cap on entries and the backend's name, modes and writable limit.
\<close>

section \<open>The grammar\<close>

definition lower_or_digit :: "char \<Rightarrow> bool" where
  "lower_or_digit c \<longleftrightarrow> CHR ''a'' \<le> c \<and> c \<le> CHR ''z'' \<or> CHR ''0'' \<le> c \<and> c \<le> CHR ''9''"

definition volumeNameRE :: re where
  "volumeNameRE =
     Seq (Class lower_or_digit)
       (Optional (Seq (Many (Class (\<lambda>c. c = CHR ''-'' \<or> lower_or_digit c))) (Class lower_or_digit)))"

definition attrSourceVolumes :: string where "attrSourceVolumes = ''sourceVolumes''"
definition attrOptions :: string where "attrOptions = ''options''"
definition attrPodName :: string where "attrPodName = ''csi.storage.k8s.io/pod.name''"
definition attrPodNamespace :: string where "attrPodNamespace = ''csi.storage.k8s.io/pod.namespace''"
definition attrPodUID :: string where "attrPodUID = ''csi.storage.k8s.io/pod.uid''"
definition attrServiceAccount :: string where
  "attrServiceAccount = ''csi.storage.k8s.io/serviceAccount.name''"
definition attrEphemeral :: string where "attrEphemeral = ''csi.storage.k8s.io/ephemeral''"

lemmas attr_defs = attrSourceVolumes_def attrOptions_def attrPodName_def attrPodNamespace_def
  attrPodUID_def attrServiceAccount_def attrEphemeral_def

definition knownAttributes :: "string list" where
  "knownAttributes = [attrSourceVolumes, attrOptions, attrPodName, attrPodNamespace, attrPodUID,
     attrServiceAccount, attrEphemeral]"

record source_volume =
  sv_Name :: string
  sv_Mode :: string

record parsed_attributes =
  pa_SourceVolumes :: "source_volume list"
  pa_Options :: "string gomap"
  pa_PodNamespace :: string
  pa_PodName :: string
  pa_PodUID :: string

datatype param_error =
    UnknownAttribute string
  | SourceVolumesRequired
  | TooManyEntries int int
  | InvalidVolumeName string
  | DuplicateVolumeName string
  | UnknownMode string string "string list"
  | TooManyWritable string nat
  | InvalidOptionEntry string

section \<open>Parsing\<close>

definition containsString :: "string list \<Rightarrow> string \<Rightarrow> bool" where
  "containsString xs s = list_ex (\<lambda>v. v = s) xs"

text \<open>An entry is a name with an optional mode after the first equals sign.\<close>

definition split_entry :: "string \<Rightarrow> string \<Rightarrow> string \<times> string" where
  "split_entry defaultMode entry =
     (case cut_at (CHR ''='') entry of None \<Rightarrow> (entry, defaultMode) | Some nm \<Rightarrow> nm)"

text \<open>The loop over the entries, with the names seen, the sources so far and the count of writable
  ones.\<close>

fun parse_entries ::
    "('w, 'e) backend \<Rightarrow> string list \<Rightarrow> source_volume list \<Rightarrow> nat \<Rightarrow> string list \<Rightarrow>
     param_error + source_volume list" where
  "parse_entries be seen sources writable [] = Inr sources"
| "parse_entries be seen sources writable (entry # entries) =
     (let (validModes, defaultMode) = SourceModes be;
          maxWritable = MaxWritable be;
          (name, mode) = split_entry defaultMode entry;
          next = (\<lambda>writable. parse_entries be (name # seen)
                    (sources @ [\<lparr>sv_Name = name, sv_Mode = mode\<rparr>]) writable entries)
      in if \<not> MatchString volumeNameRE name then Inl (InvalidVolumeName name)
         else if name \<in> set seen then Inl (DuplicateVolumeName name)
         else if \<not> containsString validModes mode then Inl (UnknownMode name mode validModes)
         else if mode = ''RW'' then
           (if maxWritable > 0 \<and> Suc writable > maxWritable
            then Inl (TooManyWritable (Name be) maxWritable)
            else next (Suc writable))
         else next writable)"

definition parseSourceVolumes ::
    "('w, 'e) backend \<Rightarrow> int \<Rightarrow> string \<Rightarrow> param_error + source_volume list" where
  "parseSourceVolumes be maxSourceVolumes raw =
     (if raw = [] then Inl SourceVolumesRequired
      else
        (let entries = split_on (CHR '','') raw in
         if int (length entries) > maxSourceVolumes
         then Inl (TooManyEntries (int (length entries)) maxSourceVolumes)
         else parse_entries be [] [] 0 entries))"

fun parse_pairs :: "string gomap \<Rightarrow> string list \<Rightarrow> param_error + string gomap" where
  "parse_pairs options [] = Inr options"
| "parse_pairs options (pair # pairs) =
     (case cut_at (CHR ''='') pair of
        None \<Rightarrow> Inl (InvalidOptionEntry pair)
      | Some (k, v) \<Rightarrow>
          if k = [] then Inl (InvalidOptionEntry pair)
          else parse_pairs (AList.update k v options) pairs)"

definition parseOptions :: "string \<Rightarrow> param_error + string gomap" where
  "parseOptions raw = (if raw = [] then Inr [] else parse_pairs [] (split_on (CHR '','') raw))"

definition unknown_attribute :: "string gomap \<Rightarrow> string option" where
  "unknown_attribute attrs =
     (case filter (\<lambda>k. k \<notin> set knownAttributes) (map fst attrs) of [] \<Rightarrow> None | k # _ \<Rightarrow> Some k)"

definition parseAttributes ::
    "('w, 'e) backend \<Rightarrow> int \<Rightarrow> string gomap \<Rightarrow> param_error + parsed_attributes" where
  "parseAttributes be maxSourceVolumes attrs =
     (case unknown_attribute attrs of
        Some k \<Rightarrow> Inl (UnknownAttribute k)
      | None \<Rightarrow>
          (case parseSourceVolumes be maxSourceVolumes (map_index attrs attrSourceVolumes) of
             Inl e \<Rightarrow> Inl e
           | Inr sourceVolumes \<Rightarrow>
               (case parseOptions (map_index attrs attrOptions) of
                  Inl e \<Rightarrow> Inl e
                | Inr options \<Rightarrow>
                    Inr \<lparr>pa_SourceVolumes = sourceVolumes, pa_Options = options,
                         pa_PodNamespace = map_index attrs attrPodNamespace,
                         pa_PodName = map_index attrs attrPodName,
                         pa_PodUID = map_index attrs attrPodUID\<rparr>)))"

section \<open>Volume names\<close>

text \<open>A DNS label without the length limit.\<close>

definition dns_label :: "string \<Rightarrow> bool" where
  "dns_label s \<longleftrightarrow> s \<noteq> [] \<and> lower_or_digit (hd s) \<and> lower_or_digit (last s) \<and>
     list_all (\<lambda>c. c = CHR ''-'' \<or> lower_or_digit c) s"

lemma Many_Class_append:
  "in_lang (Seq (Many (Class p)) (Class q)) s \<longleftrightarrow> s \<noteq> [] \<and> list_all p (butlast s) \<and> q (last s)"
  by (cases s rule: rev_cases) (auto simp: Many_Class_iff)

lemma volumeNameRE_iff: "MatchString volumeNameRE s \<longleftrightarrow> dns_label s"
proof (cases s)
  case Nil
  then show ?thesis by (simp add: MatchString_iff volumeNameRE_def dns_label_def)
next
  case (Cons c u)
  have "MatchString volumeNameRE s \<longleftrightarrow> lower_or_digit c \<and>
      (u = [] \<or> list_all (\<lambda>c. c = CHR ''-'' \<or> lower_or_digit c) (butlast u) \<and> lower_or_digit (last u))"
    using Cons by (auto simp: MatchString_iff volumeNameRE_def Seq_Cons_iff Optional_iff
        Many_Class_append simp del: in_lang_simps(4))
  also have "\<dots> \<longleftrightarrow> dns_label s"
    using Cons by (cases u rule: rev_cases) (auto simp: dns_label_def)
  finally show ?thesis .
qed

lemma dns_label_chars: "dns_label s \<Longrightarrow> c \<in> set s \<Longrightarrow> c = CHR ''-'' \<or> lower_or_digit c"
  by (auto simp: dns_label_def list_all_iff)

lemma lower_or_digit_plain: "lower_or_digit c \<Longrightarrow> \<not> separator c \<and> c \<noteq> CHR ''.''"
  by (auto simp: lower_or_digit_def separator_def)

lemma not_hyphen: "lower_or_digit c \<Longrightarrow> c \<noteq> CHR ''-''"
  by (auto simp: lower_or_digit_def)

lemma dns_label_iff:
  "dns_label s \<longleftrightarrow>
     s \<noteq> [] \<and> hd s \<noteq> CHR ''-'' \<and> last s \<noteq> CHR ''-'' \<and>
     list_all (\<lambda>c. c = CHR ''-'' \<or> lower_or_digit c) s"
proof (cases "s = []")
  case False
  have "list_all (\<lambda>c. c = CHR ''-'' \<or> lower_or_digit c) s \<Longrightarrow> c \<in> set s \<Longrightarrow>
      lower_or_digit c \<longleftrightarrow> c \<noteq> CHR ''-''" for c
    using not_hyphen by (auto simp: list_all_iff)
  then show ?thesis
    unfolding dns_label_def using hd_in_set [OF False] last_in_set [OF False] by blast
qed (simp add: dns_label_def)

lemma dns_label_safe: "dns_label s \<Longrightarrow> plain s \<and> s \<noteq> ''.'' \<and> s \<noteq> ''..''"
proof -
  assume d: "dns_label s"
  have "\<not> separator c \<and> c \<noteq> CHR ''.''" if "c \<in> set s" for c
    using dns_label_chars [OF d that] lower_or_digit_plain by (auto simp: separator_def)
  then show ?thesis by (auto simp: plain_def list_all_iff)
qed

text \<open>A name passes the pattern exactly when it is a DNS label: lower-case letters, digits and
  inner hyphens. So it holds no separator of a mount option string, of a branch list or of a path.\<close>

theorem volumeNameRE_dns_label:
  "(MatchString volumeNameRE s \<longleftrightarrow>
     s \<noteq> [] \<and> hd s \<noteq> CHR ''-'' \<and> last s \<noteq> CHR ''-'' \<and>
     list_all (\<lambda>c. c = CHR ''-'' \<or> lower_or_digit c) s) \<and>
   (MatchString volumeNameRE s \<longrightarrow> plain s \<and> s \<noteq> ''.'' \<and> s \<noteq> ''..'')"
  using dns_label_safe by (simp add: volumeNameRE_iff dns_label_iff [symmetric])

section \<open>Source volumes\<close>

definition entry_source :: "string \<Rightarrow> string \<Rightarrow> source_volume" where
  "entry_source defaultMode entry =
     (case split_entry defaultMode entry of (n, m) \<Rightarrow> \<lparr>sv_Name = n, sv_Mode = m\<rparr>)"

abbreviation writable_sources :: "source_volume list \<Rightarrow> source_volume list" where
  "writable_sources svs \<equiv> filter (\<lambda>sv. sv_Mode sv = ''RW'') svs"

text \<open>What a list of source volumes has to be for a backend.\<close>

definition valid_sources :: "('w, 'e) backend \<Rightarrow> source_volume list \<Rightarrow> bool" where
  "valid_sources be svs \<longleftrightarrow>
     list_all (\<lambda>sv. dns_label (sv_Name sv) \<and> sv_Mode sv \<in> set (fst (SourceModes be))) svs \<and>
     distinct (map sv_Name svs) \<and>
     (MaxWritable be > 0 \<longrightarrow> length (writable_sources svs) \<le> MaxWritable be)"

lemma containsString_iff: "containsString xs s \<longleftrightarrow> s \<in> set xs"
  by (auto simp: containsString_def list_ex_iff)

definition fits :: "('w, 'e) backend \<Rightarrow> nat \<Rightarrow> source_volume list \<Rightarrow> bool" where
  "fits be writable svs \<longleftrightarrow> MaxWritable be = 0 \<or> writable_sources svs = [] \<or>
     writable + length (writable_sources svs) \<le> MaxWritable be"

lemma fits_Cons:
  "fits be writable (sv # svs) \<longleftrightarrow>
     (if sv_Mode sv = ''RW'' then \<not> (MaxWritable be > 0 \<and> Suc writable > MaxWritable be) \<and>
        fits be (Suc writable) svs
      else fits be writable svs)"
  by (auto simp: fits_def)

lemma parse_entries_Inr:
  "parse_entries be seen sources writable entries = Inr svs \<longleftrightarrow>
     (let news = map (entry_source (snd (SourceModes be))) entries in
        svs = sources @ news \<and>
        list_all (\<lambda>sv. dns_label (sv_Name sv) \<and> sv_Mode sv \<in> set (fst (SourceModes be))) news \<and>
        distinct (map sv_Name news) \<and> set (map sv_Name news) \<inter> set seen = {} \<and>
        fits be writable news)"
proof (induction entries arbitrary: seen sources writable)
  case Nil
  show ?case by (auto simp: Let_def fits_def)
next
  case (Cons entry entries)
  obtain modes d where m: "SourceModes be = (modes, d)" by fastforce
  obtain n mo where e: "split_entry d entry = (n, mo)" by fastforce
  have es: "entry_source d entry = \<lparr>sv_Name = n, sv_Mode = mo\<rparr>" by (simp add: entry_source_def e)
  show ?case
    using Cons.IH [of "n # seen" "sources @ [\<lparr>sv_Name = n, sv_Mode = mo\<rparr>]" "Suc writable"]
      Cons.IH [of "n # seen" "sources @ [\<lparr>sv_Name = n, sv_Mode = mo\<rparr>]" writable]
    by (simp only: parse_entries.simps Let_def m e prod.case volumeNameRE_iff containsString_iff)
      (auto simp: es m Let_def fits_Cons)
qed

lemma parseSourceVolumes_Inr:
  "parseSourceVolumes be n raw = Inr svs \<longleftrightarrow>
     raw \<noteq> [] \<and> int (length (split_on (CHR '','') raw)) \<le> n \<and>
     svs = map (entry_source (snd (SourceModes be))) (split_on (CHR '','') raw) \<and> valid_sources be svs"
  by (auto simp: parseSourceVolumes_def Let_def parse_entries_Inr valid_sources_def fits_def)

text \<open>C31: The source list is accepted exactly when it has at most the permitted number of entries,
  each a DNS label with a mode the backend knows (its default mode when none is given), all names
  different, and no more writable ones than the backend can take; the result has one source per
  entry, in order.\<close>

theorem parseSourceVolumes_iff:
  "parseSourceVolumes be n raw = Inr svs \<longleftrightarrow>
     raw \<noteq> [] \<and> int (length svs) \<le> n \<and>
     svs = map (entry_source (snd (SourceModes be))) (split_on (CHR '','') raw) \<and>
     list_all (\<lambda>sv. dns_label (sv_Name sv) \<and> sv_Mode sv \<in> set (fst (SourceModes be))) svs \<and>
     distinct (map sv_Name svs) \<and>
     (MaxWritable be > 0 \<longrightarrow> length (filter (\<lambda>sv. sv_Mode sv = ''RW'') svs) \<le> MaxWritable be)"
  unfolding parseSourceVolumes_Inr valid_sources_def by auto

definition show_source :: "source_volume \<Rightarrow> string" where
  "show_source sv = sv_Name sv @ ''='' @ sv_Mode sv"

definition show_sources :: "source_volume list \<Rightarrow> string" where
  "show_sources svs = join_with '','' (map show_source svs)"

lemma entry_source_print:
  "plain (sv_Name sv) \<Longrightarrow> entry_source d (show_source sv) = sv"
  by (simp add: entry_source_def show_source_def split_entry_def cut_at_append plain_no)

lemma split_show_sources:
  assumes "svs \<noteq> []" and "list_all (\<lambda>sv. plain (sv_Name sv) \<and> plain (sv_Mode sv)) svs"
  shows "split_on (CHR '','') (show_sources svs) = map show_source svs"
  unfolding show_sources_def
  by (rule split_join_with) (use assms plain_no in \<open>auto simp: show_source_def list_all_iff\<close>)

lemma parse_show_sources_aux:
  assumes "valid_sources be svs" and "list_all plain (fst (SourceModes be))"
    and "svs \<noteq> []" and "int (length svs) \<le> n"
  shows "parseSourceVolumes be n (show_sources svs) = Inr svs"
proof -
  have p: "list_all (\<lambda>sv. plain (sv_Name sv) \<and> plain (sv_Mode sv)) svs"
    using assms(1,2) dns_label_safe by (auto simp: valid_sources_def list_all_iff)
  then have "map (entry_source (snd (SourceModes be))) (map show_source svs) = svs"
    by (auto simp: list_all_iff entry_source_print intro!: map_idI)
  moreover have "show_sources svs \<noteq> []"
    using assms(3) by (cases svs) (auto simp: show_sources_def show_source_def join_with_map_eq_Nil
        dest: join_with_map_eq_Nil)
  ultimately show ?thesis
    using assms by (simp add: parseSourceVolumes_Inr split_show_sources [OF assms(3) p])
qed

text \<open>Every valid list of sources has a spelling the parser reads back, so no union a backend
  can mount is out of reach of the grammar.\<close>

theorem parse_show_sources:
  assumes "valid_sources be svs" and "list_all plain (fst (SourceModes be))"
    and "svs \<noteq> []" and "int (length svs) \<le> n"
  shows "parseSourceVolumes be n (show_sources svs) = Inr svs"
  using assms by (rule parse_show_sources_aux)

section \<open>Options\<close>

definition show_options :: "string gomap \<Rightarrow> string" where
  "show_options m = join_with '','' (map (\<lambda>(k, v). k @ ''='' @ v) m)"

lemma update_fresh: "k \<notin> fst ` set m \<Longrightarrow> AList.update k v m = m @ [(k, v)]"
  by (induction m) auto

lemma parse_pairs_print:
  "list_all (\<lambda>(k, v). k \<noteq> [] \<and> CHR ''='' \<notin> set k) m \<Longrightarrow> wf_map (m0 @ m) \<Longrightarrow>
     parse_pairs m0 (map (\<lambda>(k, v). k @ ''='' @ v) m) = Inr (m0 @ m)"
proof (induction m arbitrary: m0)
  case (Cons e m)
  obtain k v where e: "e = (k, v)" by fastforce
  then show ?case using Cons.IH [of "m0 @ [(k, v)]"] Cons.prems
    by (auto simp: cut_at_append update_fresh)
qed simp

text \<open>The option string of any option map reads back as that map: values may hold equals signs,
  the first of an entry ends the key.\<close>

theorem parse_show_options:
  assumes "wf_map m" and "list_all (\<lambda>(k, v). k \<noteq> [] \<and> CHR ''='' \<notin> set k \<and> CHR '','' \<notin> set k \<and> CHR '','' \<notin> set v) m"
  shows "parseOptions (show_options m) = Inr m"
proof (cases m)
  case Nil
  then show ?thesis by (simp add: parseOptions_def show_options_def)
next
  case (Cons e es)
  have "split_on (CHR '','') (show_options m) = map (\<lambda>(k, v). k @ ''='' @ v) m"
    unfolding show_options_def
    by (rule split_join_with) (use assms Cons in \<open>auto simp: list_all_iff\<close>)
  moreover have "parse_pairs [] (map (\<lambda>(k, v). k @ ''='' @ v) m) = Inr m"
    using parse_pairs_print [of m "[]"] assms by (auto simp: list_all_iff)
  moreover have "show_options m \<noteq> []"
    using Cons by (cases e) (auto simp: show_options_def dest: join_with_map_eq_Nil)
  ultimately show ?thesis by (simp add: parseOptions_def)
qed

end
