(* ===== verification/HostPaths.thy ===== *)
theory HostPaths
  imports GoPath
begin

text \<open>
  \<open>pkg/volsource/hostpaths.go\<close>: which host directories hostPath sources may come from. The code
  compares path strings; the lemmas show that for validated paths this is containment of
  directories, element by element.
\<close>

section \<open>Errors of the volume source package\<close>

datatype os_error = NotExist | CorruptedMnt | OtherOsError string

text \<open>The first group are the errors made by \<open>notReadyf\<close>, the second those that wrap
  \<open>ErrHostPathNotAllowed\<close>; \<open>InSource\<close> is the prefix naming the source volume.\<close>

datatype vs_error =
    PodNotFound string string
  | PVCNotFound string string
  | PVCUnbound string string
  | PVNotFound string
  | HostPathsDisabled
  | OutsideAllowed string "string list"
  | HostPathDenied string
  | LinkNotAllowed string string
  | ApiError string
  | UIDMismatch string string string string
  | NotInPodSpec string
  | NotMountedByContainer string
  | MountCycle string
  | ImageVolume
  | UnsupportedSource
  | PVCNotForPod string string
  | UnsupportedPlugin string
  | EscapesRoot string string
  | TooManyLinks string
  | RelFailed string string
  | OsFailure os_error
  | InSource string vs_error

text \<open>\<open>errors.As\<close> for \<open>NotReadyError\<close> and \<open>errors.Is\<close> for \<open>ErrHostPathNotAllowed\<close> and for a missing
  file look through the wrapping.\<close>

fun is_not_ready :: "vs_error \<Rightarrow> bool" where
  "is_not_ready (PodNotFound _ _) = True"
| "is_not_ready (PVCNotFound _ _) = True"
| "is_not_ready (PVCUnbound _ _) = True"
| "is_not_ready (PVNotFound _) = True"
| "is_not_ready (InSource _ e) = is_not_ready e"
| "is_not_ready _ = False"

fun is_not_allowed :: "vs_error \<Rightarrow> bool" where
  "is_not_allowed HostPathsDisabled = True"
| "is_not_allowed (OutsideAllowed _ _) = True"
| "is_not_allowed (HostPathDenied _) = True"
| "is_not_allowed (LinkNotAllowed _ _) = True"
| "is_not_allowed (InSource _ e) = is_not_allowed e"
| "is_not_allowed _ = False"

section \<open>The host path policy\<close>

record host_paths =
  hp_Root :: string
  hp_Allowed :: "string list"
  hp_Denied :: "string list"

fun validate_paths :: "string list \<Rightarrow> string + unit" where
  "validate_paths [] = Inr ()"
| "validate_paths (p # ps) =
     (if \<not> filepath_IsAbs p \<or> filepath_Clean p \<noteq> p then Inl p else validate_paths ps)"

definition hp_Validate :: "host_paths \<Rightarrow> string + unit" where
  "hp_Validate h = validate_paths (hp_Root h # hp_Allowed h @ hp_Denied h)"

definition under :: "string \<Rightarrow> string \<Rightarrow> bool" where
  "under p dir \<longleftrightarrow> dir = ''/'' \<or> p = dir \<or> prefix (dir @ ''/'') p"

definition underAny :: "string \<Rightarrow> string list \<Rightarrow> bool" where
  "underAny p dirs = list_ex (\<lambda>d. under p d) dirs"

definition hp_check :: "host_paths \<Rightarrow> string \<Rightarrow> vs_error + unit" where
  "hp_check h host =
     (if hp_Allowed h = [] then Inl HostPathsDisabled
      else if \<not> underAny host (hp_Allowed h) then Inl (OutsideAllowed host (hp_Allowed h))
      else if underAny host (hp_Denied h) then Inl (HostPathDenied host)
      else Inr ())"

definition reachable :: "host_paths \<Rightarrow> string \<Rightarrow> bool" where
  "reachable h host = list_ex (\<lambda>a. under host a \<or> under a host) (hp_Allowed h)"

section \<open>Containment\<close>

text \<open>\<open>p\<close> lies in the directory \<open>d\<close>, or is it.\<close>

definition inside :: "string \<Rightarrow> string \<Rightarrow> bool" where
  "inside p d \<longleftrightarrow> prefix (elems d) (elems p)"

lemma under_inside:
  assumes "abs_clean p" and "abs_clean d"
  shows "under p d \<longleftrightarrow> inside p d"
proof -
  have p: "p = render (elems p)" and d: "d = render (elems d)" using assms by (metis abs_cleanD)+
  show ?thesis
  proof (cases "elems d = []")
    case True
    then have "d = ''/''" using d by simp
    then show ?thesis by (simp add: under_def inside_def)
  next
    case False
    then have "d \<noteq> ''/''" by auto
    then have "under p d \<longleftrightarrow> render (elems p) = render (elems d) \<or>
        prefix (render (elems d) @ [slash]) (render (elems p))"
      using p d by (metis under_def)
    then show ?thesis
      using False prefix_render_iff [of "elems p" "elems d"] by (simp only: inside_def propers_elems simp_thms)
  qed
qed

lemma validate_paths_iff: "validate_paths ps = Inr () \<longleftrightarrow> list_all abs_clean ps"
  by (induction ps) (auto simp: abs_clean_def)

lemma hp_Validate_iff:
  "hp_Validate h = Inr () \<longleftrightarrow>
     abs_clean (hp_Root h) \<and> list_all abs_clean (hp_Allowed h) \<and> list_all abs_clean (hp_Denied h)"
  by (simp add: hp_Validate_def validate_paths_iff del: validate_paths.simps)

lemma underAny_inside:
  "abs_clean p \<Longrightarrow> list_all abs_clean ds \<Longrightarrow> underAny p ds \<longleftrightarrow> (\<exists>d \<in> set ds. inside p d)"
  by (auto simp: underAny_def list_ex_iff list_all_iff under_inside)

lemma hp_check_cases:
  "hp_check h p = Inl e \<Longrightarrow> is_not_allowed e"
  by (auto simp: hp_check_def split: if_splits)

lemma hp_check_Inr:
  assumes "hp_Validate h = Inr ()" and "abs_clean p"
  shows "hp_check h p = Inr () \<longleftrightarrow>
     (\<exists>a \<in> set (hp_Allowed h). inside p a) \<and> \<not> (\<exists>d \<in> set (hp_Denied h). inside p d)"
  using assms by (auto simp: hp_check_def hp_Validate_iff underAny_inside)

lemma reachable_inside:
  assumes "hp_Validate h = Inr ()" and "abs_clean p"
  shows "reachable h p \<longleftrightarrow> (\<exists>a \<in> set (hp_Allowed h). inside p a \<or> inside a p)"
  using assms by (auto simp: reachable_def hp_Validate_iff list_ex_iff list_all_iff under_inside)

text \<open>Under a validated policy, \<open>check\<close> admits a cleaned absolute path exactly when it lies, by
  directory containment and not mere string prefix, in some allowed directory and in no denied one;
  every refusal is one that \<open>errors.Is\<close> recognises as a policy refusal.\<close>

theorem hp_check_is_containment:
  assumes "hp_Validate h = Inr ()" and "abs_clean p"
  shows "(hp_check h p = Inr () \<longleftrightarrow>
       (\<exists>a \<in> set (hp_Allowed h). prefix (elems a) (elems p)) \<and>
       (\<forall>d \<in> set (hp_Denied h). \<not> prefix (elems d) (elems p))) \<and>
     (\<forall>e. hp_check h p = Inl e \<longrightarrow> is_not_allowed e)"
  using hp_check_Inr [OF assms] hp_check_cases by (auto simp: inside_def)

theorem hp_check_is_containment_witness:
  "hp_check \<lparr>hp_Root = ''/host'', hp_Allowed = [''/srv'', ''/mnt''], hp_Denied = [''/srv/secret'']\<rparr>
      ''/srv/data'' = Inr () \<and>
   hp_check \<lparr>hp_Root = ''/host'', hp_Allowed = [''/srv'', ''/mnt''], hp_Denied = [''/srv/secret'']\<rparr>
      ''/srvx'' \<noteq> Inr ()"
proof -
  let ?h = "\<lparr>hp_Root = ''/host'', hp_Allowed = [''/srv'', ''/mnt''], hp_Denied = [''/srv/secret'']\<rparr>"
  have v: "hp_Validate ?h = Inr ()" by code_simp
  have a: "abs_clean ''/srv/data''" "abs_clean ''/srvx''" by code_simp+
  have e: "elems ''/srv/data'' = [''srv'', ''data'']" "elems ''/srvx'' = [''srvx'']"
    "elems ''/srv'' = [''srv'']" "elems ''/mnt'' = [''mnt'']"
    "elems ''/srv/secret'' = [''srv'', ''secret'']" by code_simp+
  show ?thesis
    using hp_check_is_containment [OF v a(1)] hp_check_is_containment [OF v a(2)]
    by (simp add: e)
qed

section \<open>What symlink resolution relies on of a path policy\<close>

text \<open>An early refusal at a directory that is not reachable must never turn away a path the final
  check would have admitted below it.\<close>

locale path_policy =
  fixes admits :: "string \<Rightarrow> bool"
    and may_pass :: "string \<Rightarrow> bool"
  assumes refusal_final: "abs_clean d \<Longrightarrow> abs_clean p \<Longrightarrow> inside p d \<Longrightarrow> admits p \<Longrightarrow> may_pass d"
begin

lemma admitted_passes: "abs_clean p \<Longrightarrow> admits p \<Longrightarrow> may_pass p"
  by (rule refusal_final [of p p]) (simp_all add: inside_def)

lemma admitted_parents_pass:
  "propers (ds @ es) \<Longrightarrow> admits (render (ds @ es)) \<Longrightarrow> may_pass (render ds)"
  by (rule refusal_final [of "render ds" "render (ds @ es)"]) (simp_all add: inside_def)

end

lemma check_reachable:
  assumes "hp_Validate h = Inr ()" and "abs_clean d" and "abs_clean p" and "inside p d"
    and "hp_check h p = Inr ()"
  shows "reachable h d"
proof -
  obtain a where "a \<in> set (hp_Allowed h)" and "inside p a"
    using assms(5) hp_check_Inr [OF assms(1,3)] by blast
  moreover from this assms(4) have "inside d a \<or> inside a d"
    using prefix_same_cases unfolding inside_def by blast
  ultimately show ?thesis using reachable_inside [OF assms(1,2)] by blast
qed

interpretation host_policy: path_policy
  "\<lambda>p. hp_Validate h = Inr () \<and> hp_check h p = Inr ()" "reachable h" for h
  by unfold_locales (blast intro: check_reachable)

end
