(* ===== verification/RealPath.thy ===== *)
theory RealPath
  imports HostPaths
begin

text \<open>
  \<open>SourcePath\<close> and its symlink resolution, \<open>RealPath\<close> of \<open>pkg/volsource/resolve.go\<close>: links are
  followed as if the source's root were the root of the file system. The file system is a
  parameter, answering \<open>Lstat\<close> (whether the path is a symlink), \<open>Readlink\<close> and \<open>Stat\<close>; it does
  not change during one resolution.
\<close>

section \<open>Source paths\<close>

record source_path =
  sp_Name :: string
  sp_Path :: string
  sp_CSIBased :: bool
  sp_Root :: string
  sp_hostPaths :: "host_paths option"

record file_system =
  Lstat :: "string \<Rightarrow> os_error + bool"
  Readlink :: "string \<Rightarrow> os_error + string"
  Stat :: "string \<Rightarrow> os_error + unit"

definition maxSymlinks :: nat where
  "maxSymlinks = 40"

section \<open>Resolution\<close>

text \<open>The loop of \<open>RealPath\<close>: the pending components, the directory reached so far, as a path
  below the root, and the number of links followed.\<close>

function realpath_loop ::
    "file_system \<Rightarrow> source_path \<Rightarrow> string list \<Rightarrow> string \<Rightarrow> nat \<Rightarrow> vs_error + string" where
  "realpath_loop F p [] cur links = Inr cur"
| "realpath_loop F p (c # pending) cur links =
     (if c = [] \<or> c = ''.'' then realpath_loop F p pending cur links
      else if c = ''..'' then realpath_loop F p pending (filepath_Dir cur) links
      else
        (let next = filepath_Join [cur, c] in
         case Lstat F (filepath_Join [sp_Root p, next]) of
           Inl e \<Rightarrow> Inl (OsFailure e)
         | Inr False \<Rightarrow> realpath_loop F p pending next links
         | Inr True \<Rightarrow>
             if Suc links > maxSymlinks then Inl (TooManyLinks (sp_Path p))
             else
               (case Readlink F (filepath_Join [sp_Root p, next]) of
                  Inl e \<Rightarrow> Inl (OsFailure e)
                | Inr target \<Rightarrow>
                    (let cur' = (if filepath_IsAbs target then ''/'' else cur);
                         dest = filepath_Join [cur', target]
                     in if (case sp_hostPaths p of None \<Rightarrow> False | Some h \<Rightarrow> \<not> reachable h dest)
                        then Inl (LinkNotAllowed (sp_Path p) dest)
                        else realpath_loop F p (split_on slash target @ pending) cur' (Suc links)))))"
  by pat_completeness auto
termination
  by (relation "measures [\<lambda>(F, p, pending, cur, links). Suc maxSymlinks - links,
        \<lambda>(F, p, pending, cur, links). length pending]") auto

definition RealPath :: "file_system \<Rightarrow> source_path \<Rightarrow> vs_error + string" where
  "RealPath F p =
     (if sp_Root p = [] then Inr (sp_Path p)
      else
        (case filepath_Rel (sp_Root p) (sp_Path p) of
           None \<Rightarrow> Inl (RelFailed (sp_Root p) (sp_Path p))
         | Some rel \<Rightarrow>
             (case realpath_loop F p (split_on slash rel) ''/'' 0 of
                Inl e \<Rightarrow> Inl e
              | Inr cur \<Rightarrow>
                  (case sp_hostPaths p of
                     None \<Rightarrow> Inr (filepath_Join [sp_Root p, cur])
                   | Some h \<Rightarrow>
                       (case hp_check h cur of
                          Inl e \<Rightarrow> Inl e
                        | Inr _ \<Rightarrow> Inr (filepath_Join [sp_Root p, cur]))))))"

section \<open>What the loop keeps\<close>

text \<open>The directory reached is a cleaned absolute path, and no path on the way to it is a link.\<close>

definition solid :: "file_system \<Rightarrow> string \<Rightarrow> string list \<Rightarrow> bool" where
  "solid F root cs \<longleftrightarrow>
     (\<forall>bs. prefix bs cs \<longrightarrow> bs \<noteq> [] \<longrightarrow> Lstat F (render (elems root @ bs)) = Inr False)"

lemma solid_Nil [simp]: "solid F root []"
  by (simp add: solid_def)

lemma solid_prefix: "solid F root cs \<Longrightarrow> prefix bs cs \<Longrightarrow> solid F root bs"
  by (meson prefix_order.trans solid_def)

lemma solid_snoc:
  "solid F root (cs @ [c]) \<longleftrightarrow> solid F root cs \<and> Lstat F (render (elems root @ cs @ [c])) = Inr False"
  by (auto simp: solid_def)

lemma propers_butlast: "propers cs \<Longrightarrow> propers (butlast cs)"
  by (auto simp: list_all_iff dest: in_set_butlastD)

text \<open>One component that is neither empty nor a dot.\<close>

lemma next_render:
  assumes "propers cs" and "slash \<notin> set c" and "c \<noteq> []" and "c \<noteq> ''.''" and "c \<noteq> ''..''"
  shows "filepath_Join [render cs, c] = render (cs @ [c])" and "propers (cs @ [c])"
  using assms by (simp_all add: proper_def)

definition good :: "file_system \<Rightarrow> string \<Rightarrow> string \<Rightarrow> bool" where
  "good F root cur \<longleftrightarrow> (\<exists>cs. cur = render cs \<and> propers cs \<and> solid F root cs)"

lemma good_root [simp]: "good F root ''/''"
  unfolding good_def by (rule exI [of _ "[]"]) simp

lemma good_Dir: "good F root cur \<Longrightarrow> good F root (filepath_Dir cur)"
  unfolding good_def
  by (metis Dir_render prefixeq_butlast propers_butlast solid_prefix)

lemma good_next:
  assumes "good F root cur" and "filepath_IsAbs root"
    and "slash \<notin> set c" and "c \<noteq> []" and "c \<noteq> ''.''" and "c \<noteq> ''..''"
    and "Lstat F (filepath_Join [root, filepath_Join [cur, c]]) = Inr False"
  shows "good F root (filepath_Join [cur, c])"
proof -
  obtain cs where cs: "cur = render cs" "propers cs" "solid F root cs"
    using assms(1) by (auto simp: good_def)
  note nr = next_render [OF cs(2) assms(3-6)]
  have "solid F root (cs @ [c])"
    using assms(2,7) cs nr by (simp add: solid_snoc)
  then show ?thesis using cs(1) nr by (auto simp: good_def)
qed

lemma realpath_loop_good:
  assumes "realpath_loop F p pending cur links = Inr r"
    and "\<forall>c \<in> set pending. slash \<notin> set c" and "filepath_IsAbs (sp_Root p)"
    and "good F (sp_Root p) cur"
  shows "good F (sp_Root p) r"
  using assms
proof (induction F p pending cur links rule: realpath_loop.induct)
  case (1 F p cur links)
  then show ?case by simp
next
  case (2 F p c pending cur links)
  note IH = "2.IH" and prems = "2.prems"
  consider (skip) "c = [] \<or> c = ''.''" | (up) "c = ''..''"
    | (into) "c \<noteq> []" "c \<noteq> ''.''" "c \<noteq> ''..''" by blast
  then show ?case
  proof cases
    case skip
    then show ?thesis using IH(1) prems by auto
  next
    case up
    then show ?thesis using IH(2) prems good_Dir by auto
  next
    case into
    let ?q = "filepath_Join [sp_Root p, filepath_Join [cur, c]]"
    obtain b where b: "Lstat F ?q = Inr b"
      using prems(1) into by (auto simp: Let_def split: sum.splits)
    show ?thesis
    proof (cases b)
      case False
      then show ?thesis
        using IH(4) [OF _ _ refl b] into b prems good_next [of F "sp_Root p" cur c]
        by (auto simp: Let_def)
    next
      case True
      then obtain target where t: "Readlink F ?q = Inr target" and n: "Suc links \<le> maxSymlinks"
        using prems(1) into b by (auto simp: Let_def split: sum.splits if_splits)
      then show ?thesis
        using IH(3) [OF _ _ refl b _ _ t refl refl] into b True prems split_on_pieces [of _ slash target]
        by (auto simp: Let_def split: if_splits)
    qed
  qed
qed

lemma RealPath_good:
  assumes "filepath_IsAbs (sp_Root p)" and "RealPath F p = Inr q"
  obtains es where "propers es" and "q = render (elems (sp_Root p) @ es)"
    and "solid F (sp_Root p) es"
    and "\<And>h. sp_hostPaths p = Some h \<Longrightarrow> hp_check h (render es) = Inr ()"
proof -
  have "sp_Root p \<noteq> []" using assms(1) by auto
  then obtain rel cur where cur: "realpath_loop F p (split_on slash rel) ''/'' 0 = Inr cur"
    and chk: "\<And>h. sp_hostPaths p = Some h \<Longrightarrow> hp_check h cur = Inr ()"
    and q: "q = filepath_Join [sp_Root p, cur]"
    using assms(2) by (auto simp: RealPath_def split: option.splits sum.splits)
  have "good F (sp_Root p) cur"
    using realpath_loop_good [OF cur _ assms(1) good_root] split_on_pieces [of _ slash rel] by blast
  then obtain es where "cur = render es" "propers es" "solid F (sp_Root p) es"
    by (auto simp: good_def)
  then show thesis using that [of es] chk q assms(1) by simp
qed

section \<open>Properties\<close>

text \<open>C2: Whatever links the file system holds, a resolved source lies in its root directory, and
  neither it nor any directory between it and the root is a symlink any more.\<close>

theorem RealPath_contained_and_solid:
  assumes "filepath_IsAbs (sp_Root p)" and "RealPath F p = Inr q"
  shows "inside q (sp_Root p) \<and>
     (\<forall>bs. prefix bs (elems q) \<longrightarrow> length (elems (sp_Root p)) < length bs \<longrightarrow>
        Lstat F (render bs) = Inr False)"
proof (rule conjI)
  obtain es where es: "propers es" "q = render (elems (sp_Root p) @ es)" "solid F (sp_Root p) es"
    using RealPath_good [OF assms] by metis
  then have e: "elems q = elems (sp_Root p) @ es" by simp
  then show "inside q (sp_Root p)" by (simp add: inside_def)
  show "\<forall>bs. prefix bs (elems q) \<longrightarrow> length (elems (sp_Root p)) < length bs \<longrightarrow>
           Lstat F (render bs) = Inr False"
    using es(3) unfolding e by (auto simp: prefix_append solid_def dest: prefix_length_le)
qed

text \<open>A node whose \<open>/data\<close> is an absolute link to \<open>/mnt/disk\<close>, seen through \<open>/host\<close>.\<close>

definition linked_fs :: file_system where
  "linked_fs =
     \<lparr>Lstat = (\<lambda>q. Inr (q = ''/host/data'')),
      Readlink = (\<lambda>q. if q = ''/host/data'' then Inr ''/mnt/disk'' else Inl (OtherOsError ''EINVAL'')),
      Stat = (\<lambda>q. Inr ())\<rparr>"

definition linked_policy :: host_paths where
  "linked_policy = \<lparr>hp_Root = ''/host'', hp_Allowed = [''/data'', ''/mnt''], hp_Denied = [''/mnt/secret'']\<rparr>"

definition linked_source :: source_path where
  "linked_source = \<lparr>sp_Name = ''data'', sp_Path = ''/host/data'', sp_CSIBased = False,
     sp_Root = ''/host'', sp_hostPaths = Some linked_policy\<rparr>"

lemma linked_RealPath: "RealPath linked_fs linked_source = Inr ''/host/mnt/disk''"
  by code_simp

lemma linked_setup:
  "filepath_IsAbs (sp_Root linked_source)" "hp_Validate linked_policy = Inr ()"
  "sp_hostPaths linked_source = Some linked_policy"
  by code_simp+

theorem RealPath_contained_and_solid_witness:
  "inside ''/host/mnt/disk'' ''/host''"
  using RealPath_contained_and_solid [OF linked_setup(1) linked_RealPath]
  by (simp add: linked_source_def)

text \<open>C13: A hostPath source whose links have been resolved is a host directory the policy admits:
  it lies in an allowed directory and in no denied one, wherever the links led.\<close>

theorem RealPath_obeys_host_policy:
  assumes "filepath_IsAbs (sp_Root p)" and "sp_hostPaths p = Some h" and "hp_Validate h = Inr ()"
    and "RealPath F p = Inr q"
  shows "\<exists>host. abs_clean host \<and> q = filepath_Join [sp_Root p, host] \<and>
     (\<exists>a \<in> set (hp_Allowed h). inside host a) \<and> (\<forall>d \<in> set (hp_Denied h). \<not> inside host d)"
proof -
  obtain es where es: "propers es" "q = render (elems (sp_Root p) @ es)"
    "hp_check h (render es) = Inr ()"
    using RealPath_good [OF assms(1,4)] assms(2) by metis
  then have "q = filepath_Join [sp_Root p, render es]" using assms(1) by simp
  moreover have "abs_clean (render es)" using es(1) by simp
  ultimately show ?thesis using es(3) hp_check_Inr [OF assms(3)] by blast
qed

theorem RealPath_obeys_host_policy_witness:
  "\<exists>host. abs_clean host \<and> ''/host/mnt/disk'' = filepath_Join [''/host'', host] \<and>
     (\<exists>a \<in> {''/data'', ''/mnt''}. inside host a) \<and> \<not> inside host ''/mnt/secret''"
  using RealPath_obeys_host_policy [OF linked_setup(1,3,2) linked_RealPath]
  by (simp add: linked_source_def linked_policy_def)

text \<open>A path without links resolves to itself.\<close>

lemma realpath_loop_solid:
  assumes "filepath_IsAbs (sp_Root p)" and "propers (cs @ es)" and "solid F (sp_Root p) (cs @ es)"
  shows "realpath_loop F p es (render cs) links = Inr (render (cs @ es))"
  using assms
proof (induction es arbitrary: cs)
  case (Cons c es)
  then have c: "slash \<notin> set c" "c \<noteq> []" "c \<noteq> ''.''" "c \<noteq> ''..''" by (auto simp: proper_def)
  note nr = next_render [OF _ c, of cs]
  have "Lstat F (render (elems (sp_Root p) @ cs @ [c])) = Inr False"
    using Cons.prems(3) by (auto simp: solid_def)
  then have "realpath_loop F p (c # es) (render cs) links = realpath_loop F p es (render (cs @ [c])) links"
    using Cons.prems c nr by (simp add: Let_def)
  then show ?case using Cons.IH [of "cs @ [c]"] Cons.prems by simp
qed simp

lemma Rel_below:
  assumes "filepath_IsAbs root" and "propers es" and "es \<noteq> []"
  shows "filepath_Rel root (render (elems root @ es)) = Some (join_slash es)"
proof -
  have c: "clean_elems True (split_on slash (render bs)) = bs" if "propers bs" for bs
    using elems_render [OF that] by (simp add: elems_def)
  show ?thesis using assms by (simp add: filepath_Rel_def Let_def Clean_abs c)
qed

lemma Rel_same: "filepath_IsAbs root \<Longrightarrow> filepath_Rel root (render (elems root)) = Some ''.''"
  by (simp add: filepath_Rel_def Let_def Clean_abs)

lemma RealPath_solid:
  assumes "filepath_IsAbs (sp_Root p)" and "propers es" and "solid F (sp_Root p) es"
    and "sp_Path p = render (elems (sp_Root p) @ es)"
    and "\<And>h. sp_hostPaths p = Some h \<Longrightarrow> hp_check h (render es) = Inr ()"
  shows "RealPath F p = Inr (sp_Path p)"
proof -
  have r: "sp_Root p \<noteq> []" using assms(1) by auto
  have "\<exists>rel. filepath_Rel (sp_Root p) (sp_Path p) = Some rel \<and>
      realpath_loop F p (split_on slash rel) ''/'' 0 = Inr (render es)"
  proof (cases "es = []")
    case True
    then show ?thesis using Rel_same assms(1,4) by simp
  next
    case False
    moreover have "split_on slash (join_slash es) = es"
      using assms(2) False by (auto simp: join_slash_def list_all_iff proper_def split_join_with)
    ultimately show ?thesis
      using Rel_below [OF assms(1,2)] assms realpath_loop_solid [of p "[]" es F 0] by simp
  qed
  then obtain rel where "filepath_Rel (sp_Root p) (sp_Path p) = Some rel"
    and "realpath_loop F p (split_on slash rel) ''/'' 0 = Inr (render es)" by blast
  then show ?thesis using r assms by (simp add: RealPath_def split: option.split)
qed

text \<open>Resolution is idempotent: resolving the path it returned gives that path again, under the
  same root and policy, so a second look at the source cannot be led anywhere else.\<close>

theorem RealPath_idempotent:
  assumes "filepath_IsAbs (sp_Root p)" and "RealPath F p = Inr q"
  shows "RealPath F (p\<lparr>sp_Path := q\<rparr>) = Inr q"
proof -
  obtain es where es: "propers es" "q = render (elems (sp_Root p) @ es)" "solid F (sp_Root p) es"
    "\<And>h. sp_hostPaths p = Some h \<Longrightarrow> hp_check h (render es) = Inr ()"
    using RealPath_good [OF assms] by metis
  then show ?thesis using RealPath_solid [of "p\<lparr>sp_Path := q\<rparr>" es F] assms(1) by simp
qed

theorem RealPath_idempotent_witness:
  "RealPath linked_fs (linked_source\<lparr>sp_Path := ''/host/mnt/disk''\<rparr>) = Inr ''/host/mnt/disk''"
  by (rule RealPath_idempotent [OF linked_setup(1) linked_RealPath])

end
