(* ===== verification/Ready.thy ===== *)
theory Ready
  imports RealPath
begin

text \<open>
  \<open>pkg/volsource/ready.go\<close>: waiting until every source is set up. The node is a state the waiting
  process only reads; \<open>Tick\<close> is what happens to it until the next tick of the polling timer. One
  poll looks at a snapshot of the node. The loop need not end, so it is a partial function to
  options, and that it ends is proved.
\<close>

section \<open>One poll\<close>

record 'w host =
  IsMountPoint :: "'w \<Rightarrow> string \<Rightarrow> os_error + bool"
  files :: "'w \<Rightarrow> file_system"
  Now :: "'w \<Rightarrow> int"
  Done :: "'w \<Rightarrow> string option"
  Tick :: "'w \<Rightarrow> 'w"

definition isReady :: "'w host \<Rightarrow> 'w \<Rightarrow> source_path \<Rightarrow> vs_error + bool" where
  "isReady H w p =
     (if \<not> sp_CSIBased p then
        (case (case RealPath (files H w) p of
                 Inl e \<Rightarrow> Inl e
               | Inr path \<Rightarrow>
                   (case Stat (files H w) path of Inl e \<Rightarrow> Inl (OsFailure e) | Inr _ \<Rightarrow> Inr ())) of
           Inl e \<Rightarrow> if e = OsFailure NotExist then Inr False else Inl e
         | Inr _ \<Rightarrow> Inr True)
      else
        (case IsMountPoint H w (sp_Path p) of
           Inl e \<Rightarrow>
             if e = NotExist then Inr False
             else if e = CorruptedMnt then Inr False
             else Inl (OsFailure e)
         | Inr b \<Rightarrow> Inr b))"

text \<open>The loop over the sources; \<open>pending\<close> are the names found so far.\<close>

fun not_ready_loop :: "'w host \<Rightarrow> 'w \<Rightarrow> source_path list \<Rightarrow> string list \<Rightarrow> vs_error + string list" where
  "not_ready_loop H w [] pending = Inr pending"
| "not_ready_loop H w (p # ps) pending =
     (case isReady H w p of
        Inl e \<Rightarrow>
          if is_not_allowed e then Inl e else not_ready_loop H w ps (pending @ [sp_Name p])
      | Inr b \<Rightarrow>
          if b then not_ready_loop H w ps pending else not_ready_loop H w ps (pending @ [sp_Name p]))"

definition notReady :: "'w host \<Rightarrow> 'w \<Rightarrow> source_path list \<Rightarrow> vs_error + string list" where
  "notReady H w ps = not_ready_loop H w ps []"

section \<open>The wait\<close>

datatype wait_error =
    Refused vs_error
  | TimedOut "string list"
  | ContextDone string

text \<open>\<open>pollInterval\<close> is 250 ms; a timer tick is what lets the loop take another turn.\<close>

partial_function (option) wait_loop ::
    "'w host \<Rightarrow> source_path list \<Rightarrow> int \<Rightarrow> 'w \<Rightarrow> ((wait_error + unit) \<times> 'w) option" where
  "wait_loop H ps deadline w =
     (case notReady H w ps of
        Inl e \<Rightarrow> Some (Inl (Refused e), w)
      | Inr pending \<Rightarrow>
          if pending = [] then Some (Inr (), w)
          else if Now H w > deadline then Some (Inl (TimedOut pending), w)
          else (case Done H w of
              Some e \<Rightarrow> Some (Inl (ContextDone e), w)
            | None \<Rightarrow> wait_loop H ps deadline (Tick H w)))"

definition WaitReady ::
    "'w host \<Rightarrow> source_path list \<Rightarrow> int \<Rightarrow> 'w \<Rightarrow> ((wait_error + unit) \<times> 'w) option" where
  "WaitReady H ps timeout w = wait_loop H ps (Now H w + timeout) w"

declare wait_loop.simps [code]

section \<open>What a poll finds\<close>

text \<open>The directory a source stands for is there: a mount where kubelet mounts one, otherwise a
  path that resolves within its root and exists.\<close>

definition set_up :: "'w host \<Rightarrow> 'w \<Rightarrow> source_path \<Rightarrow> bool" where
  "set_up H w p \<longleftrightarrow>
     (if sp_CSIBased p then IsMountPoint H w (sp_Path p) = Inr True
      else (\<exists>q. RealPath (files H w) p = Inr q \<and> Stat (files H w) q = Inr ()))"

lemma isReady_True_iff: "isReady H w p = Inr True \<longleftrightarrow> set_up H w p"
  by (auto simp: isReady_def set_up_def split: sum.splits if_splits)

text \<open>The policy refuses the source for good.\<close>

definition refused :: "'w host \<Rightarrow> 'w \<Rightarrow> source_path \<Rightarrow> vs_error \<Rightarrow> bool" where
  "refused H w p e \<longleftrightarrow> \<not> sp_CSIBased p \<and> RealPath (files H w) p = Inl e \<and> is_not_allowed e"

lemma isReady_refused_iff: "isReady H w p = Inl e \<and> is_not_allowed e \<longleftrightarrow> refused H w p e"
  by (auto simp: isReady_def refused_def split: sum.splits if_splits)

lemma not_ready_loop_Inr:
  "not_ready_loop H w ps pending = Inr names \<longleftrightarrow>
     (\<forall>p \<in> set ps. \<nexists>e. refused H w p e) \<and>
     names = pending @ map sp_Name (filter (\<lambda>p. \<not> set_up H w p) ps)"
proof (induction ps arbitrary: pending)
  case (Cons p ps)
  show ?case
  proof (cases "isReady H w p")
    case (Inl e)
    have "\<not> set_up H w p" using Inl by (simp add: isReady_True_iff [symmetric])
    moreover have "(\<exists>e'. refused H w p e') \<longleftrightarrow> is_not_allowed e"
      using Inl by (simp add: isReady_refused_iff [symmetric])
    ultimately show ?thesis using Inl by (cases "is_not_allowed e") (simp_all add: Cons.IH)
  next
    case (Inr b)
    have "set_up H w p \<longleftrightarrow> b" using Inr by (simp add: isReady_True_iff [symmetric])
    moreover have "\<nexists>e'. refused H w p e'" using Inr by (simp add: isReady_refused_iff [symmetric])
    ultimately show ?thesis using Inr by (cases b) (simp_all add: Cons.IH)
  qed
qed auto

lemma not_ready_loop_Inl:
  "not_ready_loop H w ps pending = Inl e \<Longrightarrow> \<exists>p \<in> set ps. refused H w p e"
proof (induction ps arbitrary: pending)
  case (Cons p ps)
  show ?case
  proof (cases "isReady H w p")
    case (Inl e')
    then show ?thesis
      using Cons isReady_refused_iff [of H w p e'] by (cases "is_not_allowed e'") auto
  next
    case (Inr b)
    then show ?thesis using Cons by (cases b) auto
  qed
qed simp

lemma notReady_Inr:
  "notReady H w ps = Inr names \<longleftrightarrow>
     (\<forall>p \<in> set ps. \<nexists>e. refused H w p e) \<and> names = map sp_Name (filter (\<lambda>p. \<not> set_up H w p) ps)"
  by (simp add: notReady_def not_ready_loop_Inr)

lemma notReady_Inl: "notReady H w ps = Inl e \<Longrightarrow> \<exists>p \<in> set ps. refused H w p e"
  by (simp add: notReady_def not_ready_loop_Inl)

section \<open>The wait as the first poll that decides\<close>

definition verdict :: "'w host \<Rightarrow> source_path list \<Rightarrow> int \<Rightarrow> 'w \<Rightarrow> (wait_error + unit) option" where
  "verdict H ps deadline w =
     (case notReady H w ps of
        Inl e \<Rightarrow> Some (Inl (Refused e))
      | Inr pending \<Rightarrow>
          if pending = [] then Some (Inr ())
          else if Now H w > deadline then Some (Inl (TimedOut pending))
          else map_option (\<lambda>e. Inl (ContextDone e)) (Done H w))"

lemma wait_loop_verdict:
  "wait_loop H ps d w =
     (case verdict H ps d w of Some r \<Rightarrow> Some (r, w) | None \<Rightarrow> wait_loop H ps d (Tick H w))"
  by (subst wait_loop.simps) (auto simp: verdict_def split: sum.splits option.splits)

lemma wait_loop_decided:
  "(\<And>i. i < n \<Longrightarrow> verdict H ps d ((Tick H ^^ i) w) = None) \<Longrightarrow>
     verdict H ps d ((Tick H ^^ n) w) = Some r \<Longrightarrow>
     wait_loop H ps d w = Some (r, (Tick H ^^ n) w)"
proof (induction n arbitrary: w)
  case 0
  then show ?case by (subst wait_loop_verdict) simp
next
  case (Suc n)
  have "verdict H ps d ((Tick H ^^ i) (Tick H w)) = None" if "i < n" for i
    using Suc.prems(1) [of "Suc i"] that by (simp add: funpow_swap1)
  then have "wait_loop H ps d (Tick H w) = Some (r, (Tick H ^^ n) (Tick H w))"
    using Suc.IH [of "Tick H w"] Suc.prems(2) by (simp add: funpow_swap1)
  moreover have "verdict H ps d w = None" using Suc.prems(1) [of 0] by simp
  ultimately show ?case by (subst wait_loop_verdict) (simp add: funpow_swap1)
qed

lemma wait_loop_some:
  assumes "wait_loop H ps d w = Some y"
  shows "\<exists>n. snd y = (Tick H ^^ n) w \<and> verdict H ps d (snd y) = Some (fst y) \<and>
    (\<forall>i < n. verdict H ps d ((Tick H ^^ i) w) = None)"
  using assms
proof (induction H ps d w y rule: wait_loop.raw_induct [rotated, consumes 1, case_names step])
  case (step loop H ps d w y)
  show ?case
  proof (cases "verdict H ps d w")
    case (Some r)
    then have "y = (r, w)" using step(2)
      by (auto simp: verdict_def split: sum.splits if_splits option.splits)
    then show ?thesis using Some by (intro exI [of _ 0]) simp
  next
    case None
    then have "loop H ps d (Tick H w) = Some y" using step(2)
      by (auto simp: verdict_def split: sum.splits if_splits option.splits)
    from step(1) [OF this] obtain n where n: "snd y = (Tick H ^^ n) (Tick H w)"
      "verdict H ps d (snd y) = Some (fst y)"
      "\<forall>i < n. verdict H ps d ((Tick H ^^ i) (Tick H w)) = None" by blast
    then have "\<forall>i < Suc n. verdict H ps d ((Tick H ^^ i) w) = None"
      using None by (simp add: All_less_Suc2 funpow_swap1)
    then show ?thesis using n by (intro exI [of _ "Suc n"]) (simp add: funpow_swap1)
  qed
qed

lemma wait_loop_iff:
  "wait_loop H ps d w = Some (r, w') \<longleftrightarrow>
     (\<exists>n. w' = (Tick H ^^ n) w \<and> verdict H ps d w' = Some r \<and>
       (\<forall>i < n. verdict H ps d ((Tick H ^^ i) w) = None))"
  using wait_loop_some [of H ps d w "(r, w')"] wait_loop_decided [of _ H ps d w r] by auto

text \<open>The wait returns with what the first poll that decides the matter found: a refusal, all
  sources set up, the deadline passed, or the request abandoned; no later poll is made and no
  earlier one is passed over.\<close>

theorem WaitReady_first_verdict:
  "WaitReady H ps timeout w = Some (r, w') \<longleftrightarrow>
     (\<exists>n. w' = (Tick H ^^ n) w \<and> verdict H ps (Now H w + timeout) w' = Some r \<and>
       (\<forall>i < n. verdict H ps (Now H w + timeout) ((Tick H ^^ i) w) = None))"
  by (simp add: WaitReady_def wait_loop_iff)

lemma verdict_late:
  "Now H w > d \<Longrightarrow> \<exists>r. verdict H ps d w = Some r"
  by (auto simp: verdict_def split: sum.split)

text \<open>The wait never blocks for good: if the clock passes the deadline at some tick, it returns,
  whatever the sources do.\<close>

theorem WaitReady_returns:
  assumes "Now H ((Tick H ^^ n) w) > Now H w + timeout"
  shows "\<exists>r w'. WaitReady H ps timeout w = Some (r, w')"
proof -
  let ?v = "\<lambda>i. verdict H ps (Now H w + timeout) ((Tick H ^^ i) w)"
  obtain r where "?v n = Some r" using verdict_late [OF assms] by blast
  then have ex: "\<exists>i. ?v i \<noteq> None" by auto
  define m where "m = (LEAST i. ?v i \<noteq> None)"
  have "?v m \<noteq> None" unfolding m_def by (rule LeastI_ex [OF ex])
  moreover have "?v i = None" if "i < m" for i using not_less_Least that unfolding m_def by blast
  ultimately show ?thesis unfolding WaitReady_def wait_loop_iff by auto
qed

text \<open>What a result says of the node at the time: success means every source is set up; a
  timeout names exactly the sources that are not, and the deadline has passed; a refusal is a
  policy refusal of one of the sources.\<close>

theorem WaitReady_outcome:
  assumes "WaitReady H ps timeout w = Some (r, w')"
  shows "case r of
      Inr _ \<Rightarrow> \<forall>p \<in> set ps. set_up H w' p
    | Inl (Refused e) \<Rightarrow> \<exists>p \<in> set ps. refused H w' p e
    | Inl (TimedOut names) \<Rightarrow> Now H w' > Now H w + timeout \<and> names \<noteq> [] \<and>
        names = map sp_Name (filter (\<lambda>p. \<not> set_up H w' p) ps)
    | Inl (ContextDone e) \<Rightarrow> Done H w' = Some e \<and> (\<exists>p \<in> set ps. \<not> set_up H w' p)"
proof -
  have verdict: "verdict H ps (Now H w + timeout) w' = Some r"
    using assms unfolding WaitReady_def wait_loop_iff by blast
  show ?thesis
  proof (cases "notReady H w' ps")
    case (Inl e)
    then show ?thesis using verdict notReady_Inl [OF Inl] by (auto simp: verdict_def)
  next
    case (Inr names)
    then have names: "names = map sp_Name (filter (\<lambda>p. \<not> set_up H w' p) ps)"
      by (simp add: notReady_Inr)
    then have "names = [] \<longleftrightarrow> (\<forall>p \<in> set ps. set_up H w' p)" by (auto simp: filter_empty_conv)
    then show ?thesis using verdict Inr names
      by (auto simp: verdict_def split: if_splits)
  qed
qed

section \<open>A mount that comes up late\<close>

text \<open>The state is the number of ticks; the source is mounted from the second tick on.\<close>

definition late_mount :: "nat \<Rightarrow> string \<Rightarrow> os_error + bool" where
  "late_mount w path = (if w = 0 then Inl NotExist else Inr (2 \<le> w))"

definition late_host :: "nat host" where
  "late_host = \<lparr>IsMountPoint = late_mount, files = (\<lambda>w. linked_fs), Now = (\<lambda>w. 250 * int w),
     Done = (\<lambda>w. None), Tick = Suc\<rparr>"

definition late_source :: source_path where
  "late_source = \<lparr>sp_Name = ''db'', sp_Path = ''/m/db/mount'', sp_CSIBased = True, sp_Root = ''/m'',
     sp_hostPaths = None\<rparr>"

lemma late_tick: "(Tick late_host ^^ n) w = w + n"
  by (induction n) (simp_all add: late_host_def)

lemma late_now: "Now late_host w = 250 * int w"
  by (simp add: late_host_def)

lemma late_verdict:
  "verdict late_host [late_source] d w =
     (if 2 \<le> w then Some (Inr ()) else if 250 * int w > d then Some (Inl (TimedOut [''db''])) else None)"
  by (simp add: verdict_def notReady_def isReady_def late_source_def late_host_def late_mount_def)

theorem WaitReady_first_verdict_witness:
  "WaitReady late_host [late_source] 1000 0 = Some (Inr (), 2)"
  by (rule iffD2 [OF WaitReady_first_verdict], rule exI [of _ 2])
    (simp add: late_tick late_verdict late_now)

theorem WaitReady_returns_witness:
  "\<exists>r w'. WaitReady late_host [late_source] 1000 0 = Some (r, w')"
proof -
  have "Now late_host ((Tick late_host ^^ 5) 0) > Now late_host 0 + 1000"
    unfolding late_tick late_now by simp
  then show ?thesis by (rule WaitReady_returns)
qed

lemma late_times_out: "WaitReady late_host [late_source] 100 0 = Some (Inl (TimedOut [''db'']), 1)"
proof -
  have "wait_loop late_host [late_source] 100 0 = Some (Inl (TimedOut [''db'']), (Tick late_host ^^ 1) 0)"
    by (rule wait_loop_decided) (simp_all only: late_tick late_verdict, simp_all)
  then show ?thesis by (simp add: WaitReady_def late_tick [of 1, simplified] late_now)
qed

theorem WaitReady_outcome_witness:
  "\<not> set_up late_host 1 late_source"
  using WaitReady_outcome [OF late_times_out] by (auto split: if_splits)

end
