(* ===== verification/Resolver.thy ===== *)
theory Resolver
  imports RealPath
begin

text \<open>
  \<open>pkg/volsource/resolve.go\<close>: from the volume names of a pod to the directories kubelet sets up
  for them. The Kubernetes objects are records of the fields the code reads; the API server is a
  parameter.
\<close>

section \<open>Kubernetes objects\<close>

record csi_source =
  csi_Driver :: string
  csi_VolumeAttributes :: "string gomap"
  csi_ReadOnly :: "bool option"

text \<open>The pointers of a pod volume: what is only compared with nil is a flag.\<close>

record volume =
  vol_Name :: string
  vol_PersistentVolumeClaim :: "string option"
  vol_Ephemeral :: bool
  vol_CSI :: "csi_source option"
  vol_EmptyDir :: bool
  vol_ConfigMap :: bool
  vol_Secret :: bool
  vol_DownwardAPI :: bool
  vol_Projected :: bool
  vol_HostPath :: "string option"
  vol_NFS :: bool
  vol_ISCSI :: bool
  vol_FC :: bool
  vol_Image :: bool

record container =
  VolumeMounts :: "string list"
  VolumeDevices :: "string list"

record pod =
  pod_Name :: string
  pod_Namespace :: string
  pod_UID :: string
  pod_Volumes :: "volume list"
  InitContainers :: "container list"
  Containers :: "container list"
  EphemeralContainers :: "container list"

record pvc =
  pvc_VolumeName :: string
  pvc_ControllerUID :: "string option"

record pv =
  pv_Name :: string
  pv_CSI :: bool
  pv_HostPath :: "string option"
  pv_Local :: bool
  pv_NFS :: bool
  pv_ISCSI :: bool
  pv_FC :: bool

datatype 'a api_result = Found 'a | NotFound | ApiFailure string

record api =
  get_pod :: "string \<Rightarrow> string \<Rightarrow> pod api_result"
  get_pvc :: "string \<Rightarrow> string \<Rightarrow> pvc api_result"
  get_pv :: "string \<Rightarrow> pv api_result"
  IsControlledBy :: "pvc \<Rightarrow> pod \<Rightarrow> bool"

section \<open>The resolver\<close>

record resolver =
  client :: api
  kubeletRoot :: string
  hostPaths :: host_paths
  ownDriverName :: string

definition NewResolver :: "api \<Rightarrow> string \<Rightarrow> host_paths \<Rightarrow> string \<Rightarrow> resolver" where
  "NewResolver c root h name =
     \<lparr>client = c, kubeletRoot = root, hostPaths = h, ownDriverName = name\<rparr>"

definition GetPod :: "resolver \<Rightarrow> string \<Rightarrow> string \<Rightarrow> string \<Rightarrow> vs_error + pod" where
  "GetPod r podNamespace podName podUID =
     (case get_pod (client r) podNamespace podName of
        NotFound \<Rightarrow> Inl (PodNotFound podNamespace podName)
      | ApiFailure e \<Rightarrow> Inl (ApiError e)
      | Found p \<Rightarrow>
          if pod_UID p \<noteq> podUID then Inl (UIDMismatch podNamespace podName (pod_UID p) podUID)
          else Inr p)"

definition ReferencedVolumes :: "pod \<Rightarrow> string list" where
  "ReferencedVolumes p =
     concat (map (\<lambda>c. VolumeMounts c @ VolumeDevices c)
       (InitContainers p @ Containers p @ EphemeralContainers p))"

text \<open>A source below the pod's volumes directory.\<close>

definition pod_source :: "string \<Rightarrow> volume \<Rightarrow> string list \<Rightarrow> bool \<Rightarrow> source_path" where
  "pod_source podVolumesRoot vol parts csiBased =
     \<lparr>sp_Name = vol_Name vol, sp_Path = filepath_Join (podVolumesRoot # parts),
      sp_CSIBased = csiBased, sp_Root = podVolumesRoot, sp_hostPaths = None\<rparr>"

definition hostPath :: "resolver \<Rightarrow> string \<Rightarrow> string \<Rightarrow> vs_error + source_path" where
  "hostPath r name h =
     (let host = filepath_Join [''/'', h] in
      case hp_check (hostPaths r) host of
        Inl e \<Rightarrow> Inl e
      | Inr _ \<Rightarrow>
          Inr \<lparr>sp_Name = name, sp_Path = filepath_Join [hp_Root (hostPaths r), host],
               sp_CSIBased = False, sp_Root = hp_Root (hostPaths r),
               sp_hostPaths = Some (hostPaths r)\<rparr>)"

text \<open>The switch over the bound PV.\<close>

definition resolve_pv :: "resolver \<Rightarrow> string \<Rightarrow> volume \<Rightarrow> pv \<Rightarrow> vs_error + source_path" where
  "resolve_pv r podVolumesRoot vol v =
     (if pv_CSI v then
        Inr (pod_source podVolumesRoot vol [''kubernetes.io~csi'', pv_Name v, ''mount''] True)
      else (case pv_HostPath v of
        Some h \<Rightarrow> hostPath r (vol_Name vol) h
      | None \<Rightarrow>
          if pv_Local v then
            Inr (pod_source podVolumesRoot vol [''kubernetes.io~local-volume'', pv_Name v] True)
          else if pv_NFS v then
            Inr (pod_source podVolumesRoot vol [''kubernetes.io~nfs'', pv_Name v] True)
          else if pv_ISCSI v then
            Inr (pod_source podVolumesRoot vol [''kubernetes.io~iscsi'', pv_Name v] True)
          else if pv_FC v then
            Inr (pod_source podVolumesRoot vol [''kubernetes.io~fc'', pv_Name v] True)
          else Inl (UnsupportedPlugin (pv_Name v))))"

text \<open>\<open>claim\<close> is the name in a \<open>PersistentVolumeClaim\<close> volume; an ephemeral volume's claim is named
  after pod and volume.\<close>

definition resolvePVC :: "resolver \<Rightarrow> pod \<Rightarrow> string \<Rightarrow> volume \<Rightarrow> vs_error + source_path" where
  "resolvePVC r p podVolumesRoot vol =
     (let claimName =
            (if vol_Ephemeral vol then pod_Name p @ ''-'' @ vol_Name vol
             else (case vol_PersistentVolumeClaim vol of None \<Rightarrow> [] | Some c \<Rightarrow> c)) in
      case get_pvc (client r) (pod_Namespace p) claimName of
        NotFound \<Rightarrow> Inl (PVCNotFound (pod_Namespace p) claimName)
      | ApiFailure e \<Rightarrow> Inl (ApiError e)
      | Found c \<Rightarrow>
          if vol_Ephemeral vol \<and> \<not> IsControlledBy (client r) c p
          then Inl (PVCNotForPod (pod_Namespace p) claimName)
          else if pvc_VolumeName c = [] then Inl (PVCUnbound (pod_Namespace p) claimName)
          else (case get_pv (client r) (pvc_VolumeName c) of
              NotFound \<Rightarrow> Inl (PVNotFound (pvc_VolumeName c))
            | ApiFailure e \<Rightarrow> Inl (ApiError e)
            | Found v \<Rightarrow> resolve_pv r podVolumesRoot vol v))"

definition resolveOne :: "resolver \<Rightarrow> pod \<Rightarrow> string \<Rightarrow> volume \<Rightarrow> vs_error + source_path" where
  "resolveOne r p podVolumesRoot vol =
     (let plain_dir = (\<lambda>plugin. Inr (pod_source podVolumesRoot vol [plugin, vol_Name vol] False));
          mounted = (\<lambda>plugin. Inr (pod_source podVolumesRoot vol [plugin, vol_Name vol] True)) in
      if vol_PersistentVolumeClaim vol \<noteq> None \<or> vol_Ephemeral vol then resolvePVC r p podVolumesRoot vol
      else (case vol_CSI vol of
        Some c \<Rightarrow>
          if csi_Driver c = ownDriverName r then Inl (MountCycle (ownDriverName r))
          else Inr (pod_source podVolumesRoot vol [''kubernetes.io~csi'', vol_Name vol, ''mount''] True)
      | None \<Rightarrow>
          if vol_EmptyDir vol then plain_dir ''kubernetes.io~empty-dir''
          else if vol_ConfigMap vol then plain_dir ''kubernetes.io~configmap''
          else if vol_Secret vol then plain_dir ''kubernetes.io~secret''
          else if vol_DownwardAPI vol then plain_dir ''kubernetes.io~downward-api''
          else if vol_Projected vol then plain_dir ''kubernetes.io~projected''
          else (case vol_HostPath vol of
            Some h \<Rightarrow> hostPath r (vol_Name vol) h
          | None \<Rightarrow>
              if vol_NFS vol then mounted ''kubernetes.io~nfs''
              else if vol_ISCSI vol then mounted ''kubernetes.io~iscsi''
              else if vol_FC vol then mounted ''kubernetes.io~fc''
              else if vol_Image vol then Inl ImageVolume
              else Inl UnsupportedSource)))"

definition assertContained :: "string \<Rightarrow> string \<Rightarrow> vs_error + unit" where
  "assertContained root resolved =
     (let root = filepath_Clean root; resolved = filepath_Clean resolved in
      if resolved \<noteq> root \<and> \<not> prefix (root @ ''/'') resolved then Inl (EscapesRoot resolved root)
      else Inr ())"

text \<open>One turn of the loop; a later volume of the same name replaces an earlier one in the map.\<close>

definition resolve_name :: "resolver \<Rightarrow> pod \<Rightarrow> string \<Rightarrow> vs_error + source_path" where
  "resolve_name r p name =
     (let podVolumesRoot = filepath_Join [kubeletRoot r, ''pods'', pod_UID p, ''volumes''] in
      case map_of (rev (map (\<lambda>v. (vol_Name v, v)) (pod_Volumes p))) name of
        None \<Rightarrow> Inl (NotInPodSpec name)
      | Some vol \<Rightarrow>
          if name \<notin> set (ReferencedVolumes p) then Inl (NotMountedByContainer name)
          else (case resolveOne r p podVolumesRoot vol of
              Inl e \<Rightarrow> Inl (InSource name e)
            | Inr sp \<Rightarrow>
                if sp_Root sp \<noteq> [] then
                  (case assertContained (sp_Root sp) (sp_Path sp) of
                     Inl e \<Rightarrow> Inl (InSource name e)
                   | Inr _ \<Rightarrow> Inr sp)
                else Inr sp))"

definition ResolveIn :: "resolver \<Rightarrow> pod \<Rightarrow> string list \<Rightarrow> vs_error + source_path list" where
  "ResolveIn r p names = traverse (resolve_name r p) names"

definition resolver_Resolve ::
    "resolver \<Rightarrow> string \<Rightarrow> string \<Rightarrow> string \<Rightarrow> string list \<Rightarrow> vs_error + source_path list" where
  "resolver_Resolve r podNamespace podName podUID names =
     (case GetPod r podNamespace podName podUID of
        Inl e \<Rightarrow> Inl e
      | Inr p \<Rightarrow> ResolveIn r p names)"

section \<open>Containment\<close>

lemma assertContained_inside:
  assumes "filepath_IsAbs root" and "filepath_IsAbs p" and "elems root \<noteq> []"
  shows "assertContained root p = Inr () \<longleftrightarrow> inside p root"
  using assms prefix_render_iff [of "elems p" "elems root"]
  by (auto simp: assertContained_def Let_def Clean_abs inside_def)

text \<open>The volume a name stands for.\<close>

definition volume_named :: "pod \<Rightarrow> string \<Rightarrow> volume option" where
  "volume_named p name = map_of (rev (map (\<lambda>v. (vol_Name v, v)) (pod_Volumes p))) name"

lemma volume_named_Name: "volume_named p name = Some v \<Longrightarrow> vol_Name v = name \<and> v \<in> set (pod_Volumes p)"
  by (auto simp: volume_named_def dest!: map_of_SomeD)

lemma hostPath_Inr:
  "hostPath r name h = Inr sp \<Longrightarrow>
     sp_Name sp = name \<and> sp_Root sp = hp_Root (hostPaths r) \<and> sp_hostPaths sp = Some (hostPaths r) \<and>
     \<not> sp_CSIBased sp"
  by (auto simp: hostPath_def Let_def split: sum.splits)

text \<open>A source comes from the pod's volumes directory or from the host path mount.\<close>

definition source_origin :: "resolver \<Rightarrow> pod \<Rightarrow> string \<Rightarrow> source_path \<Rightarrow> bool" where
  "source_origin r p name sp \<longleftrightarrow>
     sp_Name sp = name \<and>
     (sp_Root sp = filepath_Join [kubeletRoot r, ''pods'', pod_UID p, ''volumes''] \<and> sp_hostPaths sp = None \<or>
      sp_Root sp = hp_Root (hostPaths r) \<and> sp_hostPaths sp = Some (hostPaths r))"

lemma pod_source_origin:
  "vol_Name vol = name \<Longrightarrow>
     source_origin r p name
       (pod_source (filepath_Join [kubeletRoot r, ''pods'', pod_UID p, ''volumes'']) vol parts b)"
  by (simp add: pod_source_def source_origin_def)

lemma resolveOne_origin:
  assumes "resolveOne r p (filepath_Join [kubeletRoot r, ''pods'', pod_UID p, ''volumes'']) vol = Inr sp"
    and "vol_Name vol = name"
  shows "source_origin r p name sp"
proof -
  have hp: "source_origin r p name sp" if "hostPath r name h = Inr sp" for h
    using hostPath_Inr [OF that] by (simp add: source_origin_def)
  have pv: "source_origin r p name sp"
    if "resolve_pv r (filepath_Join [kubeletRoot r, ''pods'', pod_UID p, ''volumes'']) vol v = Inr sp" for v
    using that hp assms(2)
    by (auto simp: resolve_pv_def pod_source_origin split: if_splits option.splits)
  have "source_origin r p name sp"
    if "resolvePVC r p (filepath_Join [kubeletRoot r, ''pods'', pod_UID p, ''volumes'']) vol = Inr sp"
    using that pv by (auto simp: resolvePVC_def Let_def split: api_result.splits if_splits)
  then show ?thesis
    using assms hp by (auto simp: resolveOne_def Let_def pod_source_origin split: if_splits option.splits)
qed

lemma resolve_name_Inr:
  assumes "resolve_name r p name = Inr sp"
  shows "source_origin r p name sp" and "name \<in> set (ReferencedVolumes p)"
    and "sp_Root sp \<noteq> [] \<Longrightarrow> assertContained (sp_Root sp) (sp_Path sp) = Inr ()"
    and "\<exists>vol. volume_named p name = Some vol \<and>
      resolveOne r p (filepath_Join [kubeletRoot r, ''pods'', pod_UID p, ''volumes'']) vol = Inr sp"
proof -
  obtain vol where vol: "volume_named p name = Some vol"
    and one: "resolveOne r p (filepath_Join [kubeletRoot r, ''pods'', pod_UID p, ''volumes'']) vol = Inr sp"
    and ref: "name \<in> set (ReferencedVolumes p)"
    and cont: "sp_Root sp \<noteq> [] \<Longrightarrow> assertContained (sp_Root sp) (sp_Path sp) = Inr ()"
    using assms by (auto simp: resolve_name_def volume_named_def Let_def
        split: option.splits if_splits sum.splits)
  show "source_origin r p name sp"
    using resolveOne_origin [OF one] volume_named_Name [OF vol] by simp
  show "name \<in> set (ReferencedVolumes p)" by (rule ref)
  show "sp_Root sp \<noteq> [] \<Longrightarrow> assertContained (sp_Root sp) (sp_Path sp) = Inr ()" by (rule cont)
  show "\<exists>vol. volume_named p name = Some vol \<and>
      resolveOne r p (filepath_Join [kubeletRoot r, ''pods'', pod_UID p, ''volumes'']) vol = Inr sp"
    using vol one by blast
qed

lemma assertContained_root:
  assumes "filepath_IsAbs root" and "filepath_IsAbs p" and "elems root = []"
  shows "assertContained root p = Inr () \<longleftrightarrow> elems p = []"
proof -
  have "prefix ''//'' (render es) \<longleftrightarrow> False" if es: "propers es" for es
  proof (cases es)
    case (Cons e es')
    then obtain c e' where "e = c # e'" "c \<noteq> slash"
      using es by (cases e) (auto simp: proper_def)
    then show ?thesis using Cons by (cases es') (auto simp: render_def join_slash_def)
  qed simp
  then show ?thesis using assms by (simp add: assertContained_def Let_def Clean_abs)
qed

lemma assertContained_cases:
  assumes "filepath_IsAbs root" and "filepath_IsAbs p"
  shows "assertContained root p = Inr () \<longleftrightarrow>
    (if elems root = [] then elems p = [] else inside p root)"
  using assertContained_inside [OF assms] assertContained_root [OF assms] by simp

text \<open>C38: The lexical containment check admits exactly the absolute paths below the root, compared
  element by element, except when the root is the root directory: then it admits no path but the
  root itself.\<close>

theorem assertContained_iff:
  assumes "filepath_IsAbs root" and "filepath_IsAbs p"
  shows "assertContained root p = Inr () \<longleftrightarrow>
    (if elems root = [] then elems p = [] else prefix (elems root) (elems p))"
  using assertContained_cases [OF assms] by (simp add: inside_def)

text \<open>All paths a resolver can return are absolute when its two roots are.\<close>

definition rooted :: "resolver \<Rightarrow> bool" where
  "rooted r \<longleftrightarrow> filepath_IsAbs (kubeletRoot r) \<and> filepath_IsAbs (hp_Root (hostPaths r))"

lemma pod_source_abs:
  "filepath_IsAbs root \<Longrightarrow> filepath_IsAbs (sp_Path (pod_source root vol parts b))"
  by (simp add: pod_source_def)

lemma hostPath_abs:
  "hostPath r name h = Inr sp \<Longrightarrow> filepath_IsAbs (hp_Root (hostPaths r)) \<Longrightarrow> filepath_IsAbs (sp_Path sp)"
  by (auto simp: hostPath_def Let_def split: sum.splits)

lemma resolve_pv_abs:
  "resolve_pv r root vol v = Inr sp \<Longrightarrow> rooted r \<Longrightarrow> filepath_IsAbs root \<Longrightarrow> filepath_IsAbs (sp_Path sp)"
  by (auto simp: resolve_pv_def rooted_def pod_source_abs hostPath_abs split: if_splits option.splits)

lemma resolvePVC_abs:
  "resolvePVC r p root vol = Inr sp \<Longrightarrow> rooted r \<Longrightarrow> filepath_IsAbs root \<Longrightarrow> filepath_IsAbs (sp_Path sp)"
  by (auto simp: resolvePVC_def Let_def resolve_pv_abs split: api_result.splits if_splits)

lemma resolveOne_abs:
  "resolveOne r p root vol = Inr sp \<Longrightarrow> rooted r \<Longrightarrow> filepath_IsAbs root \<Longrightarrow> filepath_IsAbs (sp_Path sp)"
  by (auto simp: resolveOne_def Let_def rooted_def pod_source_abs hostPath_abs resolvePVC_abs
      split: if_splits option.splits)

lemma resolve_name_inside:
  assumes "resolve_name r p name = Inr sp" and "rooted r"
  shows "filepath_IsAbs (sp_Path sp)" and "inside (sp_Path sp) (sp_Root sp)"
proof -
  show a: "filepath_IsAbs (sp_Path sp)"
    using resolve_name_Inr(4) [OF assms(1)] assms(2) by (auto simp: rooted_def intro: resolveOne_abs)
  have R: "filepath_IsAbs (sp_Root sp)"
    using resolve_name_Inr(1) [OF assms(1)] assms(2) by (auto simp: source_origin_def rooted_def)
  then have "sp_Root sp \<noteq> []" by auto
  then show "inside (sp_Path sp) (sp_Root sp)"
    using resolve_name_Inr(3) [OF assms(1)] assertContained_cases [OF R a]
    by (auto simp: inside_def split: if_splits)
qed

text \<open>C19: A successful resolution answers each requested name, in order, with a source of that name
  that some container of the pod mounts, and whose path lies below the pod's own volumes directory
  or below the host path mount, the only two roots there are.\<close>

theorem ResolveIn_contained:
  assumes "ResolveIn r p names = Inr rs" and "rooted r"
  shows "list_all2 (\<lambda>name sp. sp_Name sp = name \<and> name \<in> set (ReferencedVolumes p) \<and>
     source_origin r p name sp \<and> prefix (elems (sp_Root sp)) (elems (sp_Path sp))) names rs"
  using assms(1) unfolding ResolveIn_def traverse_Inr_iff
  by (rule list_all2_mono)
    (use assms(2) resolve_name_Inr(1,2) resolve_name_inside(2) in
      \<open>auto simp: source_origin_def inside_def\<close>)

text \<open>What the loop turns away before a source path is made.\<close>

definition own_volume :: "resolver \<Rightarrow> volume \<Rightarrow> bool" where
  "own_volume r vol \<longleftrightarrow> vol_PersistentVolumeClaim vol = None \<and> \<not> vol_Ephemeral vol \<and>
     (case vol_CSI vol of None \<Rightarrow> False | Some c \<Rightarrow> csi_Driver c = ownDriverName r)"

lemma resolve_name_own:
  "volume_named p name = Some vol \<Longrightarrow> own_volume r vol \<Longrightarrow> \<exists>e. resolve_name r p name = Inl e"
proof -
  assume v: "volume_named p name = Some vol" and o: "own_volume r vol"
  then obtain c where "vol_CSI vol = Some c" "csi_Driver c = ownDriverName r"
    "vol_PersistentVolumeClaim vol = None" "\<not> vol_Ephemeral vol"
    by (cases "vol_CSI vol") (auto simp: own_volume_def)
  then have "resolveOne r p root vol = Inl (MountCycle (ownDriverName r))" for root
    by (simp add: resolveOne_def)
  then show ?thesis using v by (simp add: resolve_name_def volume_named_def)
qed

text \<open>A request that names an inline volume of this driver is refused, whatever else it names, so
  a union never has itself or another union of the pod as a source.\<close>

theorem ResolveIn_no_mount_cycle:
  assumes "name \<in> set names" and "volume_named p name = Some vol" and "own_volume r vol"
  shows "\<exists>e. ResolveIn r p names = Inl e"
proof (cases "ResolveIn r p names")
  case (Inr rs)
  then have "\<exists>sp. resolve_name r p name = Inr sp"
    using assms(1) unfolding ResolveIn_def traverse_Inr_iff by (auto simp: list_all2_conv_all_nth in_set_conv_nth)
  then show ?thesis using resolve_name_own [OF assms(2,3)] by auto
qed simp

text \<open>The claim of a volume is still to be created, bound or backed.\<close>

definition awaits_claim :: "resolver \<Rightarrow> pod \<Rightarrow> volume \<Rightarrow> bool" where
  "awaits_claim r p vol \<longleftrightarrow>
     (vol_Ephemeral vol \<or> vol_PersistentVolumeClaim vol \<noteq> None) \<and>
     (let claimName = (if vol_Ephemeral vol then pod_Name p @ ''-'' @ vol_Name vol
                       else the (vol_PersistentVolumeClaim vol))
      in case get_pvc (client r) (pod_Namespace p) claimName of
           NotFound \<Rightarrow> True
         | ApiFailure _ \<Rightarrow> False
         | Found c \<Rightarrow> (vol_Ephemeral vol \<longrightarrow> IsControlledBy (client r) c p) \<and>
             (pvc_VolumeName c = [] \<or> get_pv (client r) (pvc_VolumeName c) = NotFound))"

lemma hostPath_final: "hostPath r name h = Inl e \<Longrightarrow> \<not> is_not_ready e"
  by (auto simp: hostPath_def Let_def hp_check_def split: if_splits)

lemma resolve_pv_final: "resolve_pv r root vol v = Inl e \<Longrightarrow> \<not> is_not_ready e"
  by (auto simp: resolve_pv_def dest: hostPath_final split: if_splits option.splits)

lemma resolvePVC_retry:
  assumes "vol_Ephemeral vol \<or> vol_PersistentVolumeClaim vol \<noteq> None"
  shows "(\<exists>e. resolvePVC r p root vol = Inl e \<and> is_not_ready e) \<longleftrightarrow> awaits_claim r p vol"
proof -
  define claim where "claim = (if vol_Ephemeral vol then pod_Name p @ ''-'' @ vol_Name vol
    else the (vol_PersistentVolumeClaim vol))"
  have c: "(if vol_Ephemeral vol then pod_Name p @ ''-'' @ vol_Name vol
      else (case vol_PersistentVolumeClaim vol of None \<Rightarrow> [] | Some c \<Rightarrow> c)) = claim"
    using assms by (auto simp: claim_def)
  show ?thesis
  proof (cases "get_pvc (client r) (pod_Namespace p) claim")
    case (Found x)
    then show ?thesis
      using assms resolve_pv_final [of r root vol]
      unfolding resolvePVC_def awaits_claim_def Let_def c claim_def [symmetric]
      by (cases "get_pv (client r) (pvc_VolumeName x)") auto
  qed (use assms in \<open>simp_all add: resolvePVC_def awaits_claim_def Let_def c claim_def [symmetric]\<close>)
qed

lemma resolveOne_final:
  assumes "\<not> (vol_Ephemeral vol \<or> vol_PersistentVolumeClaim vol \<noteq> None)"
    and "resolveOne r p root vol = Inl e"
  shows "\<not> is_not_ready e"
proof (cases "vol_CSI vol")
  case None
  show ?thesis
  proof (cases "vol_HostPath vol")
    case (Some h)
    have "hostPath r (vol_Name vol) h = Inl e"
      using assms None Some by (simp add: resolveOne_def Let_def split: if_splits)
    then show ?thesis using hostPath_final by blast
  qed (use assms None in \<open>auto simp: resolveOne_def Let_def split: if_splits\<close>)
qed (use assms in \<open>auto simp: resolveOne_def Let_def split: if_splits\<close>)

lemma resolveOne_retry:
  "(\<exists>e. resolveOne r p root vol = Inl e \<and> is_not_ready e) \<longleftrightarrow> awaits_claim r p vol"
proof (cases "vol_Ephemeral vol \<or> vol_PersistentVolumeClaim vol \<noteq> None")
  case True
  then have "resolveOne r p root vol = resolvePVC r p root vol"
    by (simp only: resolveOne_def Let_def disj_commute if_True)
  then show ?thesis using resolvePVC_retry [OF True] by simp
next
  case False
  then have "\<not> awaits_claim r p vol" by (simp only: awaits_claim_def simp_thms)
  then show ?thesis using resolveOne_final [OF False] by blast
qed

lemma assertContained_final: "assertContained root q = Inl e \<Longrightarrow> \<not> is_not_ready e"
  by (auto simp: assertContained_def Let_def split: if_splits)

text \<open>The errors kubelet is told to retry are exactly those of a volume whose claim is missing,
  not yet bound, or bound to a persistent volume the API server does not show yet; everything else
  is a final error.\<close>

theorem resolve_name_retry:
  "(\<exists>e. resolve_name r p name = Inl e \<and> is_not_ready e) \<longleftrightarrow>
     (\<exists>vol. volume_named p name = Some vol \<and> name \<in> set (ReferencedVolumes p) \<and> awaits_claim r p vol)"
  (is "?l \<longleftrightarrow> ?r")
proof (cases "volume_named p name")
  case None
  then show ?thesis by (simp add: resolve_name_def volume_named_def)
next
  case (Some vol)
  let ?root = "filepath_Join [kubeletRoot r, ''pods'', pod_UID p, ''volumes'']"
  show ?thesis
    using Some resolveOne_retry [of r p ?root vol]
    by (auto simp: resolve_name_def volume_named_def dest: assertContained_final
        split: sum.splits if_splits)
qed

section \<open>What the driver relies on of a resolver\<close>

text \<open>The answers come in the order of the names, so they pair with the write modes of the request;
  and a volume of the driver itself is never a source.\<close>

locale source_resolver =
  fixes resolve :: "pod \<Rightarrow> string list \<Rightarrow> vs_error + source_path list"
    and own :: "pod \<Rightarrow> string \<Rightarrow> bool"
  assumes answers_in_order: "resolve p names = Inr rs \<Longrightarrow> map sp_Name rs = names"
    and own_refused: "name \<in> set names \<Longrightarrow> own p name \<Longrightarrow> \<exists>e. resolve p names = Inl e"
begin

lemma answers_length: "resolve p names = Inr rs \<Longrightarrow> length rs = length names"
  using answers_in_order by (metis length_map)

lemma answers_not_own: "resolve p names = Inr rs \<Longrightarrow> sp \<in> set rs \<Longrightarrow> \<not> own p (sp_Name sp)"
  using answers_in_order own_refused [of "sp_Name sp" names p] by force

lemma modes_in_order:
  assumes "resolve p (map fst svs) = Inr rs" and "distinct (map fst svs)"
  shows "map (\<lambda>sp. map_index svs (sp_Name sp)) rs = map snd svs"
proof -
  have "map_index svs (fst sv) = snd sv" if "sv \<in> set svs" for sv
    using map_of_is_SomeI [OF assms(2), of "fst sv" "snd sv"] that by (simp add: map_index_def)
  then have "map (map_index svs) (map sp_Name rs) = map snd svs"
    unfolding answers_in_order [OF assms(1)] by simp
  then show ?thesis by (simp add: comp_def)
qed

end

lemma ResolveIn_names: "ResolveIn r p names = Inr rs \<Longrightarrow> map sp_Name rs = names"
  unfolding ResolveIn_def traverse_Inr_iff
  by (induction names rs rule: list_all2_induct)
    (auto dest: resolve_name_Inr(1) simp: source_origin_def)

lemma ResolveIn_own:
  assumes "name \<in> set names" and "\<exists>vol. volume_named p name = Some vol \<and> own_volume r vol"
  shows "\<exists>e. ResolveIn r p names = Inl e"
proof (cases "ResolveIn r p names")
  case (Inr rs)
  then have "\<exists>sp. resolve_name r p name = Inr sp"
    using assms(1) unfolding ResolveIn_def traverse_Inr_iff
    by (auto simp: list_all2_conv_all_nth in_set_conv_nth)
  moreover obtain vol where "volume_named p name = Some vol" "own_volume r vol" using assms(2) by blast
  ultimately show ?thesis using resolve_name_own by fastforce
qed simp

interpretation pod_resolver: source_resolver "ResolveIn r"
  "\<lambda>p name. \<exists>vol. volume_named p name = Some vol \<and> own_volume r vol" for r
  by unfold_locales (auto intro: ResolveIn_names ResolveIn_own)

section \<open>A pod\<close>

definition blank_volume :: "string \<Rightarrow> volume" where
  "blank_volume n = \<lparr>vol_Name = n, vol_PersistentVolumeClaim = None, vol_Ephemeral = False,
     vol_CSI = None, vol_EmptyDir = False, vol_ConfigMap = False, vol_Secret = False,
     vol_DownwardAPI = False, vol_Projected = False, vol_HostPath = None, vol_NFS = False,
     vol_ISCSI = False, vol_FC = False, vol_Image = False\<rparr>"

text \<open>An emptyDir, a hostPath, a claim nobody made yet, and the union of them.\<close>

definition web_pod :: pod where
  "web_pod =
     \<lparr>pod_Name = ''web'', pod_Namespace = ''shop'', pod_UID = ''u1'',
      pod_Volumes =
        [blank_volume ''cache''\<lparr>vol_EmptyDir := True\<rparr>,
         blank_volume ''data''\<lparr>vol_HostPath := Some ''/srv/data''\<rparr>,
         blank_volume ''claim''\<lparr>vol_PersistentVolumeClaim := Some ''c''\<rparr>,
         blank_volume ''union''\<lparr>vol_CSI := Some \<lparr>csi_Driver = ''union.csi'',
           csi_VolumeAttributes = [(''sourceVolumes'', ''cache,data=RO'')], csi_ReadOnly = None\<rparr>\<rparr>],
      InitContainers = [], Containers = [\<lparr>VolumeMounts = [''cache'', ''data'', ''claim'', ''union''],
        VolumeDevices = []\<rparr>], EphemeralContainers = []\<rparr>"

definition web_get_pod :: "string \<Rightarrow> string \<Rightarrow> pod api_result" where
  "web_get_pod ns n = (if ns = ''shop'' \<and> n = ''web'' then Found web_pod else NotFound)"

definition no_object :: "string \<Rightarrow> 'a api_result" where
  "no_object n = NotFound"

definition no_claim :: "string \<Rightarrow> string \<Rightarrow> pvc api_result" where
  "no_claim ns n = NotFound"

definition no_owner :: "pvc \<Rightarrow> pod \<Rightarrow> bool" where
  "no_owner c p = False"

definition web_resolver :: resolver where
  "web_resolver = NewResolver
     \<lparr>get_pod = web_get_pod, get_pvc = no_claim, get_pv = no_object, IsControlledBy = no_owner\<rparr>
     ''/var/lib/kubelet''
     \<lparr>hp_Root = ''/host'', hp_Allowed = [''/srv''], hp_Denied = []\<rparr> ''union.csi''"

lemma web_resolved:
  "ResolveIn web_resolver web_pod [''cache'', ''data''] = Inr
     [\<lparr>sp_Name = ''cache'', sp_Path = ''/var/lib/kubelet/pods/u1/volumes/kubernetes.io~empty-dir/cache'',
       sp_CSIBased = False, sp_Root = ''/var/lib/kubelet/pods/u1/volumes'', sp_hostPaths = None\<rparr>,
      \<lparr>sp_Name = ''data'', sp_Path = ''/host/srv/data'', sp_CSIBased = False, sp_Root = ''/host'',
       sp_hostPaths = Some (hostPaths web_resolver)\<rparr>]"
  by code_simp

theorem assertContained_iff_witness:
  "assertContained ''/'' ''/srv/data'' \<noteq> Inr () \<and> assertContained ''/host'' ''/host/srv'' = Inr ()"
proof -
  have e: "elems ''/srv/data'' \<noteq> []" "elems ''/host'' = [''host'']" "elems ''/host/srv'' = [''host'', ''srv'']"
    by code_simp+
  show ?thesis
    using assertContained_iff [of "''/''" "''/srv/data''"] assertContained_iff [of "''/host''" "''/host/srv''"] e
    by simp
qed

theorem ResolveIn_contained_witness:
  "''data'' \<in> set (ReferencedVolumes web_pod) \<and> prefix (elems ''/host'') (elems ''/host/srv/data'')"
proof -
  have "rooted web_resolver" by code_simp
  from ResolveIn_contained [OF web_resolved this] show ?thesis by simp
qed

theorem ResolveIn_no_mount_cycle_witness:
  "\<exists>e. ResolveIn web_resolver web_pod [''cache'', ''union''] = Inl e"
proof -
  have "volume_named web_pod ''union'' = Some (pod_Volumes web_pod ! 3)"
    and "own_volume web_resolver (pod_Volumes web_pod ! 3)" by code_simp+
  then show ?thesis by (rule ResolveIn_no_mount_cycle [rotated]) simp
qed

end
