(* ===== verification/Driver.thy ===== *)
theory Driver
  imports Params Ready Resolver
begin

text \<open>
  \<open>pkg/driver\<close>: the Node and Identity services (\<open>node.go\<close>, \<open>identity.go\<close>, \<open>driver.go\<close>,
  \<open>config.go\<close>). A handler takes the node state to a result and the state it leaves; it is \<open>None\<close>
  when it does not return. The backend, the API server and the node are parameters: the backend as
  the interface record, the node as what can be observed of it with the two calls that create and
  remove a target directory.
\<close>

section \<open>Configuration\<close>

text \<open>Pointers and interfaces that \<open>New\<close> compares with nil are options.\<close>

record ('w, 'e) driver_config =
  cfg_VendorVersion :: string
  cfg_DriverName :: string
  cfg_NodeID :: string
  cfg_Endpoint :: string
  cfg_KubeletRoot :: string
  cfg_HostPaths :: host_paths
  cfg_StateDir :: string
  cfg_PublishTimeout :: int
  cfg_MaxSourceVolumes :: int
  cfg_ReuseMounts :: bool
  cfg_Backend :: "('w, 'e) backend option"
  cfg_Policy :: "policy option"
  cfg_KubeClient :: "api option"

record 'w machine =
  mounter :: "'w host"
  MkdirAll :: "string \<Rightarrow> ('w, os_error, unit) prog"
  Remove :: "string \<Rightarrow> ('w, os_error, unit) prog"

record ('w, 'e) driver =
  d_config :: "('w, 'e) driver_config"
  d_resolver :: resolver
  d_machine :: "'w machine"

abbreviation the_backend :: "('w, 'e) driver \<Rightarrow> ('w, 'e) backend" where
  "the_backend d \<equiv> the (cfg_Backend (d_config d))"

abbreviation the_policy :: "('w, 'e) driver \<Rightarrow> policy" where
  "the_policy d \<equiv> the (cfg_Policy (d_config d))"

datatype 'e new_error =
    NoDriverName
  | NoNodeID
  | NoEndpoint
  | NoBackend
  | NoPolicy
  | NoKubeClient
  | InitFailed 'e

text \<open>\<open>Init\<close> is run for a backend that implements \<open>Runner\<close>.\<close>

definition New ::
    "(string \<Rightarrow> ('w, 'e, unit) prog) option \<Rightarrow> 'w machine \<Rightarrow> ('w, 'e) driver_config \<Rightarrow>
     ('w, 'e new_error, ('w, 'e) driver) prog" where
  "New Init machine cfg =
     (if cfg_DriverName cfg = [] then fail NoDriverName
      else if cfg_NodeID cfg = [] then fail NoNodeID
      else if cfg_Endpoint cfg = [] then fail NoEndpoint
      else if cfg_Backend cfg = None then fail NoBackend
      else if cfg_Policy cfg = None then fail NoPolicy
      else if cfg_KubeClient cfg = None then fail NoKubeClient
      else
        (let built = ok \<lparr>d_config = cfg,
               d_resolver = NewResolver (the (cfg_KubeClient cfg)) (cfg_KubeletRoot cfg)
                 (cfg_HostPaths cfg) (cfg_DriverName cfg),
               d_machine = machine\<rparr>
         in case Init of
              None \<Rightarrow> built
            | Some init \<Rightarrow>
                do { r \<leftarrow> init (cfg_StateDir cfg);
                     case r of Inl e \<Rightarrow> fail (InitFailed e) | Inr _ \<Rightarrow> built }))"

section \<open>Results of a handler\<close>

datatype code = InvalidArgument | Internal | Aborted | Unavailable

datatype 'e reason =
    CapabilityMissing
  | VolumeIDMissing
  | TargetPathMissing
  | NotEphemeral
  | CheckTarget os_error
  | BadAttribute param_error
  | PodIdentityMissing
  | RefusedOption policy_error
  | SourceError vs_error
  | NotReadyInTime wait_error
  | SharedNotReady string wait_error
  | RealPathError string vs_error
  | CreateTarget os_error
  | MountError 'e
  | ShareError 'e
  | UnmountError 'e
  | RemoveTarget os_error
  | NameNotConfigured
  | VersionMissing

type_synonym 'e status = "code \<times> 'e reason"
type_synonym ('w, 'e, 'a) handler = "'w \<Rightarrow> (('e status + 'a) \<times> 'w) option"

definition give :: "'e status + 'a \<Rightarrow> ('w, 'e, 'a) handler" where
  "give r = (\<lambda>w. Some (r, w))"

definition observe :: "('w \<Rightarrow> 'e status + 'a) \<Rightarrow> ('w, 'e, 'a) handler" where
  "observe f = (\<lambda>w. Some (f w, w))"

definition run :: "('w, 'x, 'a) prog \<Rightarrow> ('x \<Rightarrow> 'e status) \<Rightarrow> ('w, 'e, 'a) handler" where
  "run m h = (\<lambda>w. case run_state m w of (r, w') \<Rightarrow> Some (map_sum h id r, w'))"

definition and_then ::
    "('w, 'e, 'a) handler \<Rightarrow> ('a \<Rightarrow> ('w, 'e, 'b) handler) \<Rightarrow> ('w, 'e, 'b) handler" where
  "and_then m f =
     (\<lambda>w. case m w of
        None \<Rightarrow> None
      | Some (Inl e, w') \<Rightarrow> Some (Inl e, w')
      | Some (Inr x, w') \<Rightarrow> f x w')"

section \<open>The Node service\<close>

definition isMounted :: "('w, 'e) driver \<Rightarrow> string \<Rightarrow> 'w \<Rightarrow> os_error + bool" where
  "isMounted d path w =
     (case IsMountPoint (mounter (d_machine d)) w path of
        Inr mounted \<Rightarrow> Inr mounted
      | Inl e \<Rightarrow>
          if e = NotExist then Inr False
          else if e = CorruptedMnt then Inr True
          else Inl e)"

definition resolveError :: "vs_error \<Rightarrow> 'e status" where
  "resolveError e =
     (if is_not_ready e then (Aborted, SourceError e) else (InvalidArgument, SourceError e))"

record union_decl =
  ud_sources :: "source_volume list"
  ud_options :: "string gomap"
  ud_readOnly :: bool

definition parse :: "('w, 'e) driver \<Rightarrow> string gomap \<Rightarrow> param_error + parsed_attributes" where
  "parse d attrs = parseAttributes (the_backend d) (cfg_MaxSourceVolumes (d_config d)) attrs"

definition declaredUnion :: "('w, 'e) driver \<Rightarrow> volume \<Rightarrow> union_decl option" where
  "declaredUnion d v =
     (case vol_CSI v of
        None \<Rightarrow> None
      | Some c \<Rightarrow>
          if csi_Driver c \<noteq> cfg_DriverName (d_config d) then None
          else (case parse d (csi_VolumeAttributes c) of
              Inl e \<Rightarrow> None
            | Inr attrs \<Rightarrow>
                Some \<lparr>ud_sources = pa_SourceVolumes attrs, ud_options = pa_Options attrs,
                      ud_readOnly = (csi_ReadOnly c = Some True)\<rparr>))"

text \<open>\<open>maps.Equal\<close>: the same keys with the same values.\<close>

definition maps_Equal :: "string gomap \<Rightarrow> string gomap \<Rightarrow> bool" where
  "maps_Equal m n = list_all (\<lambda>k. map_of m k = map_of n k) (map fst m @ map fst n)"

definition union_equal :: "union_decl \<Rightarrow> union_decl \<Rightarrow> bool" where
  "union_equal u u' \<longleftrightarrow> ud_sources u = ud_sources u' \<and> maps_Equal (ud_options u) (ud_options u') \<and>
     ud_readOnly u = ud_readOnly u'"

text \<open>The two loops of \<open>sharedSource\<close>: the union declared by the volume itself, of the last one of
  that name, and the first volume before it that declares the same.\<close>

fun wanted_union :: "('w, 'e) driver \<Rightarrow> string \<Rightarrow> volume list \<Rightarrow> union_decl option \<Rightarrow> union_decl option" where
  "wanted_union d self [] want = want"
| "wanted_union d self (v # vs) want =
     wanted_union d self vs (if vol_Name v = self then declaredUnion d v else want)"

fun first_sharing ::
    "('w, 'e) driver \<Rightarrow> string \<Rightarrow> string \<Rightarrow> string list \<Rightarrow> union_decl \<Rightarrow> volume list \<Rightarrow> string \<times> string" where
  "first_sharing d csiDir self referenced want [] = ([], [])"
| "first_sharing d csiDir self referenced want (v # vs) =
     (if vol_Name v = self then ([], [])
      else if vol_Name v \<notin> set referenced then first_sharing d csiDir self referenced want vs
      else (case declaredUnion d v of
          None \<Rightarrow> first_sharing d csiDir self referenced want vs
        | Some got \<Rightarrow>
            if union_equal got want then (vol_Name v, filepath_Join [csiDir, vol_Name v, ''mount''])
            else first_sharing d csiDir self referenced want vs))"

definition sharedSource :: "('w, 'e) driver \<Rightarrow> pod \<Rightarrow> string \<Rightarrow> string \<times> string" where
  "sharedSource d p target =
     (let csiDir = filepath_Join [cfg_KubeletRoot (d_config d), ''pods'', pod_UID p, ''volumes'',
                     ''kubernetes.io~csi''];
          volumeDir = filepath_Dir target
      in if filepath_Base target \<noteq> ''mount'' \<or> filepath_Dir volumeDir \<noteq> csiDir then ([], [])
         else
           (let self = filepath_Base volumeDir
            in case wanted_union d self (pod_Volumes p) None of
                 None \<Rightarrow> ([], [])
               | Some want \<Rightarrow>
                   first_sharing d csiDir self (ReferencedVolumes p) want (pod_Volumes p)))"

record publish_request =
  req_VolumeCapability :: bool
  req_VolumeId :: string
  req_TargetPath :: string
  req_VolumeContext :: "string gomap"
  req_Readonly :: bool

definition wait_for ::
    "('w, 'e) driver \<Rightarrow> source_path list \<Rightarrow> (wait_error \<Rightarrow> 'e reason) \<Rightarrow> ('w, 'e, unit) handler" where
  "wait_for d ps h =
     (\<lambda>w. case WaitReady (mounter (d_machine d)) ps (cfg_PublishTimeout (d_config d)) w of
        None \<Rightarrow> None
      | Some (r, w') \<Rightarrow> Some (map_sum (\<lambda>e. (Aborted, h e)) id r, w'))"

definition publishShared ::
    "('w, 'e) driver \<Rightarrow> publish_request \<Rightarrow> string \<Rightarrow> string \<Rightarrow> ('w, 'e, unit) handler" where
  "publishShared d req name source =
     (let first = \<lparr>sp_Name = name, sp_Path = source, sp_CSIBased = True, sp_Root = [],
                   sp_hostPaths = None\<rparr>
      in and_then (wait_for d [first] (SharedNotReady name)) (\<lambda>_.
         and_then (run (MkdirAll (d_machine d) (req_TargetPath req)) (\<lambda>e. (Internal, CreateTarget e))) (\<lambda>_.
         run (Share (the_backend d) (req_VolumeId req) source (req_TargetPath req) (req_Readonly req))
           (\<lambda>e. (Internal, ShareError e)))))"

text \<open>The loop that resolves each source on the node, with its mode from the request.\<close>

definition real_sources ::
    "('w, 'e) driver \<Rightarrow> string gomap \<Rightarrow> source_path list \<Rightarrow> 'w \<Rightarrow> 'e status + source list" where
  "real_sources d modeByName resolved w =
     traverse (\<lambda>sp. case RealPath (files (mounter (d_machine d)) w) sp of
          Inl e \<Rightarrow> Inl (Aborted, RealPathError (sp_Name sp) e)
        | Inr path \<Rightarrow> Inr \<lparr>src_Path = path, src_Mode = map_index modeByName (sp_Name sp)\<rparr>) resolved"

definition publishUnion ::
    "('w, 'e) driver \<Rightarrow> publish_request \<Rightarrow> parsed_attributes \<Rightarrow> string gomap \<Rightarrow> pod \<Rightarrow>
     ('w, 'e, unit) handler" where
  "publishUnion d req attrs options p =
     (let names = map sv_Name (pa_SourceVolumes attrs);
          modeByName = map (\<lambda>sv. (sv_Name sv, sv_Mode sv)) (pa_SourceVolumes attrs)
      in and_then (give (map_sum resolveError id (ResolveIn (d_resolver d) p names))) (\<lambda>resolved.
         and_then (wait_for d resolved NotReadyInTime) (\<lambda>_.
         and_then (observe (real_sources d modeByName resolved)) (\<lambda>sources.
         and_then (run (MkdirAll (d_machine d) (req_TargetPath req)) (\<lambda>e. (Internal, CreateTarget e))) (\<lambda>_.
         run (Mount (the_backend d)
                \<lparr>VolumeID = req_VolumeId req, Target = req_TargetPath req, Sources = sources,
                 Options = options, ReadOnly = req_Readonly req\<rparr>)
           (\<lambda>e. (Internal, MountError e)))))))"

definition NodePublishVolume :: "('w, 'e) driver \<Rightarrow> publish_request \<Rightarrow> ('w, 'e, unit) handler" where
  "NodePublishVolume d req =
     (if \<not> req_VolumeCapability req then give (Inl (InvalidArgument, CapabilityMissing))
      else if req_VolumeId req = [] then give (Inl (InvalidArgument, VolumeIDMissing))
      else if req_TargetPath req = [] then give (Inl (InvalidArgument, TargetPathMissing))
      else if map_index (req_VolumeContext req) attrEphemeral \<noteq> ''true''
      then give (Inl (InvalidArgument, NotEphemeral))
      else
        and_then (observe (\<lambda>w. map_sum (\<lambda>e. (Internal, CheckTarget e)) id
                    (isMounted d (req_TargetPath req) w))) (\<lambda>mounted.
        if mounted then give (Inr ())
        else
          and_then (give (map_sum (\<lambda>e. (InvalidArgument, BadAttribute e)) id
                      (parse d (req_VolumeContext req)))) (\<lambda>attrs.
          if pa_PodNamespace attrs = [] \<or> pa_PodName attrs = [] \<or> pa_PodUID attrs = []
          then give (Inl (InvalidArgument, PodIdentityMissing))
          else
            and_then (give (map_sum (\<lambda>e. (InvalidArgument, RefusedOption e)) id
                        (Resolve (the_policy d) (pa_Options attrs)))) (\<lambda>options.
            and_then (give (map_sum resolveError id
                        (GetPod (d_resolver d) (pa_PodNamespace attrs) (pa_PodName attrs)
                           (pa_PodUID attrs)))) (\<lambda>p.
            case (if cfg_ReuseMounts (d_config d) then sharedSource d p (req_TargetPath req)
                  else ([], [])) of
              (name, source) \<Rightarrow>
                if source \<noteq> [] then publishShared d req name source
                else publishUnion d req attrs options p)))))"

definition NodeUnpublishVolume :: "('w, 'e) driver \<Rightarrow> string \<Rightarrow> string \<Rightarrow> ('w, 'e, unit) handler" where
  "NodeUnpublishVolume d volumeId target =
     (if volumeId = [] then give (Inl (InvalidArgument, VolumeIDMissing))
      else if target = [] then give (Inl (InvalidArgument, TargetPathMissing))
      else
        and_then (run (Unmount (the_backend d) volumeId target) (\<lambda>e. (Internal, UnmountError e))) (\<lambda>_.
        \<lambda>w. case run_state (Remove (d_machine d) target) w of
              (Inl e, w') \<Rightarrow>
                if e = NotExist then Some (Inr (), w') else Some (Inl (Internal, RemoveTarget e), w')
            | (Inr _, w') \<Rightarrow> Some (Inr (), w')))"

definition NodeGetInfo :: "('w, 'e) driver \<Rightarrow> string" where
  "NodeGetInfo d = cfg_NodeID (d_config d)"

text \<open>No capability is advertised: staging is not supported.\<close>

definition NodeGetCapabilities :: "('w, 'e) driver \<Rightarrow> 'e status + string list" where
  "NodeGetCapabilities d = Inr []"

section \<open>The Identity service\<close>

definition GetPluginInfo :: "('w, 'e) driver \<Rightarrow> 'e status + (string \<times> string)" where
  "GetPluginInfo d =
     (if cfg_DriverName (d_config d) = [] then Inl (Unavailable, NameNotConfigured)
      else if cfg_VendorVersion (d_config d) = [] then Inl (Unavailable, VersionMissing)
      else Inr (cfg_DriverName (d_config d), cfg_VendorVersion (d_config d)))"

text \<open>The answer of \<open>Probe\<close> leaves \<open>ready\<close> unset, and there is no controller service.\<close>

definition Probe :: "('w, 'e) driver \<Rightarrow> 'e status + bool option" where
  "Probe d = Inr None"

definition GetPluginCapabilities :: "('w, 'e) driver \<Rightarrow> 'e status + string list" where
  "GetPluginCapabilities d = Inr []"

end
