(* ===== verification/Publish.thy ===== *)
theory Publish
  imports Driver Overlay
begin

text \<open>
  What publishing and unpublishing a volume guarantee: repeated requests, refusals, the codes of
  errors, what is mounted when a request succeeds, and that a request returns.
\<close>

section \<open>Handlers\<close>

named_theorems handler_simps \<open>facts on the results of handlers\<close>

lemma and_then_Inr [handler_simps]:
  "and_then m f w = Some (Inr y, w') \<longleftrightarrow> (\<exists>x w1. m w = Some (Inr x, w1) \<and> f x w1 = Some (Inr y, w'))"
  by (auto simp: and_then_def split: option.splits sum.splits)

lemma and_then_Inl [handler_simps]:
  "and_then m f w = Some (Inl e, w') \<longleftrightarrow>
     m w = Some (Inl e, w') \<or> (\<exists>x w1. m w = Some (Inr x, w1) \<and> f x w1 = Some (Inl e, w'))"
  by (auto simp: and_then_def split: option.splits sum.splits)

lemma give_iff [handler_simps]: "give r w = Some (x, w') \<longleftrightarrow> r = x \<and> w' = w"
  by (auto simp: give_def)

lemma observe_iff [handler_simps]: "observe f w = Some (x, w') \<longleftrightarrow> f w = x \<and> w' = w"
  by (auto simp: observe_def)

lemma run_iff [handler_simps]:
  "run m h w = Some (x, w') \<longleftrightarrow> (\<exists>r. run_state m w = (r, w') \<and> x = map_sum h id r)"
  by (auto simp: run_def split: prod.splits)

lemma map_sum_Inr [handler_simps]: "map_sum h id r = Inr x \<longleftrightarrow> r = Inr x"
  by (cases r) auto

lemma map_sum_Inl [handler_simps]: "map_sum h id r = Inl x \<longleftrightarrow> (\<exists>e. r = Inl e \<and> x = h e)"
  by (cases r) auto

lemma Inr_map_sum [handler_simps]: "Inr x = map_sum h id r \<longleftrightarrow> r = Inr x"
  by (cases r) auto

lemma Inl_map_sum [handler_simps]: "Inl x = map_sum h id r \<longleftrightarrow> (\<exists>e. r = Inl e \<and> x = h e)"
  by (cases r) auto

lemma wait_for_iff [handler_simps]:
  "wait_for d ps h w = Some (x, w') \<longleftrightarrow>
     (\<exists>r. WaitReady (mounter (d_machine d)) ps (cfg_PublishTimeout (d_config d)) w = Some (r, w') \<and>
        x = map_sum (\<lambda>e. (Aborted, h e)) id r)"
  by (auto simp: wait_for_def split: option.splits)

text \<open>A request the handler looks into at all.\<close>

definition well_formed :: "publish_request \<Rightarrow> bool" where
  "well_formed req \<longleftrightarrow> req_VolumeCapability req \<and> req_VolumeId req \<noteq> [] \<and> req_TargetPath req \<noteq> [] \<and>
     map_index (req_VolumeContext req) attrEphemeral = ''true''"

section \<open>Publishing\<close>

text \<open>A repeated publish of a target that is mounted already, or whose mount is broken, succeeds
  and changes nothing.\<close>

theorem NodePublishVolume_idempotent:
  assumes "well_formed req" and "isMounted d (req_TargetPath req) w = Inr True"
  shows "NodePublishVolume d req w = Some (Inr (), w)"
  using assms by (simp add: NodePublishVolume_def well_formed_def and_then_def observe_def give_def)

subsection \<open>Refusals\<close>

definition silent :: "('w, 'e, 'a) handler \<Rightarrow> bool" where
  "silent m \<longleftrightarrow> (\<forall>w x w'. m w = Some (x, w') \<longrightarrow> w' = w)"

definition never_invalid :: "('w, 'e, 'a) handler \<Rightarrow> bool" where
  "never_invalid m \<longleftrightarrow> (\<forall>w r w'. m w \<noteq> Some (Inl (InvalidArgument, r), w'))"

definition invalid_silent :: "('w, 'e, 'a) handler \<Rightarrow> bool" where
  "invalid_silent m \<longleftrightarrow> (\<forall>w r w'. m w = Some (Inl (InvalidArgument, r), w') \<longrightarrow> w' = w)"

named_theorems refusal_rules \<open>rules for handlers that refuse without an effect\<close>

lemma silent_give [refusal_rules]: "silent (give r)"
  by (simp add: silent_def handler_simps)

lemma silent_observe [refusal_rules]: "silent (observe f)"
  by (simp add: silent_def handler_simps)

lemma invalid_silent_give [refusal_rules]: "invalid_silent (give r)"
  by (simp add: invalid_silent_def handler_simps)

lemma invalid_silent_then:
  "silent m \<Longrightarrow> (\<And>x. invalid_silent (f x)) \<Longrightarrow> invalid_silent (and_then m f)"
  by (fastforce simp: silent_def invalid_silent_def handler_simps)

lemma invalid_silent_if:
  "invalid_silent m \<Longrightarrow> invalid_silent m' \<Longrightarrow> invalid_silent (if b then m else m')"
  by simp

lemma invalid_silent_case:
  "(\<And>x y. invalid_silent (f x y)) \<Longrightarrow> invalid_silent (case p of (x, y) \<Rightarrow> f x y)"
  by (cases p) simp

lemma never_invalid_then [refusal_rules]:
  "never_invalid m \<Longrightarrow> (\<And>x. never_invalid (f x)) \<Longrightarrow> never_invalid (and_then m f)"
  by (auto simp: never_invalid_def handler_simps)

lemma never_invalid_run [refusal_rules]:
  "(\<And>e. fst (h e) \<noteq> InvalidArgument) \<Longrightarrow> never_invalid (run m h)"
  by (auto simp: never_invalid_def handler_simps) (metis fst_conv)

lemma never_invalid_wait [refusal_rules]: "never_invalid (wait_for d ps h)"
  by (auto simp: never_invalid_def handler_simps)

lemma never_invalid_silent: "never_invalid m \<Longrightarrow> invalid_silent m"
  by (simp add: never_invalid_def invalid_silent_def)

lemma never_invalid_real_sources [refusal_rules]: "never_invalid (observe (real_sources d modes ps))"
  by (auto simp: never_invalid_def handler_simps real_sources_def dest!: traverse_Inl
      split: sum.splits)

lemma never_invalid_shared: "never_invalid (publishShared d req name source)"
  unfolding publishShared_def Let_def by (intro refusal_rules) simp_all

lemma invalid_silent_union: "invalid_silent (publishUnion d req attrs opts p)"
  unfolding publishUnion_def Let_def
  by (intro invalid_silent_then [OF silent_give] never_invalid_silent refusal_rules) simp_all

lemma invalid_silent_publish: "invalid_silent (NodePublishVolume d req)"
proof -
  have fin: "invalid_silent (case q of (name, source) \<Rightarrow>
      if source \<noteq> [] then publishShared d req name source else publishUnion d req attrs opts p)"
    for q :: "string \<times> string" and attrs opts p
    by (cases q) (simp add: invalid_silent_union never_invalid_silent [OF never_invalid_shared])
  show ?thesis unfolding NodePublishVolume_def
    by (rule invalid_silent_if invalid_silent_give invalid_silent_then silent_give silent_observe fin)+
qed

text \<open>A request refused as an invalid argument has had no effect on the node: every such refusal
  comes before the wait, the target directory and the mount.\<close>

theorem NodePublishVolume_invalid_no_effect:
  assumes "NodePublishVolume d req w = Some (Inl (InvalidArgument, r), w')"
  shows "w' = w"
  using assms invalid_silent_publish [of d req] by (simp add: invalid_silent_def)

subsection \<open>Error codes\<close>

text \<open>The code kubelet sees, by what went wrong: an invalid argument is final, an aborted request is
  tried again.\<close>

fun code_of :: "'e reason \<Rightarrow> code" where
  "code_of (SourceError e) = (if is_not_ready e then Aborted else InvalidArgument)"
| "code_of (NotReadyInTime _) = Aborted"
| "code_of (SharedNotReady _ _) = Aborted"
| "code_of (RealPathError _ _) = Aborted"
| "code_of (CheckTarget _) = Internal"
| "code_of (CreateTarget _) = Internal"
| "code_of (MountError _) = Internal"
| "code_of (ShareError _) = Internal"
| "code_of (UnmountError _) = Internal"
| "code_of (RemoveTarget _) = Internal"
| "code_of NameNotConfigured = Unavailable"
| "code_of VersionMissing = Unavailable"
| "code_of _ = InvalidArgument"

definition coded :: "('w, 'e, 'a) handler \<Rightarrow> bool" where
  "coded m \<longleftrightarrow> (\<forall>w c r w'. m w = Some (Inl (c, r), w') \<longrightarrow> c = code_of r)"

definition status_ok :: "'e status \<Rightarrow> bool" where
  "status_ok s \<longleftrightarrow> fst s = code_of (snd s)"

lemma coded_iff: "coded m \<longleftrightarrow> (\<forall>w s w'. m w = Some (Inl s, w') \<longrightarrow> status_ok s)"
  by (auto simp: coded_def status_ok_def)

named_theorems coded_rules \<open>rules for the codes of a handler's errors\<close>

lemma coded_then [coded_rules]: "coded m \<Longrightarrow> (\<And>x. coded (f x)) \<Longrightarrow> coded (and_then m f)"
  unfolding coded_iff handler_simps by blast

lemma coded_if [coded_rules]: "coded m \<Longrightarrow> coded m' \<Longrightarrow> coded (if b then m else m')"
  by simp

lemma coded_give_Inr [coded_rules]: "coded (give (Inr x))"
  by (simp add: coded_iff handler_simps)

lemma coded_give_Inl [coded_rules]: "status_ok s \<Longrightarrow> coded (give (Inl s))"
  by (simp add: coded_iff handler_simps)

lemma coded_give_map [coded_rules]: "(\<And>e. status_ok (h e)) \<Longrightarrow> coded (give (map_sum h id r))"
  by (auto simp: coded_iff handler_simps)

lemma coded_observe_map [coded_rules]:
  "(\<And>e. status_ok (h e)) \<Longrightarrow> coded (observe (\<lambda>w. map_sum h id (r w)))"
  by (auto simp: coded_iff handler_simps)

lemma coded_run [coded_rules]: "(\<And>e. status_ok (h e)) \<Longrightarrow> coded (run m h)"
  by (auto simp: coded_iff handler_simps)

lemma coded_wait [coded_rules]: "(\<And>e. code_of (h e) = Aborted) \<Longrightarrow> coded (wait_for d ps h)"
  by (auto simp: coded_iff handler_simps status_ok_def)

lemma coded_real_sources [coded_rules]: "coded (observe (real_sources d modes ps))"
  by (auto simp: coded_iff handler_simps real_sources_def status_ok_def dest!: traverse_Inl
      split: sum.splits)

lemma status_ok_simps [simp]:
  "status_ok (c, r) \<longleftrightarrow> c = code_of r" "status_ok (resolveError e)"
  by (simp_all add: status_ok_def resolveError_def)

lemma coded_shared: "coded (publishShared d req name source)"
  unfolding publishShared_def Let_def by (intro coded_rules) simp_all

lemma coded_union: "coded (publishUnion d req attrs opts p)"
  unfolding publishUnion_def Let_def by (intro coded_rules) simp_all

lemma coded_publish: "coded (NodePublishVolume d req)"
proof -
  have fin: "coded (case q of (name, source) \<Rightarrow>
      if source \<noteq> [] then publishShared d req name source else publishUnion d req attrs opts p)"
    for q :: "string \<times> string" and attrs opts p
    by (cases q) (simp add: coded_union coded_shared)
  show ?thesis unfolding NodePublishVolume_def
    by (intro coded_rules fin) simp_all
qed


section \<open>What a successful publish has done\<close>

definition mounted_union ::
    "('w, 'e) driver \<Rightarrow> publish_request \<Rightarrow> source_volume list \<Rightarrow> string gomap \<Rightarrow> pod \<Rightarrow> 'w \<Rightarrow> bool" where
  "mounted_union d req svs opts p w' \<longleftrightarrow>
     (\<exists>rs sources w1 w2.
        ResolveIn (d_resolver d) p (map sv_Name svs) = Inr rs \<and>
        (\<forall>sp \<in> set rs. set_up (mounter (d_machine d)) w1 sp) \<and>
        list_all2 (\<lambda>sp s. RealPath (files (mounter (d_machine d)) w1) sp = Inr (src_Path s)) rs sources \<and>
        map src_Mode sources = map sv_Mode svs \<and>
        run_state (MkdirAll (d_machine d) (req_TargetPath req)) w1 = (Inr (), w2) \<and>
        run_state (Mount (the_backend d)
          \<lparr>VolumeID = req_VolumeId req, Target = req_TargetPath req, Sources = sources,
           Options = opts, ReadOnly = req_Readonly req\<rparr>) w2 = (Inr (), w'))"

definition shared_union ::
    "('w, 'e) driver \<Rightarrow> publish_request \<Rightarrow> string \<Rightarrow> 'w \<Rightarrow> bool" where
  "shared_union d req source w' \<longleftrightarrow>
     (\<exists>w1 w2. IsMountPoint (mounter (d_machine d)) w1 source = Inr True \<and>
        run_state (MkdirAll (d_machine d) (req_TargetPath req)) w1 = (Inr (), w2) \<and>
        run_state (Share (the_backend d) (req_VolumeId req) source (req_TargetPath req)
          (req_Readonly req)) w2 = (Inr (), w'))"

lemma wait_all_ready:
  "WaitReady H ps t w = Some (Inr u, w') \<Longrightarrow> \<forall>p \<in> set ps. set_up H w' p"
  unfolding WaitReady_def wait_loop_iff
  by (auto simp: verdict_def notReady_Inr filter_empty_conv split: sum.splits if_splits)

lemma real_sources_Inr:
  assumes "real_sources d modes rs w = Inr sources"
  shows "list_all2 (\<lambda>sp s. RealPath (files (mounter (d_machine d)) w) sp = Inr (src_Path s)) rs sources"
    and "map src_Mode sources = map (\<lambda>sp. map_index modes (sp_Name sp)) rs"
proof -
  have a: "list_all2 (\<lambda>sp s. RealPath (files (mounter (d_machine d)) w) sp = Inr (src_Path s) \<and>
      src_Mode s = map_index modes (sp_Name sp)) rs sources"
    using assms unfolding real_sources_def traverse_Inr_iff
    by (rule list_all2_mono) (auto split: sum.splits)
  then show "list_all2 (\<lambda>sp s. RealPath (files (mounter (d_machine d)) w) sp = Inr (src_Path s)) rs sources"
    by (rule list_all2_mono) simp
  show "map src_Mode sources = map (\<lambda>sp. map_index modes (sp_Name sp)) rs"
    using a by (induction rule: list_all2_induct) auto
qed

lemma parse_distinct:
  "parse d attrs = Inr a \<Longrightarrow> distinct (map sv_Name (pa_SourceVolumes a)) \<and>
     valid_sources (the_backend d) (pa_SourceVolumes a)"
  by (auto simp: parse_def parseAttributes_def parseSourceVolumes_Inr valid_sources_def
      split: option.splits sum.splits)

lemma publishUnion_mounts:
  assumes "publishUnion d req attrs opts p w = Some (Inr u, w')"
    and "distinct (map sv_Name (pa_SourceVolumes attrs))"
  shows "mounted_union d req (pa_SourceVolumes attrs) opts p w'"
proof -
  let ?svs = "pa_SourceVolumes attrs"
  let ?modes = "map (\<lambda>sv. (sv_Name sv, sv_Mode sv)) ?svs"
  obtain rs w1 sources w2 where
    rs: "ResolveIn (d_resolver d) p (map sv_Name ?svs) = Inr rs" and
    wait: "WaitReady (mounter (d_machine d)) rs (cfg_PublishTimeout (d_config d)) w = Some (Inr (), w1)" and
    src: "real_sources d ?modes rs w1 = Inr sources" and
    dir: "run_state (MkdirAll (d_machine d) (req_TargetPath req)) w1 = (Inr (), w2)" and
    mnt: "run_state (Mount (the_backend d) \<lparr>VolumeID = req_VolumeId req, Target = req_TargetPath req,
      Sources = sources, Options = opts, ReadOnly = req_Readonly req\<rparr>) w2 = (Inr (), w')"
    using assms(1) by (auto simp: publishUnion_def Let_def handler_simps)
  have names: "map fst ?modes = map sv_Name ?svs" "map snd ?modes = map sv_Mode ?svs" by simp_all
  have "map src_Mode sources = map sv_Mode ?svs"
    using real_sources_Inr(2) [OF src] pod_resolver.modes_in_order [of "d_resolver d" p ?modes rs]
      rs assms(2) by (simp only: names)
  then show ?thesis
    unfolding mounted_union_def
    using rs wait_all_ready [OF wait] real_sources_Inr(1) [OF src] dir mnt by blast
qed

lemma publishShared_shares:
  assumes "publishShared d req name source w = Some (Inr u, w')"
  shows "shared_union d req source w'"
proof -
  let ?first = "\<lparr>sp_Name = name, sp_Path = source, sp_CSIBased = True, sp_Root = [], sp_hostPaths = None\<rparr>"
  obtain w1 w2 where
    wait: "WaitReady (mounter (d_machine d)) [?first] (cfg_PublishTimeout (d_config d)) w = Some (Inr (), w1)" and
    dir: "run_state (MkdirAll (d_machine d) (req_TargetPath req)) w1 = (Inr (), w2)" and
    shr: "run_state (Share (the_backend d) (req_VolumeId req) source (req_TargetPath req)
      (req_Readonly req)) w2 = (Inr (), w')"
    using assms by (auto simp: publishShared_def Let_def handler_simps)
  have "IsMountPoint (mounter (d_machine d)) w1 source = Inr True"
    using wait_all_ready [OF wait] by (simp add: set_up_def)
  then show ?thesis unfolding shared_union_def using dir shr by blast
qed

lemma publish_success:
  assumes "NodePublishVolume d req w = Some (Inr (), w')"
    and "isMounted d (req_TargetPath req) w = Inr False"
  shows "\<exists>attrs opts p.
      parse d (req_VolumeContext req) = Inr attrs \<and>
      Resolve (the_policy d) (pa_Options attrs) = Inr opts \<and>
      GetPod (d_resolver d) (pa_PodNamespace attrs) (pa_PodName attrs) (pa_PodUID attrs) = Inr p \<and>
      (if cfg_ReuseMounts (d_config d) \<and> snd (sharedSource d p (req_TargetPath req)) \<noteq> []
       then shared_union d req (snd (sharedSource d p (req_TargetPath req))) w'
       else mounted_union d req (pa_SourceVolumes attrs) opts p w')"
proof -
  obtain attrs opts p where
    a: "parse d (req_VolumeContext req) = Inr attrs" and
    o: "Resolve (the_policy d) (pa_Options attrs) = Inr opts" and
    p: "GetPod (d_resolver d) (pa_PodNamespace attrs) (pa_PodName attrs) (pa_PodUID attrs) = Inr p" and
    r: "(case (if cfg_ReuseMounts (d_config d) then sharedSource d p (req_TargetPath req) else ([], [])) of
        (name, source) \<Rightarrow> if source \<noteq> [] then publishShared d req name source
          else publishUnion d req attrs opts p) w = Some (Inr (), w')"
    using assms unfolding NodePublishVolume_def
    by (auto simp: handler_simps split: if_splits)
  obtain name source where s: "sharedSource d p (req_TargetPath req) = (name, source)" by fastforce
  have "if cfg_ReuseMounts (d_config d) \<and> source \<noteq> [] then shared_union d req source w'
      else mounted_union d req (pa_SourceVolumes attrs) opts p w'"
    using r publishShared_shares [of d req name source w "()" w']
      publishUnion_mounts [of d req attrs opts p w "()" w'] parse_distinct [OF a]
    by (cases "cfg_ReuseMounts (d_config d)"; cases "source = []") (simp_all add: s)
  then show ?thesis using a o p s by auto
qed

text \<open>C12: A publish that succeeds for a target that was not mounted has mounted exactly what the
  request asks for: either the backend was given the resolved sources of the request, each set up on
  the node, in the order and with the modes of the request and the options the policy resolved, or
  the target was made a view of the one union of the pod it shares, which was mounted at the time.\<close>

theorem NodePublishVolume_success:
  assumes "NodePublishVolume d req w = Some (Inr (), w')"
    and "isMounted d (req_TargetPath req) w = Inr False"
  shows "\<exists>attrs opts p.
      parse d (req_VolumeContext req) = Inr attrs \<and>
      Resolve (the_policy d) (pa_Options attrs) = Inr opts \<and>
      GetPod (d_resolver d) (pa_PodNamespace attrs) (pa_PodName attrs) (pa_PodUID attrs) = Inr p \<and>
      (if cfg_ReuseMounts (d_config d) \<and> snd (sharedSource d p (req_TargetPath req)) \<noteq> []
       then shared_union d req (snd (sharedSource d p (req_TargetPath req))) w'
       else mounted_union d req (pa_SourceVolumes attrs) opts p w')"
  using assms by (rule publish_success)

section \<open>A publish returns\<close>

definition clock_runs :: "'w host \<Rightarrow> bool" where
  "clock_runs H \<longleftrightarrow> (\<forall>w t. \<exists>n. Now H ((Tick H ^^ n) w) > t)"

definition returns :: "('w, 'e, 'a) handler \<Rightarrow> bool" where
  "returns m \<longleftrightarrow> (\<forall>w. m w \<noteq> None)"

named_theorems returns_rules \<open>rules for handlers that return\<close>

lemma returns_give [returns_rules]: "returns (give r)"
  by (simp add: returns_def give_def)

lemma returns_observe [returns_rules]: "returns (observe f)"
  by (simp add: returns_def observe_def)

lemma returns_run [returns_rules]: "returns (run m h)"
  by (simp add: returns_def run_def split: prod.split)

lemma returns_if [returns_rules]: "returns m \<Longrightarrow> returns m' \<Longrightarrow> returns (if b then m else m')"
  by simp

lemma returns_then [returns_rules]:
  "returns m \<Longrightarrow> (\<And>x. returns (f x)) \<Longrightarrow> returns (and_then m f)"
  by (auto simp: returns_def and_then_def split: option.splits sum.splits)

lemma WaitReady_total: "clock_runs H \<Longrightarrow> \<exists>r w'. WaitReady H ps t w = Some (r, w')"
proof -
  assume "clock_runs H"
  then obtain n where n: "Now H ((Tick H ^^ n) w) > Now H w + t" by (auto simp: clock_runs_def)
  let ?v = "\<lambda>i. verdict H ps (Now H w + t) ((Tick H ^^ i) w)"
  have ex: "\<exists>i. ?v i \<noteq> None" using verdict_late [OF n] by (metis option.distinct(1))
  define m where "m = (LEAST i. ?v i \<noteq> None)"
  have "?v m \<noteq> None" unfolding m_def by (rule LeastI_ex [OF ex])
  moreover have "?v i = None" if "i < m" for i using not_less_Least that unfolding m_def by blast
  ultimately show ?thesis unfolding WaitReady_def wait_loop_iff by auto
qed

lemma returns_wait [returns_rules]: "clock_runs (mounter (d_machine d)) \<Longrightarrow> returns (wait_for d ps h)"
  using WaitReady_total [of "mounter (d_machine d)"]
  by (fastforce simp: returns_def wait_for_def split: option.splits)

text \<open>C27: Every publish returns, with a result, as long as the node's clock runs: waiting for the
  sources, its only unbounded loop, ends at the configured timeout whatever the pod mounts.\<close>

theorem NodePublishVolume_returns:
  assumes "clock_runs (mounter (d_machine d))"
  shows "\<exists>r w'. NodePublishVolume d req w = Some (r, w')"
proof -
  have fin: "returns (case q of (name, source) \<Rightarrow>
      if source \<noteq> [] then publishShared d req name source else publishUnion d req attrs opts p)"
    for q :: "string \<times> string" and attrs opts p
    unfolding publishShared_def publishUnion_def Let_def
    by (cases q) (auto intro!: returns_rules assms)
  have "returns (NodePublishVolume d req)"
    unfolding NodePublishVolume_def by (intro returns_rules fin)
  then show ?thesis by (auto simp: returns_def)
qed

section \<open>Unpublishing\<close>

text \<open>Unpublishing removes the target directory only after the backend has unmounted it, so a
  failed unmount never deletes through a mount; it succeeds when the directory is gone already, and
  can be repeated.\<close>

theorem NodeUnpublishVolume_order:
  assumes "NodeUnpublishVolume d volumeId target w = Some (r, w')" and "volumeId \<noteq> []" and "target \<noteq> []"
  shows "case run_state (Unmount (the_backend d) volumeId target) w of
      (Inl e, w1) \<Rightarrow> r = Inl (Internal, UnmountError e) \<and> w' = w1
    | (Inr _, w1) \<Rightarrow> \<exists>x. run_state (Remove (d_machine d) target) w1 = (x, w') \<and>
        (r = Inr () \<longleftrightarrow> x = Inr () \<or> x = Inl NotExist)"
  using assms
  by (auto simp: NodeUnpublishVolume_def and_then_def run_def split: prod.splits sum.splits if_splits)

section \<open>A node that is told its mounts\<close>

text \<open>The targets mounted so far and the time; every directory exists and none is a link.\<close>

type_synonym toy_node = "string list \<times> nat"

definition toy_is_mount :: "toy_node \<Rightarrow> string \<Rightarrow> os_error + bool" where
  "toy_is_mount w path = Inr (path \<in> set (fst w))"

definition no_links :: "string \<Rightarrow> os_error + bool" where
  "no_links path = Inr False"

definition no_target :: "string \<Rightarrow> os_error + string" where
  "no_target path = Inl (OtherOsError ''EINVAL'')"

definition dir_exists :: "string \<Rightarrow> os_error + unit" where
  "dir_exists path = Inr ()"

definition toy_host :: "toy_node host" where
  "toy_host = \<lparr>IsMountPoint = toy_is_mount,
     files = (\<lambda>w. \<lparr>Lstat = no_links, Readlink = no_target, Stat = dir_exists\<rparr>),
     Now = (\<lambda>w. 250 * int (snd w)), Done = (\<lambda>w. None), Tick = apsnd Suc\<rparr>"

definition toy_dir :: "string \<Rightarrow> (toy_node, os_error, unit) prog" where
  "toy_dir path = ok ()"

definition toy_mount :: "string \<Rightarrow> (toy_node, string, unit) prog" where
  "toy_mount target = State (\<lambda>w. (Inr (), apfst ((#) target) w))"

definition toy_unmount :: "string \<Rightarrow> (toy_node, string, unit) prog" where
  "toy_unmount target = State (\<lambda>w. (Inr (), apfst (filter (\<lambda>t. t \<noteq> target)) w))"

definition toy_backend :: "(toy_node, string) backend" where
  "toy_backend = \<lparr>Name = ''overlay'', Schema = overlay_Schema, SourceModes = overlay_SourceModes,
     MaxWritable = overlay_MaxWritable, DefaultOptions = overlay_DefaultOptions,
     DefaultDenylist = overlay_DefaultDenylist, Mount = (\<lambda>spec. toy_mount (Target spec)),
     Share = (\<lambda>_ _ target _. toy_mount target), Unmount = (\<lambda>_ target. toy_unmount target)\<rparr>"

definition toy_policy :: policy where
  "toy_policy = NewPolicy overlay_Schema \<lparr>Allowlist = [], Denylist = overlay_DefaultDenylist,
     DenylistMode = DenylistRefuse, Defaults = overlay_DefaultOptions, Forced = []\<rparr>"

definition web_driver :: "(toy_node, string) driver" where
  "web_driver = \<lparr>d_config = \<lparr>cfg_VendorVersion = ''v1'', cfg_DriverName = ''union.csi'',
       cfg_NodeID = ''n1'', cfg_Endpoint = ''unix:///csi.sock'', cfg_KubeletRoot = ''/var/lib/kubelet'',
       cfg_HostPaths = hostPaths web_resolver, cfg_StateDir = ''/s'', cfg_PublishTimeout = 1000,
       cfg_MaxSourceVolumes = 32, cfg_ReuseMounts = True, cfg_Backend = Some toy_backend,
       cfg_Policy = Some toy_policy, cfg_KubeClient = Some (client web_resolver)\<rparr>,
     d_resolver = web_resolver,
     d_machine = \<lparr>mounter = toy_host, MkdirAll = toy_dir, Remove = toy_dir\<rparr>\<rparr>"

definition web_target :: string where
  "web_target = ''/var/lib/kubelet/pods/u1/volumes/kubernetes.io~csi/union/mount''"

definition web_request :: publish_request where
  "web_request = \<lparr>req_VolumeCapability = True, req_VolumeId = ''csi-1'', req_TargetPath = web_target,
     req_VolumeContext = [(''sourceVolumes'', ''cache,data=RO''),
       (''csi.storage.k8s.io/ephemeral'', ''true''), (''csi.storage.k8s.io/pod.name'', ''web''),
       (''csi.storage.k8s.io/pod.namespace'', ''shop''), (''csi.storage.k8s.io/pod.uid'', ''u1'')],
     req_Readonly = False\<rparr>"

lemma web_parse:
  "parse web_driver (req_VolumeContext web_request) = Inr
     \<lparr>pa_SourceVolumes = [\<lparr>sv_Name = ''cache'', sv_Mode = ''RW''\<rparr>, \<lparr>sv_Name = ''data'', sv_Mode = ''RO''\<rparr>],
      pa_Options = [], pa_PodNamespace = ''shop'', pa_PodName = ''web'', pa_PodUID = ''u1''\<rparr>"
  by code_simp

lemma web_published: "NodePublishVolume web_driver web_request ([], 0) = Some (Inr (), ([web_target], 0))"
  by code_simp

lemma web_not_mounted: "isMounted web_driver (req_TargetPath web_request) ([], 0) = Inr False"
  by code_simp

lemma web_refused:
  "NodePublishVolume web_driver (web_request\<lparr>req_TargetPath := []\<rparr>) (ms, 7) =
     Some (Inl (InvalidArgument, TargetPathMissing), (ms, 7))"
  by (simp add: NodePublishVolume_def web_request_def give_def)

lemma web_unpublished:
  "NodeUnpublishVolume web_driver ''csi-1'' ''/t'' ([''/t''], 0) = Some (Inr (), ([], 0))"
  by code_simp

lemma toy_tick: "(Tick toy_host ^^ n) w = (fst w, snd w + n)"
  by (induction n) (simp_all add: toy_host_def)

lemma toy_clock: "clock_runs toy_host"
proof -
  have "Now toy_host ((Tick toy_host ^^ nat (abs t + 1)) w) > t" for w t
    unfolding toy_tick by (simp add: toy_host_def)
  then show ?thesis unfolding clock_runs_def by blast
qed

theorem NodePublishVolume_idempotent_witness:
  "NodePublishVolume web_driver web_request ([web_target], 0) = Some (Inr (), ([web_target], 0))"
proof -
  have "well_formed web_request" by code_simp
  moreover have "isMounted web_driver (req_TargetPath web_request) ([web_target], 0) = Inr True"
    by code_simp
  ultimately show ?thesis by (rule NodePublishVolume_idempotent)
qed

theorem NodePublishVolume_invalid_no_effect_witness:
  "snd (the (NodePublishVolume web_driver (web_request\<lparr>req_TargetPath := []\<rparr>) ([], 7))) = ([], 7)"
  using NodePublishVolume_invalid_no_effect [OF web_refused [of "[]"]] web_refused [of "[]"] by simp


theorem NodePublishVolume_success_witness:
  "\<exists>attrs opts p. parse web_driver (req_VolumeContext web_request) = Inr attrs \<and>
     mounted_union web_driver web_request (pa_SourceVolumes attrs) opts p ([web_target], 0)"
proof -
  have "snd (sharedSource web_driver web_pod web_target) = []" by code_simp
  moreover have "GetPod (d_resolver web_driver) ''shop'' ''web'' ''u1'' = Inr web_pod" by code_simp
  moreover have "req_TargetPath web_request = web_target" by (simp add: web_request_def)
  ultimately show ?thesis
    using NodePublishVolume_success [OF web_published web_not_mounted] by (auto simp: web_parse)
qed

theorem NodePublishVolume_returns_witness:
  "\<exists>r w'. NodePublishVolume web_driver web_request ([], 0) = Some (r, w')"
  by (rule NodePublishVolume_returns) (simp add: web_driver_def toy_clock)

theorem NodeUnpublishVolume_order_witness:
  "\<exists>x. run_state (Remove (d_machine web_driver) ''/t'') ([], 0) = (x, ([], 0)) \<and>
     (x = Inr () \<or> x = Inl NotExist)"
proof -
  have "run_state (Unmount (the_backend web_driver) ''csi-1'' ''/t'') ([''/t''], 0) = (Inr (), ([], 0))"
    by code_simp
  then show ?thesis using NodeUnpublishVolume_order [OF web_unpublished] by auto
qed

subsection \<open>Attributes\<close>

theorem volumeNameRE_dns_label_witness:
  "MatchString volumeNameRE ''data-0'' \<and> plain ''data-0'' \<and> \<not> MatchString volumeNameRE ''-a''"
proof -
  have "MatchString volumeNameRE ''data-0''" by code_simp
  then show ?thesis
    using volumeNameRE_dns_label [of "''data-0''"] volumeNameRE_dns_label [of "''-a''"] by simp
qed

theorem parseSourceVolumes_iff_witness:
  "list_all (\<lambda>sv. dns_label (sv_Name sv) \<and> sv_Mode sv \<in> set (fst (SourceModes toy_backend)))
     [\<lparr>sv_Name = ''cache'', sv_Mode = ''RW''\<rparr>, \<lparr>sv_Name = ''data'', sv_Mode = ''RO''\<rparr>]"
proof -
  have "parseSourceVolumes toy_backend 32 ''cache,data=RO'' = Inr
      [\<lparr>sv_Name = ''cache'', sv_Mode = ''RW''\<rparr>, \<lparr>sv_Name = ''data'', sv_Mode = ''RO''\<rparr>]" by code_simp
  then show ?thesis unfolding parseSourceVolumes_iff by (elim conjE)
qed

theorem parse_show_sources_witness:
  "parseSourceVolumes toy_backend 32 ''cache=RO,data=RO'' = Inr
     [\<lparr>sv_Name = ''cache'', sv_Mode = ''RO''\<rparr>, \<lparr>sv_Name = ''data'', sv_Mode = ''RO''\<rparr>]"
proof -
  let ?svs = "[\<lparr>sv_Name = ''cache'', sv_Mode = ''RO''\<rparr>, \<lparr>sv_Name = ''data'', sv_Mode = ''RO''\<rparr>]"
  have "valid_sources toy_backend ?svs" "list_all plain (fst (SourceModes toy_backend))"
    "show_sources ?svs = ''cache=RO,data=RO''" by code_simp+
  then show ?thesis using parse_show_sources [of toy_backend ?svs 32] by simp
qed

theorem parse_show_options_witness:
  "parseOptions ''index=off,uuid=a=b'' = Inr [(''index'', ''off''), (''uuid'', ''a=b'')]"
proof -
  have "show_options [(''index'', ''off''), (''uuid'', ''a=b'')] = ''index=off,uuid=a=b''" by code_simp
  then show ?thesis using parse_show_options [of "[(''index'', ''off''), (''uuid'', ''a=b'')]"] by simp
qed

end
