(* ===== verification/Sharing.thy ===== *)
theory Sharing
  imports Publish
begin

text \<open>
  Which volume of a pod mounts a union that several volumes declare (\<open>sharedSource\<close> of
  \<open>node.go\<close>): all of them agree on one, and that one mounts it itself.
\<close>

section \<open>When two volumes declare the same union\<close>

lemma maps_Equal_iff: "maps_Equal m n \<longleftrightarrow> map_of m = map_of n"
proof
  assume e: "maps_Equal m n"
  show "map_of m = map_of n"
  proof
    fix k
    show "map_of m k = map_of n k"
    proof (cases "k \<in> fst ` set m \<or> k \<in> fst ` set n")
      case True
      then show ?thesis using e by (auto simp: maps_Equal_def list_all_iff)
    next
      case False
      then have "map_of m k = None" "map_of n k = None" by (auto simp: map_of_eq_None_iff)
      then show ?thesis by simp
    qed
  qed
qed (simp add: maps_Equal_def list_all_iff)

lemma union_equal_iff:
  "union_equal u u' \<longleftrightarrow> ud_sources u = ud_sources u' \<and> map_of (ud_options u) = map_of (ud_options u') \<and>
     ud_readOnly u = ud_readOnly u'"
  by (simp add: union_equal_def maps_Equal_iff)

lemma union_equal_refl [simp]: "union_equal u u"
  by (simp add: union_equal_iff)

lemma union_equal_cong: "union_equal u u' \<Longrightarrow> union_equal x u \<longleftrightarrow> union_equal x u'"
  by (auto simp: union_equal_iff)

section \<open>The loops\<close>

lemma wanted_union_other: "self \<notin> vol_Name ` set vs \<Longrightarrow> wanted_union d self vs want = want"
  by (induction vs arbitrary: want) auto

lemma wanted_union_distinct:
  "distinct (map vol_Name vs) \<Longrightarrow> v \<in> set vs \<Longrightarrow>
     wanted_union d (vol_Name v) vs want = declaredUnion d v"
proof (induction vs arbitrary: want)
  case (Cons x vs)
  show ?case
  proof (cases "x = v")
    case True
    then have "vol_Name v \<notin> vol_Name ` set vs" using Cons.prems(1) by auto
    then show ?thesis using True by (simp add: wanted_union_other)
  qed (use Cons in auto)
qed simp

text \<open>A volume the loop would stop at: referenced, and declaring the wanted union.\<close>

definition mounts_union :: "('w, 'e) driver \<Rightarrow> pod \<Rightarrow> union_decl \<Rightarrow> volume \<Rightarrow> bool" where
  "mounts_union d p want v \<longleftrightarrow> vol_Name v \<in> set (ReferencedVolumes p) \<and>
     (case declaredUnion d v of None \<Rightarrow> False | Some got \<Rightarrow> union_equal got want)"

lemma first_sharing_find:
  "first_sharing d csiDir self (ReferencedVolumes p) want vs =
     (case find (mounts_union d p want) (takeWhile (\<lambda>v. vol_Name v \<noteq> self) vs) of
        None \<Rightarrow> ([], [])
      | Some l \<Rightarrow> (vol_Name l, filepath_Join [csiDir, vol_Name l, ''mount'']))"
  by (induction vs) (auto simp: mounts_union_def split: option.split)

lemma find_before:
  "distinct (map vol_Name vs) \<Longrightarrow> v \<in> set vs \<Longrightarrow> P v \<Longrightarrow>
     find P vs = Some (case find P (takeWhile (\<lambda>x. vol_Name x \<noteq> vol_Name v) vs) of
        None \<Rightarrow> v | Some l \<Rightarrow> l)"
proof (induction vs)
  case (Cons x vs)
  then show ?case by (cases "x = v") (auto split: option.split)
qed simp

section \<open>The paths kubelet uses\<close>

definition csi_dir :: "('w, 'e) driver \<Rightarrow> pod \<Rightarrow> string" where
  "csi_dir d p = filepath_Join [cfg_KubeletRoot (d_config d), ''pods'', pod_UID p, ''volumes'',
     ''kubernetes.io~csi'']"

definition target_of :: "('w, 'e) driver \<Rightarrow> pod \<Rightarrow> volume \<Rightarrow> string" where
  "target_of d p v = filepath_Join [csi_dir d p, vol_Name v, ''mount'']"

lemma csi_dir_abs:
  assumes "filepath_IsAbs (cfg_KubeletRoot (d_config d))"
  shows "filepath_IsAbs (csi_dir d p)" and "csi_dir d p = render (elems (csi_dir d p))"
  unfolding csi_dir_def using IsAbs_Join [OF assms] render_elems_Join [OF assms] by simp_all

lemma target_render:
  assumes "filepath_IsAbs (cfg_KubeletRoot (d_config d))" and "proper (vol_Name v)"
  shows "target_of d p v = render ((elems (csi_dir d p) @ [vol_Name v]) @ [''mount''])"
proof -
  have m: "proper ''mount''" by code_simp
  show ?thesis
    unfolding target_of_def
    using Join_abs_propers [OF csi_dir_abs(1) [OF assms(1)], of "[vol_Name v, ''mount'']"] assms(2) m
    by simp
qed

lemma target_parts:
  assumes "filepath_IsAbs (cfg_KubeletRoot (d_config d))" and "proper (vol_Name v)"
  shows "filepath_Base (target_of d p v) = ''mount''"
    and "filepath_Base (filepath_Dir (target_of d p v)) = vol_Name v"
    and "filepath_Dir (filepath_Dir (target_of d p v)) = csi_dir d p"
proof -
  have m: "proper ''mount''" by code_simp
  note t = target_render [OF assms]
  have D: "filepath_Dir (target_of d p v) = render (elems (csi_dir d p) @ [vol_Name v])"
    unfolding t by (subst Dir_render) (use assms(2) m in \<open>simp_all add: butlast_append\<close>)
  show "filepath_Base (target_of d p v) = ''mount''" unfolding t by (rule Base_render_snoc [OF m])
  show "filepath_Base (filepath_Dir (target_of d p v)) = vol_Name v"
    unfolding D by (rule Base_render_snoc [OF assms(2)])
  show "filepath_Dir (filepath_Dir (target_of d p v)) = csi_dir d p"
    unfolding D by (subst Dir_render) (use assms(2) csi_dir_abs(2) [OF assms(1)] in simp_all)
qed

section \<open>One volume mounts the union for all\<close>

text \<open>What the API server guarantees of a pod: volume names are DNS labels and different.\<close>

definition named_apart :: "pod \<Rightarrow> bool" where
  "named_apart p \<longleftrightarrow> distinct (map vol_Name (pod_Volumes p)) \<and>
     list_all (\<lambda>v. dns_label (vol_Name v)) (pod_Volumes p)"

lemma dns_label_proper: "dns_label s \<Longrightarrow> proper s"
proof -
  assume d: "dns_label s"
  then have "slash \<notin> set s" using dns_label_safe [OF d] plain_no by blast
  then show ?thesis using d dns_label_safe [OF d] by (auto simp: proper_def dns_label_def)
qed

text \<open>The name of the volume that mounts the union of \<open>v\<close>: its own, or that of the one it waits
  for.\<close>

definition leader :: "('w, 'e) driver \<Rightarrow> pod \<Rightarrow> volume \<Rightarrow> string" where
  "leader d p v =
     (let s = sharedSource d p (target_of d p v) in if snd s = [] then vol_Name v else fst s)"

lemma sharedSource_find:
  assumes "filepath_IsAbs (cfg_KubeletRoot (d_config d))" and "named_apart p"
    and "v \<in> set (pod_Volumes p)"
  shows "sharedSource d p (target_of d p v) =
    (case declaredUnion d v of
       None \<Rightarrow> ([], [])
     | Some want \<Rightarrow>
         (case find (mounts_union d p want)
                (takeWhile (\<lambda>x. vol_Name x \<noteq> vol_Name v) (pod_Volumes p)) of
            None \<Rightarrow> ([], [])
          | Some l \<Rightarrow> (vol_Name l, target_of d p l)))"
proof -
  have pr: "proper (vol_Name v)"
    using assms(2,3) dns_label_proper by (auto simp: named_apart_def list_all_iff)
  have w: "wanted_union d (vol_Name v) (pod_Volumes p) None = declaredUnion d v"
    using assms(2,3) by (simp add: named_apart_def wanted_union_distinct)
  show ?thesis
    unfolding sharedSource_def Let_def csi_dir_def [symmetric]
    by (simp add: target_parts [OF assms(1) pr] w first_sharing_find target_of_def [symmetric] split: option.split)
qed

lemma target_not_Nil: "target_of d p v \<noteq> []"
  by (simp add: target_of_def Join_not_Nil)

lemma leader_find:
  assumes "filepath_IsAbs (cfg_KubeletRoot (d_config d))" and "named_apart p"
    and "v \<in> set (pod_Volumes p)" and "declaredUnion d v = Some want"
    and "vol_Name v \<in> set (ReferencedVolumes p)"
  shows "\<exists>l \<in> set (pod_Volumes p). find (mounts_union d p want) (pod_Volumes p) = Some l \<and>
     leader d p v = vol_Name l \<and>
     (if l = v then sharedSource d p (target_of d p v) = ([], [])
      else sharedSource d p (target_of d p v) = (vol_Name l, target_of d p l))"
proof -
  let ?vs = "pod_Volumes p" and ?P = "mounts_union d p want"
  let ?before = "takeWhile (\<lambda>x. vol_Name x \<noteq> vol_Name v) ?vs"
  have f: "find ?P ?vs = Some (case find ?P ?before of None \<Rightarrow> v | Some l \<Rightarrow> l)"
    using assms(2-5) by (intro find_before) (auto simp: named_apart_def mounts_union_def)
  have s: "sharedSource d p (target_of d p v) =
      (case find ?P ?before of None \<Rightarrow> ([], []) | Some l \<Rightarrow> (vol_Name l, target_of d p l))"
    using sharedSource_find [OF assms(1-3)] assms(4) by simp
  show ?thesis
  proof (cases "find ?P ?before")
    case None
    then show ?thesis using f s assms(3) by (auto simp: leader_def)
  next
    case (Some l)
    then have "l \<in> set ?before" by (auto simp: find_Some_iff)
    then have "l \<in> set ?vs" and "vol_Name l \<noteq> vol_Name v" by (auto dest: set_takeWhileD)
    then show ?thesis using f s Some target_not_Nil by (auto simp: leader_def)
  qed
qed

text \<open>C14: All volumes of a pod that some container mounts and that declare the same union agree on
  one of them, which mounts it itself; each of the others waits for that one's target and binds it.
  So the union is mounted once, and no two volumes wait for each other.\<close>

theorem sharing_one_leader:
  assumes "filepath_IsAbs (cfg_KubeletRoot (d_config d))" and "named_apart p"
    and "v \<in> set (pod_Volumes p)" and "vol_Name v \<in> set (ReferencedVolumes p)"
    and "v' \<in> set (pod_Volumes p)" and "vol_Name v' \<in> set (ReferencedVolumes p)"
    and "declaredUnion d v = Some u" and "declaredUnion d v' = Some u'" and "union_equal u u'"
  shows "leader d p v = leader d p v' \<and>
     (\<exists>l \<in> set (pod_Volumes p). vol_Name l = leader d p v \<and>
        vol_Name l \<in> set (ReferencedVolumes p) \<and>
        sharedSource d p (target_of d p l) = ([], []) \<and>
        (v \<noteq> l \<longrightarrow> sharedSource d p (target_of d p v) = (vol_Name l, target_of d p l)))"
proof -
  have P: "mounts_union d p u = mounts_union d p u'"
    using union_equal_cong [OF assms(9)] by (auto simp: mounts_union_def fun_eq_iff split: option.split)
  obtain l where l: "l \<in> set (pod_Volumes p)" "find (mounts_union d p u) (pod_Volumes p) = Some l"
    "leader d p v = vol_Name l"
    "if l = v then sharedSource d p (target_of d p v) = ([], [])
     else sharedSource d p (target_of d p v) = (vol_Name l, target_of d p l)"
    using leader_find [OF assms(1-3,7,4)] by blast
  have "leader d p v' = vol_Name l"
    using leader_find [OF assms(1,2,5,8,6)] l(2) by (auto simp: P)
  have m: "mounts_union d p u l" using l(2) by (auto simp: find_Some_iff)
  then obtain w where w: "declaredUnion d l = Some w" "union_equal w u"
    and r: "vol_Name l \<in> set (ReferencedVolumes p)"
    by (auto simp: mounts_union_def split: option.splits)
  have "mounts_union d p w = mounts_union d p u"
    using union_equal_cong [OF w(2)] by (auto simp: mounts_union_def fun_eq_iff split: option.split)
  then have "sharedSource d p (target_of d p l) = ([], [])"
    using leader_find [OF assms(1,2) l(1) w(1) r] l(2) by auto
  then show ?thesis using l r \<open>leader d p v' = vol_Name l\<close> by (auto split: if_splits)
qed

section \<open>Two volumes of the same union\<close>

definition union_volume :: "string \<Rightarrow> volume" where
  "union_volume n = blank_volume n\<lparr>vol_CSI := Some \<lparr>csi_Driver = ''union.csi'',
     csi_VolumeAttributes = [(''sourceVolumes'', ''cache'')], csi_ReadOnly = None\<rparr>\<rparr>"

definition twin_pod :: pod where
  "twin_pod = web_pod\<lparr>pod_Volumes := [blank_volume ''cache''\<lparr>vol_EmptyDir := True\<rparr>,
     union_volume ''one'', union_volume ''two''],
     Containers := [\<lparr>VolumeMounts = [''cache'', ''one'', ''two''], VolumeDevices = []\<rparr>]\<rparr>"

theorem sharing_one_leader_witness:
  "leader web_driver twin_pod (union_volume ''two'') = leader web_driver twin_pod (union_volume ''one'')"
proof -
  let ?u = "\<lparr>ud_sources = [\<lparr>sv_Name = ''cache'', sv_Mode = ''RW''\<rparr>], ud_options = [], ud_readOnly = False\<rparr>"
  have "filepath_IsAbs (cfg_KubeletRoot (d_config web_driver))" "named_apart twin_pod" by code_simp+
  moreover have "union_volume ''one'' \<in> set (pod_Volumes twin_pod)"
    "union_volume ''two'' \<in> set (pod_Volumes twin_pod)" by (simp_all add: twin_pod_def)
  moreover have "vol_Name (union_volume ''one'') \<in> set (ReferencedVolumes twin_pod)"
    "vol_Name (union_volume ''two'') \<in> set (ReferencedVolumes twin_pod)" by code_simp+
  moreover have "declaredUnion web_driver (union_volume ''one'') = Some ?u"
    "declaredUnion web_driver (union_volume ''two'') = Some ?u" by code_simp+
  ultimately show ?thesis using sharing_one_leader [of web_driver twin_pod] union_equal_refl by blast
qed

end
