(* ===== verification/Startup.thy ===== *)
theory Startup
  imports Publish
begin

text \<open>
  What happens before the driver serves: the registry of backends (\<open>backend.go\<close>), the endpoint
  (\<open>internal/endpoint/endpoint.go\<close>) and the configuration \<open>main\<close> builds from its flags
  (\<open>cmd/union-csi-driver/main.go\<close>).
\<close>

section \<open>The registry of backends\<close>

type_synonym ('w, 'e) registry = "(string \<times> ('w, 'e) backend) list"

definition Register :: "string \<Rightarrow> ('w, 'e) backend \<Rightarrow> ('w, 'e) registry \<Rightarrow> ('w, 'e) registry" where
  "Register name ctor registry = AList.update name ctor registry"

definition Get :: "('w, 'e) registry \<Rightarrow> string \<Rightarrow> ('w, 'e) backend option" where
  "Get registry name = map_of registry name"

definition Names :: "('w, 'e) registry \<Rightarrow> string list" where
  "Names registry = map fst registry"

section \<open>Endpoints\<close>

definition lower_char :: "char \<Rightarrow> char" where
  "lower_char c = (if CHR ''A'' \<le> c \<and> c \<le> CHR ''Z'' then char_of (of_char c + 32 :: nat) else c)"

text \<open>\<open>strings.ToLower\<close> as far as an ASCII prefix of the result can tell: bytes beyond ASCII are left
  alone, except for the two characters whose lower case is an ASCII letter, U+0130 and U+212A.\<close>

fun ToLower :: "string \<Rightarrow> string" where
  "ToLower [] = []"
| "ToLower [c] = [lower_char c]"
| "ToLower [c, d] = (if c = CHR 0xC4 \<and> d = CHR 0xB0 then ''i'' else lower_char c # ToLower [d])"
| "ToLower (c # d # e # s) =
     (if c = CHR 0xC4 \<and> d = CHR 0xB0 then CHR ''i'' # ToLower (e # s)
      else if c = CHR 0xE2 \<and> d = CHR 0x84 \<and> e = CHR 0xAA then CHR ''k'' # ToLower s
      else lower_char c # ToLower (d # e # s))"

text \<open>\<open>strings.SplitN(ep, "://", 2)\<close>.\<close>

fun cut_scheme :: "string \<Rightarrow> (string \<times> string) option" where
  "cut_scheme [] = None"
| "cut_scheme (c # s) =
     (if prefix ''://'' (c # s) then Some ([], drop 3 (c # s))
      else map_option (apfst ((#) c)) (cut_scheme s))"

definition Parse :: "string \<Rightarrow> string + (string \<times> string)" where
  "Parse ep =
     (if prefix ''unix://'' (ToLower ep) \<or> prefix ''tcp://'' (ToLower ep) then
        (case cut_scheme ep of
           Some (proto, addr) \<Rightarrow> if addr \<noteq> [] then Inr (proto, addr) else Inl ep
         | None \<Rightarrow> Inl ep)
      else Inr (''unix'', ep))"

datatype listen_error = InvalidEndpoint string | RemoveFailed string os_error | ListenFailed os_error

text \<open>The listener, the socket file its clean-up removes, and the error; a failed \<open>net.Listen\<close> still
  hands out the clean-up.\<close>

definition Listen ::
    "(string \<Rightarrow> ('w, os_error, unit) prog) \<Rightarrow> (string \<Rightarrow> string \<Rightarrow> ('w, os_error, 'l) prog) \<Rightarrow> string \<Rightarrow>
     ('w, 'l option \<times> string option \<times> listen_error option) state" where
  "Listen remove listen endpoint =
     (case Parse endpoint of
        Inl e \<Rightarrow> State_Monad.return (None, None, Some (InvalidEndpoint e))
      | Inr (proto, addr) \<Rightarrow>
          do {
            removed \<leftarrow> (if proto = ''unix'' then remove addr else ok ());
            case removed of
              Inl e \<Rightarrow>
                if e \<noteq> NotExist then State_Monad.return (None, None, Some (RemoveFailed addr e))
                else do {
                  l \<leftarrow> listen proto addr;
                  State_Monad.return (case l of
                      Inl e \<Rightarrow> (None, Some addr, Some (ListenFailed e))
                    | Inr x \<Rightarrow> (Some x, Some addr, None)) }
            | Inr _ \<Rightarrow> do {
                l \<leftarrow> listen proto addr;
                State_Monad.return (case l of
                    Inl e \<Rightarrow> (None, if proto = ''unix'' then Some addr else None, Some (ListenFailed e))
                  | Inr x \<Rightarrow> (Some x, if proto = ''unix'' then Some addr else None, None)) }
          })"

section \<open>Flags\<close>

definition csvFlag_String :: "string list \<Rightarrow> string" where
  "csvFlag_String vs = join_with '','' vs"

definition csvFlag_Set :: "string \<Rightarrow> string list" where
  "csvFlag_Set v = (if v = [] then [] else split_on (CHR '','') v)"

definition kvFlag_String :: "string gomap \<Rightarrow> string" where
  "kvFlag_String m = join_with '','' (map (\<lambda>(k, v). k @ ''='' @ v) m)"

definition kvFlag_Set :: "string \<Rightarrow> string gomap" where
  "kvFlag_Set v =
     (if v = [] then []
      else foldl (\<lambda>result pair. case cut_at (CHR ''='') pair of
               Some (k, x) \<Rightarrow> AList.update k x result
             | None \<Rightarrow> AList.update pair [] result) [] (split_on (CHR '','') v))"

section \<open>The configuration\<close>

text \<open>The values of the flags that make the configuration, and the names of those given.\<close>

record flags =
  fl_endpoint :: string
  fl_drivername :: string
  fl_nodeid :: string
  fl_backend :: string
  fl_kubelet_root :: string
  fl_host_root :: string
  fl_host_path_allow :: "string list"
  fl_host_path_deny :: "string list"
  fl_state_dir :: string
  fl_publish_timeout :: int
  fl_max_source_volumes :: int
  fl_reuse_mounts :: bool
  fl_option_allowlist :: "string list"
  fl_option_denylist :: "string list"
  fl_denylist_mode :: string
  fl_default_options :: "string gomap"
  fl_forced_options :: "string gomap"
  fl_set :: "string list"

text \<open>The values before the command line is read.\<close>

definition default_flags :: flags where
  "default_flags = \<lparr>fl_endpoint = ''unix:///csi/csi.sock'', fl_drivername = [], fl_nodeid = [],
     fl_backend = [], fl_kubelet_root = ''/var/lib/kubelet'', fl_host_root = ''/host'',
     fl_host_path_allow = [], fl_host_path_deny = [], fl_state_dir = [],
     fl_publish_timeout = 30 * 1000000000, fl_max_source_volumes = 32, fl_reuse_mounts = True,
     fl_option_allowlist = [], fl_option_denylist = [], fl_denylist_mode = ''refuse'',
     fl_default_options = [], fl_forced_options = [], fl_set = []\<rparr>"

datatype startup_error =
    InvalidDenylistMode string
  | UnknownBackend string
  | InvalidHostPaths string
  | InvalidPolicy policy_error
  | NoCluster string

definition policy_flags :: "flags \<Rightarrow> ('w, 'e) backend \<Rightarrow> policy_config" where
  "policy_flags fl be =
     \<lparr>Allowlist = fl_option_allowlist fl,
      Denylist = (if ''option-denylist'' \<notin> set (fl_set fl) then DefaultDenylist be
                  else fl_option_denylist fl),
      DenylistMode = fl_denylist_mode fl,
      Defaults = (if ''default-options'' \<notin> set (fl_set fl) then DefaultOptions be
                  else fl_default_options fl),
      Forced = fl_forced_options fl\<rparr>"

text \<open>\<open>cluster\<close> is the client of the API server the pod runs in, or why there is none.\<close>

definition main_config ::
    "('w, 'e) registry \<Rightarrow> string \<Rightarrow> string + api \<Rightarrow> flags \<Rightarrow> startup_error + ('w, 'e) driver_config" where
  "main_config registry version cluster fl =
     (if fl_denylist_mode fl \<noteq> DenylistRefuse \<and> fl_denylist_mode fl \<noteq> DenylistStrip
      then Inl (InvalidDenylistMode (fl_denylist_mode fl))
      else (case Get registry (fl_backend fl) of
          None \<Rightarrow> Inl (UnknownBackend (fl_backend fl))
        | Some be \<Rightarrow>
            (let name = (if fl_drivername fl = [] then fl_backend fl @ ''.csi.ruekov.eu''
                         else fl_drivername fl);
                 stateDir = (if fl_state_dir fl = []
                             then filepath_Join [fl_kubelet_root fl, ''plugins'', name, ''state'']
                             else fl_state_dir fl);
                 hostPaths = \<lparr>hp_Root = fl_host_root fl, hp_Allowed = fl_host_path_allow fl,
                              hp_Denied = fl_host_path_deny fl\<rparr>;
                 pol = NewPolicy (Schema be) (policy_flags fl be)
             in case hp_Validate hostPaths of
                  Inl e \<Rightarrow> Inl (InvalidHostPaths e)
                | Inr _ \<Rightarrow>
                    (case Validate pol of
                       Inl e \<Rightarrow> Inl (InvalidPolicy e)
                     | Inr _ \<Rightarrow>
                         (case cluster of
                            Inl e \<Rightarrow> Inl (NoCluster e)
                          | Inr kubeClient \<Rightarrow>
                              Inr \<lparr>cfg_VendorVersion = version, cfg_DriverName = name,
                                cfg_NodeID = fl_nodeid fl, cfg_Endpoint = fl_endpoint fl,
                                cfg_KubeletRoot = fl_kubelet_root fl, cfg_HostPaths = hostPaths,
                                cfg_StateDir = stateDir, cfg_PublishTimeout = fl_publish_timeout fl,
                                cfg_MaxSourceVolumes = fl_max_source_volumes fl,
                                cfg_ReuseMounts = fl_reuse_mounts fl, cfg_Backend = Some be,
                                cfg_Policy = Some pol, cfg_KubeClient = Some kubeClient\<rparr>)))))"

section \<open>Flags read back\<close>

lemma join_with_Nil_iff: "join_with [c] vs = [] \<longleftrightarrow> vs = [] \<or> vs = [[]]"
  by (cases "([c], vs)" rule: join_with.cases) auto

text \<open>A list flag reads back what it prints, so a configuration shown by the flag package can be
  given again; the one list it cannot tell from the empty list is that of one empty entry.\<close>

theorem csvFlag_roundtrip:
  assumes "list_all (\<lambda>v. CHR '','' \<notin> set v) vs"
  shows "csvFlag_Set (csvFlag_String vs) = (if vs = [[]] then [] else vs)"
proof (cases "vs = [] \<or> vs = [[]]")
  case True
  then show ?thesis by (auto simp: csvFlag_Set_def csvFlag_String_def)
next
  case False
  then have "split_on (CHR '','') (csvFlag_String vs) = vs"
    unfolding csvFlag_String_def using assms by (intro split_join_with) (auto simp: list_all_iff)
  moreover have "csvFlag_String vs \<noteq> []"
    using False by (simp add: csvFlag_String_def join_with_Nil_iff)
  ultimately show ?thesis using False by (simp add: csvFlag_Set_def)
qed

theorem csvFlag_roundtrip_witness:
  "csvFlag_Set (csvFlag_String [''/srv'', ''/mnt'']) = [''/srv'', ''/mnt'']"
  using csvFlag_roundtrip [of "[''/srv'', ''/mnt'']"] by simp

lemma kv_fold:
  "list_all (\<lambda>(k, v). CHR ''='' \<notin> set k) m \<Longrightarrow> wf_map (m0 @ m) \<Longrightarrow>
     foldl (\<lambda>result pair. case cut_at (CHR ''='') pair of
         Some (k, x) \<Rightarrow> AList.update k x result
       | None \<Rightarrow> AList.update pair [] result) m0 (map (\<lambda>(k, v). k @ ''='' @ v) m) = m0 @ m"
proof (induction m arbitrary: m0)
  case (Cons e m)
  obtain k v where e: "e = (k, v)" by fastforce
  then show ?case using Cons.IH [of "m0 @ [(k, v)]"] Cons.prems
    by (auto simp: cut_at_append update_fresh)
qed simp

text \<open>A map flag reads back what it prints, for keys without separators and values without
  commas, whichever order the map is printed in.\<close>

theorem kvFlag_roundtrip:
  assumes "wf_map m"
    and "list_all (\<lambda>(k, v). CHR ''='' \<notin> set k \<and> CHR '','' \<notin> set k \<and> CHR '','' \<notin> set v) m"
  shows "kvFlag_Set (kvFlag_String m) = m"
proof (cases "m = []")
  case False
  let ?pairs = "map (\<lambda>(k, v). k @ ''='' @ v) m"
  have "split_on (CHR '','') (kvFlag_String m) = ?pairs"
    unfolding kvFlag_String_def
    by (rule split_join_with) (use False assms(2) in \<open>auto simp: list_all_iff\<close>)
  moreover have "kvFlag_String m \<noteq> []"
    using False by (auto simp: kvFlag_String_def join_with_Nil_iff)
  moreover have "list_all (\<lambda>(k, v). CHR ''='' \<notin> set k) m"
    using assms(2) by (auto simp: list_all_iff)
  ultimately show ?thesis using kv_fold [of m "[]"] assms(1) by (simp add: kvFlag_Set_def)
qed (simp add: kvFlag_Set_def kvFlag_String_def)

theorem kvFlag_roundtrip_witness:
  "kvFlag_Set (kvFlag_String [(''xino'', ''off''), (''note'', ''a=b'')]) =
     [(''xino'', ''off''), (''note'', ''a=b'')]"
  by (rule kvFlag_roundtrip) simp_all

section \<open>Endpoints\<close>

lemma lower_char_mark: "lower_char c = m \<Longrightarrow> m = CHR '':'' \<or> m = CHR ''/'' \<Longrightarrow> c = m"
proof -
  assume l: "lower_char c = m" and m: "m = CHR '':'' \<or> m = CHR ''/''"
  have "\<not> (CHR ''A'' \<le> c \<and> c \<le> CHR ''Z'')"
  proof
    assume up: "CHR ''A'' \<le> c \<and> c \<le> CHR ''Z''"
    then have b: "65 \<le> (of_char c :: nat)" "(of_char c :: nat) \<le> 90" by (simp_all add: less_eq_char_def)
    have "(of_char m :: nat) = (of_char c + 32) mod 256"
      using l up by (auto simp: lower_char_def)
    then have "(of_char m :: nat) \<ge> 97" using b by simp
    then show False using m by auto
  qed
  then show "c = m" using l by (simp only: lower_char_def if_False)
qed

lemma ToLower_tl: "ToLower s = x # t \<Longrightarrow> \<exists>a s'. s = a @ s' \<and> t = ToLower s'"
proof (induction s rule: ToLower.induct)
  case (2 c)
  then show ?case by (intro exI [of _ "[c]"] exI [of _ "[]"]) simp
next
  case (3 c d)
  then show ?case by (auto split: if_splits intro: exI [of _ "[c]"] exI [of _ "[c, d]"])
next
  case (4 c d e s)
  then show ?case
    by (auto split: if_splits intro: exI [of _ "[c]"] exI [of _ "[c, d]"] exI [of _ "[c, d, e]"])
qed auto

lemma ToLower_mark:
  "ToLower s = m # t \<Longrightarrow> m = CHR '':'' \<or> m = CHR ''/'' \<Longrightarrow> \<exists>s'. s = m # s' \<and> t = ToLower s'"
  by (cases s rule: ToLower.cases) (auto split: if_splits dest: lower_char_mark)

lemma cut_scheme_append: "cut_scheme s \<noteq> None \<Longrightarrow> cut_scheme (a @ s) \<noteq> None"
  by (induction a) auto

lemma cut_scheme_here: "cut_scheme (''://'' @ s) = Some ([], s)"
  by simp

lemma scheme_cut:
  "ToLower s = u @ ''://'' @ t \<Longrightarrow> cut_scheme s \<noteq> None"
proof (induction u arbitrary: s)
  case Nil
  then obtain s1 where s1: "s = CHR '':'' # s1" "''//'' @ t = ToLower s1"
    using ToLower_mark [of s "CHR '':''" "''//'' @ t"] by auto
  then obtain s2 where s2: "s1 = CHR ''/'' # s2" "''/'' @ t = ToLower s2"
    using ToLower_mark [of s1 "CHR ''/''" "''/'' @ t"] by auto
  then obtain s3 where "s2 = CHR ''/'' # s3"
    using ToLower_mark [of s2 "CHR ''/''" t] by auto
  then show ?case using s1 s2 by simp
next
  case (Cons c u)
  then obtain a s' where "s = a @ s'" "u @ ''://'' @ t = ToLower s'"
    using ToLower_tl [of s c "u @ ''://'' @ t"] by auto
  then show ?case using Cons.IH [of s'] cut_scheme_append by metis
qed

lemma cut_scheme_Some: "cut_scheme s = Some (a, b) \<Longrightarrow> s = a @ ''://'' @ b"
proof (induction s arbitrary: a)
  case (Cons c s)
  show ?case
  proof (cases "prefix ''://'' (c # s)")
    case True
    then show ?thesis using Cons.prems by (auto simp: prefix_def)
  next
    case False
    then obtain a' where "cut_scheme s = Some (a', b)" "a = c # a'"
      using Cons.prems by (cases "cut_scheme s") (auto simp: apfst_def map_prod_def split: prod.splits)
    then show ?thesis using Cons.IH by simp
  qed
qed simp

definition names_scheme :: "string \<Rightarrow> bool" where
  "names_scheme ep \<longleftrightarrow> prefix ''unix://'' (ToLower ep) \<or> prefix ''tcp://'' (ToLower ep)"

lemma names_scheme_cut: "names_scheme ep \<Longrightarrow> cut_scheme ep \<noteq> None"
  using scheme_cut [of ep "''unix''"] scheme_cut [of ep "''tcp''"]
  by (auto simp: names_scheme_def prefix_def)

text \<open>Parsing splits an endpoint at its scheme and loses nothing: the parts make up the input
  again, an endpoint without a scheme is a socket path, and only a scheme with nothing after it is
  refused. The index into the split is never out of range. The scheme keeps the case it was written
  in.\<close>

theorem Parse_splits:
  "case Parse ep of
     Inr (proto, addr) \<Rightarrow>
       if names_scheme ep then ep = proto @ ''://'' @ addr \<and> addr \<noteq> []
       else proto = ''unix'' \<and> addr = ep
   | Inl e \<Rightarrow> names_scheme ep \<and> (\<exists>proto. cut_scheme ep = Some (proto, []))"
proof (cases "names_scheme ep")
  case True
  then obtain proto addr where c: "cut_scheme ep = Some (proto, addr)"
    using names_scheme_cut by fastforce
  then have "Parse ep = (if addr \<noteq> [] then Inr (proto, addr) else Inl ep)"
    using True by (simp add: Parse_def names_scheme_def)
  moreover have "ep = proto @ ''://'' @ addr" using c by (rule cut_scheme_Some)
  ultimately show ?thesis using True c by (cases "addr = []") (simp_all only: if_True if_False simp_thms
      sum.case prod.case not_False_eq_True, blast+)
next
  case False
  then have "Parse ep = Inr (''unix'', ep)" by (simp add: Parse_def names_scheme_def)
  then show ?thesis using False by simp
qed

theorem Parse_splits_witness:
  "Parse ''unix:///csi/csi.sock'' = Inr (''unix'', ''/csi/csi.sock'') \<and>
   ''unix:///csi/csi.sock'' = ''unix'' @ ''://'' @ ''/csi/csi.sock''"
proof -
  have p: "Parse ''unix:///csi/csi.sock'' = Inr (''unix'', ''/csi/csi.sock'')"
    "names_scheme ''unix:///csi/csi.sock''" by code_simp+
  then show ?thesis using Parse_splits [of "''unix:///csi/csi.sock''"] by (simp only: p) simp
qed

text \<open>The socket file an earlier run left is removed, and a clean-up set up for the new one, only
  for the protocol spelled in lower case: an endpoint \<open>UNIX://path\<close>, which parsing accepts, goes to
  \<open>net.Listen\<close> with a network name it does not know.\<close>

theorem Listen_case_sensitive:
  assumes "Parse ep = Inr (proto, addr)" and "proto \<noteq> ''unix''"
  shows "run_state (Listen remove listen ep) w =
    (case run_state (listen proto addr) w of
       (Inl e, w') \<Rightarrow> ((None, None, Some (ListenFailed e)), w')
     | (Inr l, w') \<Rightarrow> ((Some l, None, None), w'))"
  using assms by (auto simp: Listen_def split: prod.split sum.split)

theorem Listen_case_sensitive_witness:
  "run_state (Listen (\<lambda>_. fail NotExist)
       (\<lambda>proto addr. if proto = ''unix'' \<or> proto = ''tcp'' then ok addr else fail (OtherOsError ''unknown network''))
       ''UNIX:///csi/csi.sock'') () =
     ((None, None, Some (ListenFailed (OtherOsError ''unknown network''))), ())"
proof -
  have p: "Parse ''UNIX:///csi/csi.sock'' = Inr (''UNIX'', ''/csi/csi.sock'')" by code_simp
  have "''UNIX'' \<noteq> ''unix''" by simp
  then show ?thesis by (subst Listen_case_sensitive [OF p]) simp_all
qed

section \<open>What a started driver can rely on\<close>

lemma main_config_Inr:
  assumes "main_config registry version kc fl = Inr cfg"
  shows "hp_Validate (cfg_HostPaths cfg) = Inr ()"
    and "\<exists>be pol. cfg_Backend cfg = Some be \<and> Get registry (fl_backend fl) = Some be \<and>
      cfg_Policy cfg = Some pol \<and> schema pol = Schema be \<and> config pol = policy_flags fl be \<and>
      Validate pol = Inr ()"
    and "cfg_DriverName cfg \<noteq> []" and "\<exists>client. kc = Inr client \<and> cfg_KubeClient cfg = Some client"
  using assms
  by (auto simp: main_config_def Let_def NewPolicy_def split: if_splits option.splits sum.splits)

text \<open>A configuration \<open>main\<close> hands to the driver has a validated host path policy and a
  validated option policy over the schema of the backend it runs, with a denylist mode the policy
  knows; the backend's own defaults are used exactly for the flags that were not given, so a list
  given as empty stays empty.\<close>

theorem main_config_sound:
  assumes "main_config registry version kc fl = Inr cfg"
  shows "hp_Validate (cfg_HostPaths cfg) = Inr () \<and>
    (\<exists>be pol. cfg_Backend cfg = Some be \<and> cfg_Policy cfg = Some pol \<and> schema pol = Schema be \<and>
       Validate pol = Inr () \<and> DenylistMode (config pol) \<in> {DenylistRefuse, DenylistStrip} \<and>
       Denylist (config pol) = (if ''option-denylist'' \<in> set (fl_set fl) then fl_option_denylist fl
                                else DefaultDenylist be) \<and>
       Defaults (config pol) = (if ''default-options'' \<in> set (fl_set fl) then fl_default_options fl
                                else DefaultOptions be))"
proof -
  have "fl_denylist_mode fl \<in> {DenylistRefuse, DenylistStrip}"
    using assms by (auto simp: main_config_def split: if_splits)
  then show ?thesis using main_config_Inr [OF assms] by (auto simp: policy_flags_def)
qed

definition web_flags :: flags where
  "web_flags = default_flags\<lparr>fl_backend := ''overlay'', fl_nodeid := ''n1'',
     fl_host_path_allow := [''/srv''], fl_set := [''backend'', ''nodeid'', ''host-path-allow'', ''option-denylist'']\<rparr>"

theorem main_config_sound_witness:
  "\<exists>cfg. main_config (Register ''overlay'' toy_backend []) ''v1'' (Inr (client web_resolver)) web_flags = Inr cfg \<and>
     hp_Validate (cfg_HostPaths cfg) = Inr ()"
proof -
  let ?m = "main_config (Register ''overlay'' toy_backend []) ''v1'' (Inr (client web_resolver)) web_flags"
  have "\<not> isl ?m" by code_simp
  then obtain cfg where m: "?m = Inr cfg" by (cases ?m) auto
  from main_config_sound [OF m] m show ?thesis by blast
qed

end
