(* ===== verification/Program.thy ===== *)
theory Program
  imports Startup
begin

text \<open>
  The program as a whole: \<open>main\<close> in \<open>cmd/union-csi-driver/main.go\<close>, from its flags to the driver or
  the proxy it runs, and how \<open>Run\<close> in \<open>internal/proxy/proxy.go\<close> sets up its sockets. The flag package,
  the client of the API server, package \<open>net\<close> and the wait for a signal are parameters.
\<close>

section \<open>The sockets of the proxy\<close>

record 'l proxy_sockets =
  socket1 :: "'l option"
  socket2 :: "'l option"
  cleanup1 :: "string option"
  cleanup2 :: "string option"

definition no_sockets :: "'l proxy_sockets" where
  "no_sockets = \<lparr>socket1 = None, socket2 = None, cleanup1 = None, cleanup2 = None\<rparr>"

definition close_listener :: "('l \<Rightarrow> ('w, unit) state) \<Rightarrow> 'l option \<Rightarrow> ('w, unit) state" where
  "close_listener close l = (case l of None \<Rightarrow> State_Monad.return () | Some x \<Rightarrow> close x)"

definition run_cleanup :: "(string \<Rightarrow> ('w, os_error, unit) prog) \<Rightarrow> string option \<Rightarrow> ('w, unit) state" where
  "run_cleanup remove f =
     (case f of None \<Rightarrow> State_Monad.return () | Some path \<Rightarrow> do { _ \<leftarrow> remove path; State_Monad.return () })"

definition proxy_Close ::
    "(string \<Rightarrow> ('w, os_error, unit) prog) \<Rightarrow> ('l \<Rightarrow> ('w, unit) state) \<Rightarrow> 'l proxy_sockets \<Rightarrow> ('w, unit) state" where
  "proxy_Close remove close p =
     do { _ \<leftarrow> close_listener close (socket1 p);
          _ \<leftarrow> close_listener close (socket2 p);
          _ \<leftarrow> run_cleanup remove (cleanup1 p);
          run_cleanup remove (cleanup2 p) }"

text \<open>Up to where it starts to accept; an error closes what is open.\<close>

definition proxy_Run ::
    "(string \<Rightarrow> ('w, os_error, unit) prog) \<Rightarrow> (string \<Rightarrow> string \<Rightarrow> ('w, os_error, 'l) prog) \<Rightarrow>
     ('l \<Rightarrow> ('w, unit) state) \<Rightarrow> string \<Rightarrow> string \<Rightarrow> ('w, listen_error, 'l proxy_sockets) prog" where
  "proxy_Run remove listen close endpoint1 endpoint2 =
     do { (l1, c1, e1) \<leftarrow> Listen remove listen endpoint1;
          let p = no_sockets\<lparr>socket1 := l1, cleanup1 := c1\<rparr>
          in case e1 of
               Some e \<Rightarrow> do { _ \<leftarrow> proxy_Close remove close p; fail e }
             | None \<Rightarrow>
                 do { (l2, c2, e2) \<leftarrow> Listen remove listen endpoint2;
                      let p = p\<lparr>socket2 := l2, cleanup2 := c2\<rparr>
                      in case e2 of
                           Some e \<Rightarrow> do { _ \<leftarrow> proxy_Close remove close p; fail e }
                         | None \<Rightarrow> ok p } }"

text \<open>What package \<open>net\<close> and the file system promise, for the listeners \<open>opened\<close> in a state: a
  successful listen opens a new one, closing closes it, and nothing else changes them.\<close>

definition socket_laws ::
    "('w \<Rightarrow> 'l set) \<Rightarrow> (string \<Rightarrow> ('w, os_error, unit) prog) \<Rightarrow> (string \<Rightarrow> string \<Rightarrow> ('w, os_error, 'l) prog) \<Rightarrow>
     ('l \<Rightarrow> ('w, unit) state) \<Rightarrow> bool" where
  "socket_laws opened remove listen close \<longleftrightarrow>
     (\<forall>f w. opened (snd (run_state (remove f) w)) = opened w) \<and>
     (\<forall>proto addr w. case run_state (listen proto addr) w of
        (Inl e, w') \<Rightarrow> opened w' = opened w
      | (Inr l, w') \<Rightarrow> l \<notin> opened w \<and> opened w' = insert l (opened w)) \<and>
     (\<forall>l w. opened (snd (run_state (close l) w)) = opened w - {l})"

lemma socket_laws_simps:
  assumes "socket_laws opened remove listen close"
  shows "opened (snd (run_state (remove f) w)) = opened w"
    and "run_state (listen proto addr) w = (Inl e, w') \<Longrightarrow> opened w' = opened w"
    and "run_state (listen proto addr) w = (Inr l, w') \<Longrightarrow> l \<notin> opened w \<and> opened w' = insert l (opened w)"
    and "opened (snd (run_state (close l) w)) = opened w - {l}"
  using assms unfolding socket_laws_def by (fastforce split: prod.splits sum.splits)+

lemma Listen_opens:
  assumes "socket_laws opened remove listen close" and "run_state (Listen remove listen ep) w = ((l, c, e), w')"
  shows "(case l of None \<Rightarrow> e \<noteq> None \<and> opened w' = opened w
    | Some x \<Rightarrow> e = None \<and> x \<notin> opened w \<and> opened w' = insert x (opened w))"
proof (cases "Parse ep")
  case (Inl x)
  then show ?thesis using assms(2) by (auto simp: Listen_def)
next
  case (Inr pa)
  obtain proto addr where pa: "Parse ep = Inr (proto, addr)" using Inr by (cases pa) simp
  obtain r w1 where r: "run_state (if proto = ''unix'' then remove addr else ok ()) w = (r, w1)" by fastforce
  have w1: "opened w1 = opened w"
    using r socket_laws_simps(1) [OF assms(1), of addr w] by (auto split: if_splits)
  obtain x w2 where x: "run_state (listen proto addr) w1 = (x, w2)" by fastforce
  have "case x of Inl e \<Rightarrow> opened w2 = opened w | Inr y \<Rightarrow> y \<notin> opened w \<and> opened w2 = insert y (opened w)"
    using socket_laws_simps(2) [OF assms(1), of proto addr w1 _ w2]
      socket_laws_simps(3) [OF assms(1), of proto addr w1 _ w2] x w1
    by (cases x) simp_all
  then show ?thesis
    using assms(2) pa r x w1
    by (auto simp: Listen_def split: sum.splits if_splits)
qed

lemma proxy_Close_closes:
  assumes "socket_laws opened remove listen close"
  shows "opened (snd (run_state (proxy_Close remove close p) w)) = opened w - set_option (socket1 p) - set_option (socket2 p)"
  using socket_laws_simps [OF assms]
  by (simp add: proxy_Close_def close_listener_def run_cleanup_def case_prod_beta split: option.split)

text \<open>A proxy that cannot listen on both endpoints leaves no listener open; one that can holds the two
  listeners it opened, and closing it closes both.\<close>

theorem proxy_Run_leaks_nothing:
  assumes "socket_laws opened remove listen close"
  shows "(case run_state (proxy_Run remove listen close ep1 ep2) w of
      (Inl e, w') \<Rightarrow> opened w' = opened w
    | (Inr p, w') \<Rightarrow>
        \<exists>l1 l2. socket1 p = Some l1 \<and> socket2 p = Some l2 \<and> l1 \<noteq> l2 \<and> opened w' = opened w \<union> {l1, l2} \<and>
          opened (snd (run_state (proxy_Close remove close p) w')) = opened w)"
proof -
  obtain l1 c1 e1 w1 where 1: "run_state (Listen remove listen ep1) w = ((l1, c1, e1), w1)" by (metis surj_pair)
  obtain l2 c2 e2 w2 where 2: "run_state (Listen remove listen ep2) w1 = ((l2, c2, e2), w2)" by (metis surj_pair)
  note open1 = Listen_opens [OF assms 1] and open2 = Listen_opens [OF assms 2]
  show ?thesis
    using open1 open2
    by (auto simp: proxy_Run_def 1 2 no_sockets_def case_prod_beta proxy_Close_closes [OF assms]
        split: option.splits)
qed

text \<open>A node whose listeners are the addresses listened on; each address can be taken once.\<close>

definition take_address :: "string \<Rightarrow> string \<Rightarrow> (string set, os_error, string) prog" where
  "take_address proto addr = State (\<lambda>w. if addr \<in> w then (Inl (OtherOsError ''in use''), w) else (Inr addr, insert addr w))"

definition drop_address :: "string \<Rightarrow> (string set, unit) state" where
  "drop_address addr = State (\<lambda>w. ((), w - {addr}))"

lemma take_address_laws: "socket_laws (\<lambda>w. w) (\<lambda>f. fail NotExist) take_address drop_address"
  by (simp add: socket_laws_def take_address_def drop_address_def)

theorem proxy_Run_leaks_nothing_witness:
  "snd (run_state (proxy_Run (\<lambda>f. fail NotExist) take_address drop_address ''tcp://a'' ''tcp://a'') {}) = {}"
proof -
  let ?r = "run_state (proxy_Run (\<lambda>f. fail NotExist) take_address drop_address ''tcp://a'' ''tcp://a'') {}"
  have "Parse ''tcp://a'' = Inr (''tcp'', ''a'')" by code_simp
  then have "isl (fst ?r)"
    by (simp add: proxy_Run_def Listen_def take_address_def Let_def case_prod_beta)
  then show ?thesis
    using proxy_Run_leaks_nothing [OF take_address_laws, where ?ep1.0 = "''tcp://a''" and ?ep2.0 = "''tcp://a''" and w = "{}"]
    by (auto split: prod.splits sum.splits)
qed

section \<open>The program\<close>

text \<open>How a run of the program ends. \<open>Driver.Run\<close> only returns without an error.\<close>

datatype 'e program_end =
    VersionShown string string
  | FailedToStart startup_error
  | FailedToProxy listen_error
  | FailedToBuild "'e new_error"
  | ProxyStopped
  | DriverStopped

text \<open>What \<open>main\<close> is given: the command line and what it calls.\<close>

record ('w, 'e, 'c) invocation =
  program_name :: string
  show_version :: bool
  proxy_endpoint :: string
  run_proxy :: "string \<Rightarrow> string \<Rightarrow> ('w, listen_error, 'c) prog"
  close_proxy :: "'c \<Rightarrow> ('w, unit) state"
  wait_for_signal :: "('w, unit) state"
  backends :: "('w, 'e) registry"
  api_client :: "string + api"
  backend_Init :: "string \<Rightarrow> (string \<Rightarrow> ('w, 'e, unit) prog) option"
  os_machine :: "'w machine"
  run_driver :: "('w, 'e) driver \<Rightarrow> ('w, unit) state"

definition program :: "('w, 'e, 'c) invocation \<Rightarrow> string \<Rightarrow> flags \<Rightarrow> ('w, 'e program_end) state" where
  "program i version fl =
     (if show_version i then State_Monad.return (VersionShown (program_name i) version)
      else if fl_denylist_mode fl \<noteq> DenylistRefuse \<and> fl_denylist_mode fl \<noteq> DenylistStrip
      then State_Monad.return (FailedToStart (InvalidDenylistMode (fl_denylist_mode fl)))
      else if proxy_endpoint i \<noteq> [] then do {
        r \<leftarrow> run_proxy i (fl_endpoint fl) (proxy_endpoint i);
        case r of
          Inl e \<Rightarrow> State_Monad.return (FailedToProxy e)
        | Inr c \<Rightarrow> do { _ \<leftarrow> wait_for_signal i; _ \<leftarrow> close_proxy i c; State_Monad.return ProxyStopped } }
      else (case main_config (backends i) version (api_client i) fl of
          Inl e \<Rightarrow> State_Monad.return (FailedToStart e)
        | Inr cfg \<Rightarrow> do {
            r \<leftarrow> New (backend_Init i (fl_backend fl)) (os_machine i) cfg;
            case r of
              Inl e \<Rightarrow> State_Monad.return (FailedToBuild e)
            | Inr d \<Rightarrow> do { _ \<leftarrow> run_driver i d; State_Monad.return DriverStopped } }))"

text \<open>What the driver needs, in terms of the flags.\<close>

definition fully_configured :: "('w, 'e) registry \<Rightarrow> flags \<Rightarrow> ('w, 'e) driver_config \<Rightarrow> bool" where
  "fully_configured r fl cfg \<longleftrightarrow>
     cfg_DriverName cfg \<noteq> [] \<and> cfg_NodeID cfg \<noteq> [] \<and> cfg_Endpoint cfg \<noteq> [] \<and>
     hp_Validate (cfg_HostPaths cfg) = Inr () \<and>
     (\<exists>be pol. Get r (fl_backend fl) = Some be \<and> cfg_Backend cfg = Some be \<and> cfg_Policy cfg = Some pol \<and>
        schema pol = Schema be \<and> Validate pol = Inr () \<and>
        DenylistMode (config pol) \<in> {DenylistRefuse, DenylistStrip} \<and>
        Denylist (config pol) = (if ''option-denylist'' \<in> set (fl_set fl) then fl_option_denylist fl
                                 else DefaultDenylist be) \<and>
        Defaults (config pol) = (if ''default-options'' \<in> set (fl_set fl) then fl_default_options fl
                                 else DefaultOptions be))"

text \<open>C18: The driver runs only fully configured, and a wrong configuration touches nothing. When it
  runs, its names, its node and its endpoint are set, its host path policy and its option policy are
  validated, the latter over the schema of the backend the flags name, with the denylist and the
  defaults of the backend exactly where the administrator gave none. A start that fails before the
  backend is initialised leaves the node as it was.\<close>

theorem driver_runs_configured:
  "(case fst (run_state (program i version fl) w) of
      DriverStopped \<Rightarrow>
        \<exists>d w1. fully_configured (backends i) fl (d_config d) \<and> cfg_VendorVersion (d_config d) = version \<and>
          snd (run_state (program i version fl) w) = snd (run_state (run_driver i d) w1)
    | FailedToStart e \<Rightarrow> snd (run_state (program i version fl) w) = w
    | VersionShown n v \<Rightarrow> v = version \<and> snd (run_state (program i version fl) w) = w
    | FailedToBuild e \<Rightarrow> (\<exists>x. e = InitFailed x) \<or> snd (run_state (program i version fl) w) = w
    | _ \<Rightarrow> True)"
proof (cases "show_version i \<or> (fl_denylist_mode fl \<noteq> DenylistRefuse \<and> fl_denylist_mode fl \<noteq> DenylistStrip)")
  case True
  then show ?thesis by (auto simp: program_def)
next
  case False
  then have mode: "fl_denylist_mode fl \<in> {DenylistRefuse, DenylistStrip}" by auto
  show ?thesis
  proof (cases "proxy_endpoint i = []")
    case noproxy: True
    show ?thesis
    proof (cases "main_config (backends i) version (api_client i) fl")
      case (Inl e)
      then show ?thesis using False noproxy by (simp add: program_def)
    next
      case (Inr cfg)
      obtain r w1 where r: "run_state (New (backend_Init i (fl_backend fl)) (os_machine i) cfg) w = (r, w1)" by fastforce
      have run: "run_state (program i version fl) w = run_state (case r of
          Inl e \<Rightarrow> State_Monad.return (FailedToBuild e)
        | Inr d \<Rightarrow> do { _ \<leftarrow> run_driver i d; State_Monad.return DriverStopped }) w1"
        using False noproxy Inr r by (auto simp: program_def)
      show ?thesis
      proof (cases r)
        case (Inl e)
        have "(\<exists>x. e = InitFailed x) \<or> w1 = w"
          using r Inl by (auto simp: New_def Let_def split: if_splits option.splits sum.splits prod.splits)
        then show ?thesis unfolding run Inl by simp
      next
        case (Inr d)
        have "d_config d = cfg \<and> cfg_NodeID cfg \<noteq> [] \<and> cfg_Endpoint cfg \<noteq> []"
          using r Inr by (auto simp: New_def Let_def split: if_splits option.splits sum.splits prod.splits)
        moreover have "cfg_VendorVersion cfg = version"
          using \<open>main_config _ _ _ _ = _\<close>
          by (auto simp: main_config_def Let_def split: if_splits option.splits sum.splits)
        moreover have "fully_configured (backends i) fl cfg"
          using main_config_Inr [OF \<open>main_config _ _ _ _ = _\<close>] mode \<open>d_config d = cfg \<and> _\<close>
          unfolding fully_configured_def by (fastforce simp: policy_flags_def)
        ultimately show ?thesis
          unfolding run Inr by (simp add: case_prod_beta) blast
      qed
    qed
  next
    case False
    then show ?thesis
      using \<open>\<not> (show_version i \<or> _)\<close> by (auto simp: program_def split: sum.split prod.split)
  qed
qed

end
