(* ===== verification/Mergerfs.thy ===== *)
theory Mergerfs
  imports Policy GoPath
begin

text \<open>
  Package \<open>pkg/backend/mergerfs\<close>, the part without effects: the tables (\<open>mergerfs.go\<close>), the
  command line (\<open>argv.go\<close>), the names of units, state files and logs (\<open>scope.go\<close>, \<open>state.go\<close>).
  \<open>useSandbox\<close> is the startup flag.
\<close>

section \<open>Tables\<close>

definition mergerfs_Schema :: "bool \<Rightarrow> option_schema" where
  "mergerfs_Schema useSandbox =
    [(''cache.entry'', kind_spec ValueDuration),
     (''cache.attr'', kind_spec ValueDuration),
     (''cache.negative_entry'', kind_spec ValueDuration),
     (''cache.readdir'', kind_spec ValueBool),
     (''cache.files'', enum_spec [''off'', ''partial'', ''full'', ''auto-full'', ''libfuse'']),
     (''func.getattr'', enum_spec [''ff'', ''newest'']),
     (''category.search'', enum_spec [''ff'', ''all'', ''newest'']),
     (''category.create'', enum_spec
       [''all'', ''epall'', ''ff'', ''epff'', ''lfs'', ''eplfs'', ''lus'', ''eplus'', ''mfs'', ''epmfs'',
        ''msplfs'', ''msplus'', ''mspmfs'', ''msppfrd'', ''newest'', ''pfrd'', ''eppfrd'', ''rand'', ''eprand'']),
     (''dropcacheonclose'', kind_spec ValueBool),
     (''inodecalc'', enum_spec
       [''passthrough'', ''path-hash'', ''devino-hash'', ''hybrid-hash'', ''path-hash32'', ''devino-hash32'',
        ''hybrid-hash32'']),
     (''threads'', int_spec (- 16) 1024),
     (''minfreespace'', kind_spec ValueSize),
     (''link-exdev'', enum_spec [''passthrough'', ''rel-symlink''])] @
    (if useSandbox then [(''follow-symlinks'', enum_spec [''never'', ''directory'', ''regular'', ''all''])]
     else [])"

definition mergerfs_DefaultOptions :: "string gomap" where
  "mergerfs_DefaultOptions =
    [(''cache.entry'', ''1''), (''cache.attr'', ''1''), (''cache.negative_entry'', ''0''),
     (''func.getattr'', ''newest'')]"

definition mergerfs_DefaultDenylist :: "string list" where
  "mergerfs_DefaultDenylist = []"

definition mergerfs_SourceModes :: "string list \<times> string" where
  "mergerfs_SourceModes = ([''RW'', ''RO'', ''NC''], ''RW'')"

definition mergerfs_MaxWritable :: nat where
  "mergerfs_MaxWritable = 0"

interpretation mergerfs_tables: backend_contract "mergerfs_Schema useSandbox"
  "fst mergerfs_SourceModes" "snd mergerfs_SourceModes" mergerfs_DefaultOptions mergerfs_DefaultDenylist
  for useSandbox
  by unfold_locales
    (simp_all add: mergerfs_Schema_def mergerfs_SourceModes_def mergerfs_DefaultOptions_def
      mergerfs_DefaultDenylist_def plain_schema_def plain_def separator_def spec_literals
      checkSchema_def NewPolicy_def ParseUint_def digits_value_def is_digit_def less_eq_char_def)

section \<open>The command line\<close>

definition mergerfs_modeRW :: string where "mergerfs_modeRW = ''RW''"
definition mergerfs_modeRO :: string where "mergerfs_modeRO = ''RO''"
definition modeNC :: string where "modeNC = ''NC''"
definition sandboxTarget :: string where "sandboxTarget = ''/union''"
definition sandboxBranchDir :: string where "sandboxBranchDir = ''/branch''"

lemmas mergerfs_modes = mergerfs_modeRW_def mergerfs_modeRO_def modeNC_def

record bind =
  Host :: string
  Sandbox :: string
  bind_ReadOnly :: bool

datatype argv_error = NoSources | UnknownBranchMode string | SeparatorInPath string

text \<open>\<open>branches\<close> are the ones rendered so far.\<close>

fun render_branches :: "source list \<Rightarrow> string list \<Rightarrow> argv_error + string list" where
  "render_branches [] branches = Inr branches"
| "render_branches (s # ss) branches =
     (if src_Mode s \<noteq> mergerfs_modeRW \<and> src_Mode s \<noteq> mergerfs_modeRO \<and> src_Mode s \<noteq> modeNC
      then Inl (UnknownBranchMode (src_Mode s))
      else if CHR '':'' \<in> set (src_Path s) \<or> CHR '','' \<in> set (src_Path s)
      then Inl (SeparatorInPath (src_Path s))
      else render_branches ss (branches @ [src_Path s @ ''='' @ src_Mode s]))"

definition buildBranches :: "source list \<Rightarrow> argv_error + string" where
  "buildBranches sources =
     (if sources = [] then Inl NoSources
      else (case render_branches sources [] of
          Inl e \<Rightarrow> Inl e
        | Inr branches \<Rightarrow> Inr (join_with '':'' branches)))"

definition buildOptions :: "mount_spec \<Rightarrow> string" where
  "buildOptions spec =
     join_with '',''
       ([''allow_other''] @ (if ReadOnly spec then [''ro''] else []) @
        map (\<lambda>k. k @ ''='' @ map_index (Options spec) k) (sort (map fst (Options spec))))"

definition buildArgv :: "mount_spec \<Rightarrow> argv_error + string list" where
  "buildArgv spec =
     (case buildBranches (Sources spec) of
        Inl e \<Rightarrow> Inl e
      | Inr branches \<Rightarrow> Inr [''-f'', ''-o'', buildOptions spec, branches, Target spec])"

text \<open>The sandbox path of branch \<open>i\<close>.\<close>

definition branch_path :: "nat \<Rightarrow> string" where
  "branch_path i = sandboxBranchDir @ ''/'' @ itoa i"

definition sandboxed :: "mount_spec \<Rightarrow> mount_spec \<times> bind list" where
  "sandboxed spec =
     (let indexed = zip [0..<length (Sources spec)] (Sources spec);
          sources = map (\<lambda>(i, s). \<lparr>src_Path = branch_path i, src_Mode = src_Mode s\<rparr>) indexed;
          binds = map (\<lambda>(i, s). \<lparr>Host = src_Path s, Sandbox = branch_path i,
                     bind_ReadOnly = (ReadOnly spec \<or> src_Mode s = mergerfs_modeRO)\<rparr>) indexed
      in (spec\<lparr>Sources := sources, Target := sandboxTarget\<rparr>, binds))"

section \<open>Unit and file names\<close>

text \<open>The number of bytes \<open>range\<close> takes for the next rune: a byte that starts no valid UTF-8
  sequence counts as a rune of its own.\<close>

definition continuation :: "nat \<Rightarrow> nat \<Rightarrow> char \<Rightarrow> bool" where
  "continuation lo hi c \<longleftrightarrow> lo \<le> of_char c \<and> of_char c \<le> hi"

abbreviation tail_byte :: "char \<Rightarrow> bool" where
  "tail_byte \<equiv> continuation 0x80 0xBF"

fun rune_width :: "string \<Rightarrow> nat" where
  "rune_width (a # s) =
     (let b = of_char a :: nat in
      if 0xC2 \<le> b \<and> b \<le> 0xDF then
        (case s of x # _ \<Rightarrow> if tail_byte x then 2 else 1 | _ \<Rightarrow> 1)
      else if 0xE0 \<le> b \<and> b \<le> 0xEF then
        (case s of
           x # y # _ \<Rightarrow>
             if continuation (if b = 0xE0 then 0xA0 else 0x80) (if b = 0xED then 0x9F else 0xBF) x \<and>
                tail_byte y then 3 else 1
         | _ \<Rightarrow> 1)
      else if 0xF0 \<le> b \<and> b \<le> 0xF4 then
        (case s of
           x # y # z # _ \<Rightarrow>
             if continuation (if b = 0xF0 then 0x90 else 0x80) (if b = 0xF4 then 0x8F else 0xBF) x \<and>
                tail_byte y \<and> tail_byte z then 4 else 1
         | _ \<Rightarrow> 1)
      else 1)"
| "rune_width [] = 0"

abbreviation between :: "char \<Rightarrow> char \<Rightarrow> char \<Rightarrow> bool" where
  "between lo hi c \<equiv> lo \<le> c \<and> c \<le> hi"

definition unit_char :: "char \<Rightarrow> bool" where
  "unit_char c \<longleftrightarrow>
     (between (CHR ''a'') (CHR ''z'') c \<or> between (CHR ''A'') (CHR ''Z'') c \<or>
      between (CHR ''0'') (CHR ''9'') c) \<or>
     (c = CHR ''-'' \<or> c = CHR ''_'' \<or> c = CHR ''.'')"

lemma rune_width_pos [simp]: "rune_width (c # s) > 0"
  by (auto simp: Let_def split: list.split)

lemma rune_shorter: "length (drop (rune_width (c # s)) (c # s)) < length (c # s)"
proof -
  have "length (c # s) - rune_width (c # s) < length (c # s)"
    using rune_width_pos [of c s] by (intro diff_less) (simp_all del: rune_width.simps)
  then show ?thesis by (simp only: length_drop)
qed

function sanitizeUnitName :: "string \<Rightarrow> string" where
  "sanitizeUnitName [] = []"
| "sanitizeUnitName (c # s) =
     (if unit_char c then c # sanitizeUnitName s
      else CHR ''-'' # sanitizeUnitName (drop (rune_width (c # s)) (c # s)))"
  by pat_completeness auto

termination
  by (relation "measure length") (simp_all only: in_measure rune_shorter wf_measure, simp)

definition scopePrefix :: string where "scopePrefix = ''union-csi-''"
definition scopeSuffix :: string where "scopeSuffix = ''.scope''"

text \<open>\<open>Unit\<close> of \<open>scopeConfig\<close>, \<open>Path\<close> of \<open>newStateStore\<close> and \<open>daemonLog\<close>.\<close>

definition scope_unit :: "string \<Rightarrow> string" where
  "scope_unit volumeID = scopePrefix @ sanitizeUnitName volumeID @ scopeSuffix"

definition state_path :: "string \<Rightarrow> string \<Rightarrow> string" where
  "state_path dir volumeID = filepath_Join [dir, sanitizeUnitName volumeID @ ''.json'']"

definition daemonLog :: "string \<Rightarrow> string \<Rightarrow> string" where
  "daemonLog stateDir volumeID = filepath_Join [stateDir, sanitizeUnitName volumeID @ ''.log'']"

definition globEscaper :: "string \<Rightarrow> string" where
  "globEscaper s =
     concat (map (\<lambda>c. if c = CHR 0x5C \<or> c = CHR ''*'' \<or> c = CHR ''?'' \<or> c = CHR ''[''
                      then [CHR 0x5C, c] else [c]) s)"

definition state_glob :: "string \<Rightarrow> string" where
  "state_glob dir = filepath_Join [globEscaper dir, ''*.json'']"

section \<open>Branches read back\<close>

definition known_mode :: "string \<Rightarrow> bool" where
  "known_mode m \<longleftrightarrow> m = mergerfs_modeRW \<or> m = mergerfs_modeRO \<or> m = modeNC"

lemma known_mode_chars: "known_mode m \<Longrightarrow> CHR '':'' \<notin> set m \<and> CHR '','' \<notin> set m \<and> CHR ''='' \<notin> set m"
  by (auto simp: known_mode_def mergerfs_modes)

definition renderable :: "source \<Rightarrow> bool" where
  "renderable s \<longleftrightarrow> known_mode (src_Mode s) \<and> CHR '':'' \<notin> set (src_Path s) \<and> CHR '','' \<notin> set (src_Path s)"

definition render_branch :: "source \<Rightarrow> string" where
  "render_branch s = src_Path s @ ''='' @ src_Mode s"

lemma render_branches_Inr:
  "render_branches ss bs = Inr out \<longleftrightarrow> list_all renderable ss \<and> out = bs @ map render_branch ss"
  by (induction ss arbitrary: bs) (auto simp: renderable_def known_mode_def render_branch_def)

lemma buildBranches_Inr:
  "buildBranches ss = Inr s \<longleftrightarrow>
     ss \<noteq> [] \<and> list_all renderable ss \<and> s = join_with '':'' (map render_branch ss)"
  by (auto simp: buildBranches_def render_branches_Inr split: sum.splits)
    (metis render_branches_Inr sum.distinct(1))

text \<open>mergerfs takes the mode after the last equals sign of a branch.\<close>

definition read_branch :: "string \<Rightarrow> (string \<times> string) option" where
  "read_branch b = map_option (\<lambda>(m, p). (rev p, rev m)) (cut_at (CHR ''='') (rev b))"

lemma read_branch_render: "known_mode (src_Mode s) \<Longrightarrow> read_branch (render_branch s) = Some (src_Path s, src_Mode s)"
  using known_mode_chars by (simp add: read_branch_def render_branch_def cut_at_append)

text \<open>C33: The branch argument, split where mergerfs splits it, gives back the paths and modes of the
  sources in order, whatever the paths are; a path that could be split is refused instead.\<close>

theorem buildBranches_roundtrip:
  assumes "buildBranches ss = Inr s"
  shows "map read_branch (split_on (CHR '':'') s) = map (\<lambda>s. Some (src_Path s, src_Mode s)) ss"
proof -
  have r: "ss \<noteq> []" "list_all renderable ss" "s = join_with '':'' (map render_branch ss)"
    using assms by (auto simp: buildBranches_Inr)
  have "split_on (CHR '':'') s = map render_branch ss"
    unfolding r(3)
    by (rule split_join_with)
      (use r known_mode_chars in \<open>auto simp: list_all_iff renderable_def render_branch_def\<close>)
  then show ?thesis using r(2) by (auto simp: list_all_iff renderable_def read_branch_render)
qed

theorem buildBranches_roundtrip_witness:
  "map read_branch (split_on (CHR '':'') ''/a=b=RW:/c=RO'') = [Some (''/a=b'', ''RW''), Some (''/c'', ''RO'')]"
proof -
  have "buildBranches [\<lparr>src_Path = ''/a=b'', src_Mode = ''RW''\<rparr>, \<lparr>src_Path = ''/c'', src_Mode = ''RO''\<rparr>] =
      Inr ''/a=b=RW:/c=RO''" by code_simp
  from buildBranches_roundtrip [OF this] show ?thesis by simp
qed

section \<open>No option but the resolved ones\<close>

lemma buildOptions_split:
  assumes "list_all (\<lambda>(k, v). plain k \<and> plain v) (Options spec)"
  shows "split_on (CHR '','') (buildOptions spec) =
     [''allow_other''] @ (if ReadOnly spec then [''ro''] else []) @
     map (\<lambda>k. k @ ''='' @ map_index (Options spec) k) (sort (map fst (Options spec)))"
proof -
  have "CHR '','' \<notin> set (map_index (Options spec) k)" for k
  proof (cases "map_of (Options spec) k")
    case (Some v)
    then have "plain v" using assms map_of_SomeD by (fastforce simp: list_all_iff)
    then show ?thesis using Some plain_no by (simp add: map_index_def)
  qed (simp add: map_index_def)
  moreover have "CHR '','' \<notin> set k" if "k \<in> fst ` set (Options spec)" for k
    using that assms plain_no by (force simp: list_all_iff)
  ultimately show ?thesis
    unfolding buildOptions_def by (intro split_join_with) fastforce+
qed

lemma option_inject:
  fixes k v k' v' :: string
  assumes "CHR ''='' \<notin> set k" and "CHR ''='' \<notin> set k'"
  shows "k @ ''='' @ v = k' @ ''='' @ v' \<longleftrightarrow> k = k' \<and> v = v'"
proof
  assume "k @ ''='' @ v = k' @ ''='' @ v'"
  then have "cut_at (CHR ''='') (k @ CHR ''='' # v) = cut_at (CHR ''='') (k' @ CHR ''='' # v')" by simp
  then show "k = k' \<and> v = v'"
    unfolding cut_at_append [OF assms(1)] cut_at_append [OF assms(2)] by simp
qed simp

lemma option_not_flag:
  fixes k v :: string
  shows "k @ ''='' @ v \<noteq> ''allow_other''" and "k @ ''='' @ v \<noteq> ''ro''"
proof -
  have e: "CHR ''='' \<in> set (k @ ''='' @ v)" by simp
  show "k @ ''='' @ v \<noteq> ''allow_other''" "k @ ''='' @ v \<noteq> ''ro''" by (rule notI, use e in simp)+
qed

text \<open>C34: Under a validated policy the option argument, split where libfuse splits it, sets a key to a
  value exactly when the resolved options do, and asks for a read-only mount exactly when the
  request did: no value of a pod smuggles in another option.\<close>

theorem buildOptions_exact:
  assumes "schema p = mergerfs_Schema useSandbox" and "Validate p = Inr ()"
    and "Resolve p podOptions = Inr (Options spec)"
  shows "(\<forall>k v. CHR ''='' \<notin> set k \<longrightarrow>
       (k @ ''='' @ v \<in> set (split_on (CHR '','') (buildOptions spec)) \<longleftrightarrow> map_of (Options spec) k = Some v)) \<and>
     (''ro'' \<in> set (split_on (CHR '','') (buildOptions spec)) \<longleftrightarrow> ReadOnly spec)"
proof -
  have pl: "list_all (\<lambda>(k, v). k \<noteq> [] \<and> plain k \<and> plain v) (Options spec)"
    using assms by (rule mergerfs_tables.resolved_plain)
  then have s: "set (split_on (CHR '','') (buildOptions spec)) =
     {''allow_other''} \<union> (if ReadOnly spec then {''ro''} else {}) \<union>
     (\<lambda>k. k @ ''='' @ map_index (Options spec) k) ` fst ` set (Options spec)"
    by (subst buildOptions_split) (auto simp: list_all_iff)
  have nk: "CHR ''='' \<notin> set k" if "k \<in> fst ` set (Options spec)" for k
    using that pl plain_no by (force simp: list_all_iff)
  have "k @ ''='' @ v \<in> set (split_on (CHR '','') (buildOptions spec)) \<longleftrightarrow> map_of (Options spec) k = Some v"
    if "CHR ''='' \<notin> set k" for k v
  proof -
    have "k @ ''='' @ v \<in> set (split_on (CHR '','') (buildOptions spec)) \<longleftrightarrow>
        k \<in> fst ` set (Options spec) \<and> v = map_index (Options spec) k"
    proof -
      have "k @ ''='' @ v \<in> set (split_on (CHR '','') (buildOptions spec)) \<longleftrightarrow>
          (\<exists>k' \<in> fst ` set (Options spec). k @ ''='' @ v = k' @ ''='' @ map_index (Options spec) k')"
        unfolding s using option_not_flag by (auto simp del: append_Cons append_Nil)
      also have "\<dots> \<longleftrightarrow> (\<exists>k' \<in> fst ` set (Options spec). k = k' \<and> v = map_index (Options spec) k')"
        using option_inject [OF that nk] by blast
      finally show ?thesis by blast
    qed
    also have "\<dots> \<longleftrightarrow> map_of (Options spec) k = Some v"
      by (auto simp: map_index_def map_of_eq_None_iff [symmetric] split: option.splits)
        (metis map_of_eq_None_iff option.distinct(1))
    finally show ?thesis .
  qed
  moreover have "''ro'' \<in> set (split_on (CHR '','') (buildOptions spec)) \<longleftrightarrow> ReadOnly spec"
    unfolding s using option_not_flag(2) by (auto simp: eq_commute [of "''ro''"])
  ultimately show ?thesis by blast
qed

definition cached_policy :: policy where
  "cached_policy = NewPolicy (mergerfs_Schema True) \<lparr>Allowlist = [], Denylist = [],
     DenylistMode = DenylistRefuse, Defaults = mergerfs_DefaultOptions, Forced = []\<rparr>"

definition cached_spec :: mount_spec where
  "cached_spec = \<lparr>VolumeID = ''v'', Target = ''/t'', Sources = [\<lparr>src_Path = ''/a'', src_Mode = ''RO''\<rparr>],
     Options = [(''cache.entry'', ''1''), (''cache.attr'', ''1''), (''cache.negative_entry'', ''0''),
       (''func.getattr'', ''newest''), (''threads'', ''4'')], ReadOnly = True\<rparr>"

theorem buildOptions_exact_witness:
  "''threads=4'' \<in> set (split_on (CHR '','') (buildOptions cached_spec)) \<and>
   ''ro'' \<in> set (split_on (CHR '','') (buildOptions cached_spec))"
proof -
  have "schema cached_policy = mergerfs_Schema True" by (simp add: cached_policy_def NewPolicy_def)
  moreover have "Validate cached_policy = Inr ()" by code_simp
  moreover have "Resolve cached_policy [(''threads'', ''4'')] = Inr (Options cached_spec)" by code_simp
  ultimately have x: "(\<forall>k v. CHR ''='' \<notin> set k \<longrightarrow>
       (k @ ''='' @ v \<in> set (split_on (CHR '','') (buildOptions cached_spec)) \<longleftrightarrow>
          map_of (Options cached_spec) k = Some v)) \<and>
     (''ro'' \<in> set (split_on (CHR '','') (buildOptions cached_spec)) \<longleftrightarrow> ReadOnly cached_spec)"
    by (rule buildOptions_exact)
  have "map_of (Options cached_spec) ''threads'' = Some ''4''" "ReadOnly cached_spec" by code_simp+
  then show ?thesis using x [THEN conjunct1, rule_format, of "''threads''" "''4''"] x by simp
qed

section \<open>The sandbox\<close>

lemma branch_path_inject [simp]: "branch_path i = branch_path j \<longleftrightarrow> i = j"
  by (simp add: branch_path_def)

lemma branch_path_plain: "CHR '':'' \<notin> set (branch_path i) \<and> CHR '','' \<notin> set (branch_path i)"
proof -
  have "c \<noteq> CHR '':'' \<and> c \<noteq> CHR '',''" if c: "c \<in> set (itoa i)" for c
  proof -
    obtain n where n: "n < 10" "c = digit_char n" using itoa_chars [OF c] by blast
    then have "(of_char c :: nat) = 48 + n" by simp
    then show ?thesis using n(1) by auto
  qed
  then show ?thesis by (auto simp: branch_path_def sandboxBranchDir_def)
qed

lemma map_zip_fst: "length xs = length ys \<Longrightarrow> map (\<lambda>p. f (fst p)) (zip xs ys) = map f xs"
  by (induction xs ys rule: list_induct2) auto

lemma map_zip_snd: "length xs = length ys \<Longrightarrow> map (\<lambda>p. f (snd p)) (zip xs ys) = map f ys"
  by (induction xs ys rule: list_induct2) auto

lemma sandboxed_parts:
  assumes "sandboxed spec = (spec', binds)"
  shows "map Host binds = map src_Path (Sources spec)"
    and "map Sandbox binds = map branch_path [0..<length (Sources spec)]"
    and "map src_Path (Sources spec') = map branch_path [0..<length (Sources spec)]"
    and "map src_Mode (Sources spec') = map src_Mode (Sources spec)"
    and "map bind_ReadOnly binds = map (\<lambda>s. ReadOnly spec \<or> src_Mode s = mergerfs_modeRO) (Sources spec)"
    and "Target spec' = sandboxTarget" and "Options spec' = Options spec" and "ReadOnly spec' = ReadOnly spec"
  using assms map_zip_snd [of "[0..<length (Sources spec)]" "Sources spec"
      "\<lambda>s. ReadOnly spec \<or> src_Mode s = mergerfs_modeRO"]
  by (auto simp: sandboxed_def Let_def comp_def case_prod_beta map_zip_fst map_zip_snd)

text \<open>The sandbox maps every branch to a path of its own, in order and with its mode; a branch is
  bound writable only if the request is writable and the branch is not read-only, and the branch
  argument built from the sandbox paths is never refused for a separator, whatever the host paths
  contain.\<close>

theorem sandboxed_branches:
  assumes "sandboxed spec = (spec', binds)"
  shows "map Host binds = map src_Path (Sources spec) \<and>
    map Sandbox binds = map src_Path (Sources spec') \<and> distinct (map Sandbox binds) \<and>
    map src_Mode (Sources spec') = map src_Mode (Sources spec) \<and>
    map bind_ReadOnly binds = map (\<lambda>s. ReadOnly spec \<or> src_Mode s = ''RO'') (Sources spec) \<and>
    (\<forall>e. buildBranches (Sources spec') = Inl e \<longrightarrow> (\<nexists>path. e = SeparatorInPath path))"
proof -
  note parts = sandboxed_parts [OF assms]
  have "distinct (map branch_path [0..<length (Sources spec)])"
    by (simp add: distinct_map inj_on_def)
  moreover have "e \<noteq> SeparatorInPath path"
    if "render_branches ss bs = Inl e" "set (map src_Path ss) \<subseteq> range branch_path" for ss bs e path
    using that branch_path_plain by (induction ss arbitrary: bs) (auto split: if_splits)
  moreover have "set (map src_Path (Sources spec')) \<subseteq> range branch_path"
    using parts(3) by auto
  ultimately have "e \<noteq> SeparatorInPath path" if "buildBranches (Sources spec') = Inl e" for e path
    using that by (auto simp: buildBranches_def split: if_splits sum.splits)
  then show ?thesis
    using parts \<open>distinct _\<close> by (simp add: mergerfs_modeRO_def)
qed

theorem sandboxed_branches_witness:
  "map Sandbox (snd (sandboxed cached_spec)) = [''/branch/0''] \<and> distinct (map Sandbox (snd (sandboxed cached_spec)))"
proof -
  have "map Sandbox (snd (sandboxed cached_spec)) = [''/branch/0'']" by code_simp
  then show ?thesis using sandboxed_branches [of cached_spec, OF surjective_pairing] by simp
qed

section \<open>Unit and file names\<close>

definition tame :: "string \<Rightarrow> bool" where
  "tame s \<longleftrightarrow> list_all unit_char s"

lemma sanitize_tame: "tame (sanitizeUnitName s)"
  by (induction s rule: sanitizeUnitName.induct)
    (auto simp: tame_def unit_char_def simp del: rune_width.simps)

lemma sanitize_id: "tame s \<Longrightarrow> sanitizeUnitName s = s"
  by (induction s) (auto simp: tame_def)

lemma tame_no_slash: "tame s \<Longrightarrow> slash \<notin> set s"
  by (auto simp: tame_def list_all_iff unit_char_def less_eq_char_def)

lemma tame_suffix_proper:
  assumes "tame s" and "x = ''.json'' \<or> x = ''.log''"
  shows "proper (s @ x)"
proof -
  have "slash \<notin> set (s @ x)" using tame_no_slash [OF assms(1)] assms(2) by auto
  moreover have "length (s @ x) > 2" using assms(2) by auto
  then have "s @ x \<noteq> []" "s @ x \<noteq> ''.''" "s @ x \<noteq> ''..''" by force+
  ultimately show ?thesis unfolding proper_def by blast
qed

lemma state_path_render:
  "filepath_IsAbs dir \<Longrightarrow> state_path dir v = render (elems dir @ [sanitizeUnitName v @ ''.json''])"
  unfolding state_path_def by (rule Join_abs_proper) (simp_all add: tame_suffix_proper sanitize_tame)

lemma daemonLog_render:
  "filepath_IsAbs dir \<Longrightarrow> daemonLog dir v = render (elems dir @ [sanitizeUnitName v @ ''.log''])"
  unfolding daemonLog_def by (rule Join_abs_proper) (simp_all add: tame_suffix_proper sanitize_tame)

text \<open>Whatever characters a volume id has, its state file and its log lie directly in the state
  directory and are different files; for ids of the characters a unit name may have, which are the
  ids kubelet makes, different volumes have different files and units.\<close>

theorem volume_files_apart:
  assumes "filepath_IsAbs dir"
  shows "elems (state_path dir v) = elems dir @ [sanitizeUnitName v @ ''.json''] \<and>
    elems (daemonLog dir v) = elems dir @ [sanitizeUnitName v @ ''.log''] \<and>
    state_path dir v \<noteq> daemonLog dir w \<and>
    (tame v \<and> tame w \<longrightarrow> (state_path dir v = state_path dir w \<longleftrightarrow> v = w) \<and>
       (scope_unit v = scope_unit w \<longleftrightarrow> v = w))"
proof -
  have pr: "proper (sanitizeUnitName x @ ''.json'')" "proper (sanitizeUnitName x @ ''.log'')" for x
    by (simp_all only: tame_suffix_proper sanitize_tame simp_thms)
  have e: "elems (state_path dir x) = elems dir @ [sanitizeUnitName x @ ''.json'']"
    "elems (daemonLog dir x) = elems dir @ [sanitizeUnitName x @ ''.log'']" for x
    using pr [of x] by (simp_all add: state_path_render [OF assms] daemonLog_render [OF assms])
  have "sanitizeUnitName v @ ''.json'' \<noteq> sanitizeUnitName w @ ''.log''"
  proof
    assume "sanitizeUnitName v @ ''.json'' = sanitizeUnitName w @ ''.log''"
    from arg_cong [where f = last, OF this] show False by simp
  qed
  then have "elems (state_path dir v) \<noteq> elems (daemonLog dir w)" by (simp add: e)
  then have "state_path dir v \<noteq> daemonLog dir w" by metis
  moreover have "(state_path dir v = state_path dir w \<longleftrightarrow> v = w) \<and> (scope_unit v = scope_unit w \<longleftrightarrow> v = w)"
    if "tame v" "tame w"
  proof -
    have "elems (state_path dir v) = elems (state_path dir w) \<longleftrightarrow> v = w"
      by (simp add: e sanitize_id that)
    then show ?thesis by (auto simp: scope_unit_def sanitize_id that)
  qed
  ultimately show ?thesis by (simp only: e simp_thms) blast
qed

theorem volume_files_apart_witness:
  "state_path ''/s'' ''csi-a'' \<noteq> state_path ''/s'' ''csi-b''"
proof -
  have "tame ''csi-a''" "tame ''csi-b''" by code_simp+
  then show ?thesis using volume_files_apart [of "''/s''" "''csi-a''" "''csi-b''"] by simp
qed

text \<open>How a pattern is read back: a backslash takes the next character as itself.\<close>

fun unescape :: "string \<Rightarrow> string" where
  "unescape [] = []"
| "unescape [c] = [c]"
| "unescape (c # d # s) = (if c = CHR 0x5C then d # unescape s else c # unescape (d # s))"

lemma unescape_Cons: "c \<noteq> CHR 0x5C \<Longrightarrow> unescape (c # s) = c # unescape s"
  by (cases s) auto

lemma unescape_globEscaper: "unescape (globEscaper s) = s"
proof (induction s)
  case (Cons c s)
  then show ?case by (cases "c = CHR 0x5C \<or> c = CHR ''*'' \<or> c = CHR ''?'' \<or> c = CHR ''[''")
    (auto simp: globEscaper_def unescape_Cons)
qed (simp add: globEscaper_def)

end
