(* ===== verification/Stale.thy ===== *)
theory Stale
  imports Prelude
begin

text \<open>
  \<open>pkg/backend/mergerfs/stale.go\<close>: how long a branch has been dead for a daemon, and what the
  mountinfo of a daemon lists. Daemons are processes, numbered by integers; a counter that was never
  set reads as process 0 and no passes.
\<close>

section \<open>States of a mount\<close>

datatype fuse_state = Live | Dead | Gone | PlainDir | OtherState

datatype probe_error = ErrHung | ProbeFailed string

type_synonym probe_result = "fuse_state \<times> probe_error option"

definition deadInDaemon :: "probe_result \<Rightarrow> bool" where
  "deadInDaemon r \<longleftrightarrow> fst r = Dead \<or> snd r = Some ErrHung"

section \<open>The counter\<close>

definition staleThreshold :: nat where
  "staleThreshold = 3"

type_synonym staleKey = "string \<times> string"

record staleRun =
  run_pid :: int
  passes :: nat

type_synonym staleCounter = "(staleKey \<times> staleRun) list"

definition stale_lookup :: "staleCounter \<Rightarrow> staleKey \<Rightarrow> staleRun" where
  "stale_lookup c k = (case map_of c k of None \<Rightarrow> \<lparr>run_pid = 0, passes = 0\<rparr> | Some r \<Rightarrow> r)"

definition hit :: "staleCounter \<Rightarrow> string \<Rightarrow> string \<Rightarrow> int \<Rightarrow> nat \<times> staleCounter" where
  "hit c volume branch pid =
     (let k = (volume, branch);
          r = stale_lookup c k;
          r = (if run_pid r \<noteq> pid then \<lparr>run_pid = pid, passes = 0\<rparr> else r);
          r = r\<lparr>passes := Suc (passes r)\<rparr>
      in (passes r, AList.update k r c))"

definition clear :: "staleCounter \<Rightarrow> string \<Rightarrow> string \<Rightarrow> staleCounter" where
  "clear c volume branch = AList.delete (volume, branch) c"

definition retain :: "staleCounter \<Rightarrow> string list \<Rightarrow> staleCounter" where
  "retain c ids = filter (\<lambda>((volume, branch), r). volume \<in> set ids) c"

section \<open>The mount points of a process\<close>

text \<open>\<open>strings.Fields\<close>: the bytes of the white space character at the head of a string.\<close>

fun space_width :: "string \<Rightarrow> nat" where
  "space_width (a # s) =
     (let b = of_char a :: nat in
      if b = 0x20 \<or> 0x09 \<le> b \<and> b \<le> 0x0D then 1
      else (case s of
          x # t \<Rightarrow>
            (let d = of_char x :: nat in
             if b = 0xC2 \<and> (d = 0x85 \<or> d = 0xA0) then 2
             else (case t of
                 y # _ \<Rightarrow>
                   (let e = of_char y :: nat in
                    if b = 0xE1 \<and> d = 0x9A \<and> e = 0x80 \<or>
                       b = 0xE2 \<and> d = 0x80 \<and> (0x80 \<le> e \<and> e \<le> 0x8A \<or> e = 0xA8 \<or> e = 0xA9 \<or> e = 0xAF) \<or>
                       b = 0xE2 \<and> d = 0x81 \<and> e = 0x9F \<or>
                       b = 0xE3 \<and> d = 0x80 \<and> e = 0x80
                    then 3 else 0)
               | [] \<Rightarrow> 0))
        | [] \<Rightarrow> 0))"
| "space_width [] = 0"

text \<open>\<open>skip\<close> counts the bytes of a separator still to pass over, \<open>cur\<close> is the field being read.\<close>

fun fields_from :: "nat \<Rightarrow> string \<Rightarrow> string \<Rightarrow> string list" where
  "fields_from skip cur [] = (if cur = [] then [] else [cur])"
| "fields_from (Suc n) cur (c # s) = fields_from n cur s"
| "fields_from 0 cur (c # s) =
     (if space_width (c # s) = 0 then fields_from 0 (cur @ [c]) s
      else (if cur = [] then [] else [cur]) @ fields_from (space_width (c # s) - 1) [] s)"

definition Fields :: "string \<Rightarrow> string list" where
  "Fields s = fields_from 0 [] s"

text \<open>The lines of a scanner: no empty last line, a carriage return before the line feed dropped, and
  an error when a line does not fit its buffer.\<close>

definition maxScanTokenSize :: nat where
  "maxScanTokenSize = 64 * 1024"

definition raw_lines :: "string \<Rightarrow> string list" where
  "raw_lines s =
     (let ls = split_on (CHR 0x0A) s in if last ls = [] then butlast ls else ls)"

definition dropCR :: "string \<Rightarrow> string" where
  "dropCR l = (if l \<noteq> [] \<and> last l = CHR 0x0D then butlast l else l)"

definition mountPoints :: "string \<Rightarrow> string list option" where
  "mountPoints mountinfo =
     (if list_ex (\<lambda>l. length l \<ge> maxScanTokenSize) (raw_lines mountinfo) then None
      else Some (map (\<lambda>f. f ! 4)
             (filter (\<lambda>f. length f > 4) (map (\<lambda>l. Fields (dropCR l)) (raw_lines mountinfo)))))"

section \<open>The count as a history\<close>

text \<open>What the repair pass does to the counter, oldest first.\<close>

datatype stale_event =
    Hit string string int
  | Clear string string
  | Retain "string list"

fun stale_step :: "staleCounter \<Rightarrow> stale_event \<Rightarrow> staleCounter" where
  "stale_step c (Hit v b p) = snd (hit c v b p)"
| "stale_step c (Clear v b) = clear c v b"
| "stale_step c (Retain ids) = retain c ids"

definition counter_after :: "stale_event list \<Rightarrow> staleCounter" where
  "counter_after es = foldl stale_step [] es"

text \<open>The events that bear on one branch of one volume.\<close>

fun concerns :: "string \<Rightarrow> string \<Rightarrow> stale_event \<Rightarrow> bool" where
  "concerns v b (Hit v' b' p) \<longleftrightarrow> v' = v \<and> b' = b"
| "concerns v b (Clear v' b') \<longleftrightarrow> v' = v \<and> b' = b"
| "concerns v b (Retain ids) \<longleftrightarrow> v \<notin> set ids"

text \<open>The unbroken run of hits for a process that ends a history.\<close>

definition run_length :: "string \<Rightarrow> string \<Rightarrow> int \<Rightarrow> stale_event list \<Rightarrow> nat" where
  "run_length v b p es =
     length (takeWhile (\<lambda>e. e = Hit v b p) (rev (filter (concerns v b) es)))"

lemma map_of_filter_key:
  "map_of (filter (\<lambda>((volume, branch), r). P volume) c) (v, b) = (if P v then map_of c (v, b) else None)"
  by (induction c) auto

lemma lookup_hit: "map_of (snd (hit c v b p)) k =
    (if k = (v, b) then Some \<lparr>run_pid = p, passes = fst (hit c v b p)\<rparr> else map_of c k)"
  by (auto simp: hit_def Let_def gomap_update)

lemma lookup_clear: "map_of (clear c v b) k = (if k = (v, b) then None else map_of c k)"
  by (simp add: clear_def AList.delete_conv')

lemma lookup_retain: "map_of (retain c ids) (v, b) = (if v \<in> set ids then map_of c (v, b) else None)"
  by (simp add: retain_def map_of_filter_key)

lemma lookup_other: "\<not> concerns v b e \<Longrightarrow> map_of (stale_step c e) (v, b) = map_of c (v, b)"
  by (cases e) (auto simp: lookup_hit lookup_clear lookup_retain)

lemma counter_after_snoc [simp]: "counter_after (es @ [e]) = stale_step (counter_after es) e"
  by (simp add: counter_after_def)

lemma counter_lookup:
  "map_of (counter_after es) (v, b) =
     (case rev (filter (concerns v b) es) of
        Hit _ _ p # _ \<Rightarrow> Some \<lparr>run_pid = p, passes = run_length v b p es\<rparr>
      | _ \<Rightarrow> None)"
proof (induction es rule: rev_induct)
  case Nil
  show ?case by (simp add: counter_after_def)
next
  case (snoc e es)
  show ?case
  proof (cases "concerns v b e")
    case False
    then have "run_length v b p (es @ [e]) = run_length v b p es" for p by (simp add: run_length_def)
    then show ?thesis using False snoc
      by (simp add: lookup_other split: list.split stale_event.split)
  next
    case True
    then show ?thesis
    proof (cases e)
      case (Hit v' b' p)
      then have e: "e = Hit v b p" using True by simp
      let ?c = "counter_after es"
      have n: "fst (hit ?c v b p) = Suc (run_length v b p es)"
        using snoc by (auto simp: hit_def Let_def stale_lookup_def run_length_def
            split: option.splits list.splits stale_event.splits)
      show ?thesis using n by (simp add: e lookup_hit run_length_def)
    qed (auto simp: lookup_clear lookup_retain)
  qed
qed

lemma hit_counts:
  "fst (hit (counter_after es) v b p) = Suc (run_length v b p es)"
proof -
  have "counter_after (es @ [Hit v b p]) = snd (hit (counter_after es) v b p)" by simp
  then have "map_of (counter_after (es @ [Hit v b p])) (v, b) =
      Some \<lparr>run_pid = p, passes = fst (hit (counter_after es) v b p)\<rparr>"
    by (simp add: lookup_hit)
  then show ?thesis
    using counter_lookup [of "es @ [Hit v b p]" v b] by (simp add: run_length_def)
qed

text \<open>The count a hit returns is the length of the unbroken run of hits of that branch for that
  daemon: since the last time the branch was healthy or repaired, its volume was gone, or another
  daemon served it. So a repair at the threshold has seen that many bad passes in a row.\<close>

theorem hit_counts_run:
  "fst (hit (counter_after es) v b p) = Suc (run_length v b p es)"
  by (rule hit_counts)

section \<open>Reading mountinfo\<close>

text \<open>A field as the kernel prints it: printable ASCII, with white space escaped.\<close>

definition field_char :: "char \<Rightarrow> bool" where
  "field_char c \<longleftrightarrow> (0x21 :: nat) \<le> of_char c \<and> (of_char c :: nat) < 0x80"

definition kernel_field :: "string \<Rightarrow> bool" where
  "kernel_field f \<longleftrightarrow> f \<noteq> [] \<and> list_all field_char f"

lemma space_width_field: "field_char c \<Longrightarrow> space_width (c # s) = 0"
  by (auto simp: field_char_def Let_def split: list.split)

lemma space_width_space: "space_width (CHR '' '' # s) = 1"
  by simp

lemma fields_from_field:
  "list_all field_char f \<Longrightarrow> fields_from 0 cur (f @ s) = fields_from 0 (cur @ f) s"
  by (induction f arbitrary: cur) (simp_all add: space_width_field del: space_width.simps)

lemma fields_from_gap: "cur \<noteq> [] \<Longrightarrow> fields_from 0 cur (CHR '' '' # s) = cur # fields_from 0 [] s"
  by simp

lemma Fields_join: "list_all kernel_field fs \<Longrightarrow> Fields (join_with '' '' fs) = fs"
  unfolding Fields_def
proof (induction fs)
  case (Cons f fs)
  then have f: "f \<noteq> []" "list_all field_char f" by (auto simp: kernel_field_def)
  show ?case
  proof (cases fs)
    case Nil
    then show ?thesis using f fields_from_field [OF f(2), of "[]" "[]"] by simp
  next
    case (Cons g gs)
    then have "fields_from 0 [] (join_with '' '' (f # fs)) =
        fields_from 0 f (CHR '' '' # join_with '' '' fs)"
      using fields_from_field [OF f(2), of "[]"] by simp
    also have "\<dots> = f # fields_from 0 [] (join_with '' '' fs)"
      using f(1) by (rule fields_from_gap)
    finally show ?thesis using Cons.IH Cons.prems by simp
  qed
qed simp

lemma field_chars: "kernel_field f \<Longrightarrow> c \<in> set f \<Longrightarrow> c \<noteq> CHR 0x0A \<and> c \<noteq> CHR 0x0D"
  by (auto simp: kernel_field_def list_all_iff field_char_def)

lemma line_chars:
  "list_all kernel_field fs \<Longrightarrow> c \<in> set (join_with '' '' fs) \<Longrightarrow> c \<noteq> CHR 0x0A \<and> c \<noteq> CHR 0x0D"
  using set_join_with [of "'' ''" fs] field_chars by (fastforce simp: list_all_iff)

lemma raw_lines_concat:
  "\<forall>l \<in> set ls. CHR 0x0A \<notin> set l \<Longrightarrow> raw_lines (concat (map (\<lambda>l. l @ [CHR 0x0A]) ls)) = ls"
proof -
  assume a: "\<forall>l \<in> set ls. CHR 0x0A \<notin> set l"
  then have "split_on (CHR 0x0A) (concat (map (\<lambda>l. l @ [CHR 0x0A]) ls)) = ls @ [[]]"
    by (induction ls) (simp_all add: split_on_append)
  then show ?thesis by (simp add: raw_lines_def Let_def)
qed

text \<open>From the lines the kernel prints for a process, with its fields separated by blanks and white
  space in them escaped, the mount point of each is read back, in order; nothing is missed and
  nothing invented.\<close>

theorem mountPoints_reads_kernel_lines:
  assumes "list_all (\<lambda>fs. list_all kernel_field fs \<and> length fs > 4 \<and>
      length (join_with '' '' fs) < maxScanTokenSize) ms"
  shows "mountPoints (concat (map (\<lambda>fs. join_with '' '' fs @ [CHR 0x0A]) ms)) = Some (map (\<lambda>fs. fs ! 4) ms)"
proof -
  let ?line = "\<lambda>fs. join_with '' '' fs"
  have a: "list_all kernel_field fs \<and> length fs > 4 \<and> length (?line fs) < maxScanTokenSize" if "fs \<in> set ms" for fs
    using assms that by (simp add: list_all_iff)
  have "raw_lines (concat (map (\<lambda>l. l @ [CHR 0x0A]) (map ?line ms))) = map ?line ms"
    by (rule raw_lines_concat) (use a line_chars in fastforce)
  then have r: "raw_lines (concat (map (\<lambda>fs. ?line fs @ [CHR 0x0A]) ms)) = map ?line ms"
    by (simp add: comp_def)
  have f: "Fields (dropCR (?line fs)) = fs" if "fs \<in> set ms" for fs
  proof -
    have "dropCR (?line fs) = ?line fs"
      using line_chars [of fs "last (?line fs)"] a [OF that] last_in_set by (auto simp: dropCR_def)
    then show ?thesis using Fields_join a [OF that] by simp
  qed
  have "map (\<lambda>l. Fields (dropCR l)) (map ?line ms) = ms"
    using f by (simp add: map_idI)
  moreover have "filter (\<lambda>f. 4 < length f) ms = ms" using a by (simp add: filter_id_conv)
  moreover have "\<not> list_ex (\<lambda>l. length l \<ge> maxScanTokenSize) (map ?line ms)"
    using a by (fastforce simp: list_ex_iff)
  ultimately show ?thesis unfolding mountPoints_def r by simp
qed

theorem mountPoints_reads_kernel_lines_witness:
  "mountPoints (''36 35 0:43 / /branch/0 rw - ext4 /dev/sda rw'' @ [CHR 0x0A]) = Some [''/branch/0'']"
proof -
  let ?fs = "[''36'', ''35'', ''0:43'', ''/'', ''/branch/0'', ''rw'', ''-'', ''ext4'', ''/dev/sda'', ''rw'']"
  have "list_all kernel_field ?fs" by code_simp
  then show ?thesis using mountPoints_reads_kernel_lines [of "[?fs]"] by (simp add: maxScanTokenSize_def)
qed

end
