(* ===== verification/MergerfsMount.thy ===== *)
theory MergerfsMount
  imports Mergerfs Stale
begin

text \<open>
  The effects of package \<open>pkg/backend/mergerfs\<close>: mounting, sharing and unmounting
  (\<open>mount_linux.go\<close>), the repair of branches (\<open>probe_linux.go\<close>), the repair pass
  (\<open>reconcile_linux.go\<close>) and \<open>Init\<close> (\<open>mergerfs.go\<close>). The libraries that keep the state files,
  supervise the daemons, probe and bind mounts and build the sandbox, and the kernel, are one
  parameter: a function from the calls made so far, with their replies, and the next call to its
  reply. Only the calls and the stale counter are state.
\<close>

section \<open>The outside\<close>

text \<open>An empty branch list stands for none: a volume has a source, so a sandboxed one has branches.\<close>

record volumeState =
  vs_VolumeID :: string
  vs_Target :: string
  Argv :: "string list"
  Branches :: "bind list"
  SharedFrom :: string
  vs_ReadOnly :: bool

definition blank_state :: volumeState where
  "blank_state = \<lparr>vs_VolumeID = [], vs_Target = [], Argv = [], Branches = [], SharedFrom = [],
     vs_ReadOnly = False\<rparr>"

text \<open>\<open>WaitServing\<close> is \<open>fusemount.WaitMounted\<close> with \<open>serving\<close> as its condition; the two seal calls are
  the bind of the control file over itself and its remount.\<close>

datatype ext =
    LockVolume string
  | UnlockVolume string
  | SaveState string volumeState
  | LoadState string
  | LoadAllStates
  | RemoveStateFile string
  | RemoveLog string
  | OpenLog string
  | CloseLog string
  | LookPath string
  | EvalSymlinks string
  | SandboxCommand string string "bind list" "string list"
  | StartDaemon string "string list" string
  | DaemonExited string
  | KillGroup string
  | DaemonPID string
  | ReplaceIn string string string bool
  | ReadMountinfo int
  | ProbeMount string
  | ForgetProbe string
  | UnmountFuse string
  | BindFuse string string bool
  | WaitServing string
  | StopScope string
  | SealBind string
  | SealRemount string
  | StatfsReadOnly string
  | ProbeMountSetattr
  | NewScopeManager string string
  | NewSupervisor

datatype ext_error = DoesNotExist | NoSuchCall | ExtError string

datatype reply =
    Done
  | Failed ext_error
  | Probed probe_result
  | Number int
  | Loaded volumeState
  | LoadedAll "volumeState list" "ext_error list"
  | Content string
  | Answer bool
  | Found string
  | Command "string list"

type_synonym ext_log = "(ext \<times> reply) list"
type_synonym outside = "ext_log \<Rightarrow> ext \<Rightarrow> reply"

record mnode =
  elog :: ext_log
  stale :: staleCounter

record mergerfsBackend =
  outside :: outside
  useSandbox :: bool
  sealControl :: bool
  stateDir :: string

datatype mergerfs_error =
    BadArgv argv_error
  | External ext_error
  | NotServing string ext_error
  | NoCommand
  | NoStateDir
  | SandboxUnsupported

type_synonym 'a mop = "(mnode, mergerfs_error, 'a) prog"

definition ask :: "mergerfsBackend \<Rightarrow> ext \<Rightarrow> (mnode, reply) state" where
  "ask b c = State (\<lambda>n. let r = outside b (elog n) c in (r, n\<lparr>elog := elog n @ [(c, r)]\<rparr>))"

lemma run_ask [simp]:
  "run_state (ask b c) n =
     (outside b (elog n) c, n\<lparr>elog := elog n @ [(c, outside b (elog n) c)]\<rparr>)"
  by (simp add: ask_def Let_def)

definition failed :: "reply \<Rightarrow> ext_error option" where
  "failed r = (case r of Failed e \<Rightarrow> Some e | _ \<Rightarrow> None)"

definition must :: "mergerfsBackend \<Rightarrow> ext \<Rightarrow> (ext_error \<Rightarrow> mergerfs_error) \<Rightarrow> unit mop" where
  "must b c wrap =
     do { r \<leftarrow> ask b c; case failed r of Some e \<Rightarrow> fail (wrap e) | None \<Rightarrow> ok () }"

definition ignore :: "mergerfsBackend \<Rightarrow> ext \<Rightarrow> (mnode, unit) state" where
  "ignore b c = do { _ \<leftarrow> ask b c; State_Monad.return () }"

section \<open>Probing\<close>

definition controlFile :: string where "controlFile = ''.mergerfs''"
definition mergerfsBinary :: string where "mergerfsBinary = ''mergerfs''"

definition as_probe :: "reply \<Rightarrow> probe_result" where
  "as_probe r = (case r of Probed p \<Rightarrow> p | _ \<Rightarrow> (OtherState, Some (ProbeFailed [])))"

definition probe :: "mergerfsBackend \<Rightarrow> string \<Rightarrow> (mnode, probe_result) state" where
  "probe b path = do { r \<leftarrow> ask b (ProbeMount path); State_Monad.return (as_probe r) }"

definition sealed :: "mergerfsBackend \<Rightarrow> string \<Rightarrow> (mnode, bool) state" where
  "sealed b target =
     do { r \<leftarrow> ask b (StatfsReadOnly (filepath_Join [target, controlFile]));
          State_Monad.return (r = Answer True) }"

definition serving :: "mergerfsBackend \<Rightarrow> string \<Rightarrow> (mnode, bool) state" where
  "serving b target =
     do { p \<leftarrow> probe b target;
          if fst p = Live \<and> snd p = None then
            (if \<not> sealControl b then State_Monad.return True else sealed b target)
          else State_Monad.return False }"

section \<open>Daemons\<close>

definition daemonCommand :: "mergerfsBackend \<Rightarrow> volumeState \<Rightarrow> string list mop" where
  "daemonCommand b st =
     do {
       r \<leftarrow> ask b (LookPath mergerfsBinary);
       case r of
         Failed e \<Rightarrow> fail (External e)
       | Found bin \<Rightarrow>
           if Branches st = [] then ok (bin # Argv st)
           else do {
             r \<leftarrow> ask b (EvalSymlinks bin);
             case r of
               Failed e \<Rightarrow> fail (External e)
             | Found bin \<Rightarrow>
                 do {
                   r \<leftarrow> ask b (SandboxCommand (vs_Target st) sandboxTarget (Branches st) (bin # Argv st));
                   case r of
                     Failed e \<Rightarrow> fail (External e)
                   | Command cmd \<Rightarrow> ok cmd
                   | _ \<Rightarrow> fail NoCommand }
             | _ \<Rightarrow> fail NoCommand }
       | _ \<Rightarrow> fail NoCommand
     }"

definition sealControlFile :: "mergerfsBackend \<Rightarrow> string \<Rightarrow> unit mop" where
  "sealControlFile b target =
     (let ctl = filepath_Join [target, controlFile]
      in try_do (must b (SealBind ctl) External) (\<lambda>_. must b (SealRemount ctl) External))"

definition killDaemon :: "mergerfsBackend \<Rightarrow> string \<Rightarrow> (mnode, unit) state" where
  "killDaemon b volumeID =
     do { r \<leftarrow> ask b (DaemonExited volumeID);
          if r = Answer True then State_Monad.return () else ignore b (KillGroup volumeID) }"

definition startDaemon :: "mergerfsBackend \<Rightarrow> volumeState \<Rightarrow> unit mop" where
  "startDaemon b st =
     try_do (daemonCommand b st) (\<lambda>cmd.
     try_do (must b (OpenLog (daemonLog (stateDir b) (vs_VolumeID st))) External) (\<lambda>_.
       finally_do
         (try_do (must b (StartDaemon (vs_VolumeID st) cmd (vs_Target st)) External) (\<lambda>_.
            if \<not> sealControl b then ok ()
            else do {
              r \<leftarrow> sealControlFile b (vs_Target st);
              case r of
                Inr _ \<Rightarrow> ok ()
              | Inl e \<Rightarrow> do {
                  _ \<leftarrow> ignore b (UnmountFuse (vs_Target st));
                  _ \<leftarrow> killDaemon b (vs_VolumeID st);
                  fail e } }))
         (ignore b (CloseLog (daemonLog (stateDir b) (vs_VolumeID st))))))"

definition removeState :: "mergerfsBackend \<Rightarrow> string \<Rightarrow> unit mop" where
  "removeState b volumeID =
     do { _ \<leftarrow> ignore b (RemoveLog (daemonLog (stateDir b) volumeID));
          must b (RemoveStateFile volumeID) External }"

section \<open>The operations of the backend\<close>

definition mergerfs_mountUnion :: "mergerfsBackend \<Rightarrow> mount_spec \<Rightarrow> unit mop" where
  "mergerfs_mountUnion b spec =
     (let (spec', branches) = (if useSandbox b then sandboxed spec else (spec, []))
      in case buildArgv spec' of
           Inl e \<Rightarrow> fail (BadArgv e)
         | Inr argv \<Rightarrow>
             (let st = blank_state\<lparr>vs_VolumeID := VolumeID spec, vs_Target := Target spec,
                         Argv := argv, Branches := branches\<rparr>
              in try_do (must b (SaveState (VolumeID spec') st) External) (\<lambda>_.
                 do { r \<leftarrow> startDaemon b st;
                      case r of
                        Inr _ \<Rightarrow> ok ()
                      | Inl e \<Rightarrow> do { _ \<leftarrow> removeState b (VolumeID spec'); fail e } })))"

definition shareUnion :: "mergerfsBackend \<Rightarrow> string \<Rightarrow> string \<Rightarrow> string \<Rightarrow> bool \<Rightarrow> unit mop" where
  "shareUnion b volumeID source target ro =
     try_do (must b (WaitServing source) (NotServing source)) (\<lambda>_.
       (let st = blank_state\<lparr>vs_VolumeID := volumeID, vs_Target := target, SharedFrom := source,
                   vs_ReadOnly := ro\<rparr>
        in try_do (must b (SaveState volumeID st) External) (\<lambda>_.
           do { r \<leftarrow> ask b (BindFuse source target ro);
                case failed r of
                  None \<Rightarrow> ok ()
                | Some e \<Rightarrow> do { _ \<leftarrow> removeState b volumeID; fail (External e) } })))"

definition mergerfs_unmountUnion :: "mergerfsBackend \<Rightarrow> string \<Rightarrow> string \<Rightarrow> unit mop" where
  "mergerfs_unmountUnion b volumeID target =
     try_do (must b (UnmountFuse target) External) (\<lambda>_.
       do { _ \<leftarrow> ignore b (ForgetProbe target);
            _ \<leftarrow> ignore b (StopScope volumeID);
            removeState b volumeID })"

text \<open>\<open>Mount\<close>, \<open>Share\<close> and \<open>Unmount\<close> hold the lock of the volume.\<close>

definition with_lock :: "mergerfsBackend \<Rightarrow> string \<Rightarrow> unit mop \<Rightarrow> unit mop" where
  "with_lock b volumeID m =
     do { _ \<leftarrow> ignore b (LockVolume volumeID); finally_do m (ignore b (UnlockVolume volumeID)) }"

definition mergerfs_backend :: "mergerfsBackend \<Rightarrow> (mnode, mergerfs_error) backend" where
  "mergerfs_backend b =
     \<lparr>Name = ''mergerfs'', Schema = mergerfs_Schema (useSandbox b), SourceModes = mergerfs_SourceModes,
      MaxWritable = mergerfs_MaxWritable, DefaultOptions = mergerfs_DefaultOptions,
      DefaultDenylist = mergerfs_DefaultDenylist,
      Mount = (\<lambda>spec. with_lock b (VolumeID spec) (mergerfs_mountUnion b spec)),
      Share = (\<lambda>volumeID source target ro. with_lock b volumeID (shareUnion b volumeID source target ro)),
      Unmount = (\<lambda>volumeID target. with_lock b volumeID (mergerfs_unmountUnion b volumeID target))\<rparr>"

definition checkSandbox :: "mergerfsBackend \<Rightarrow> unit mop" where
  "checkSandbox b =
     do { r \<leftarrow> ask b ProbeMountSetattr;
          if r = Failed NoSuchCall then fail SandboxUnsupported else ok () }"

definition mergerfs_Init :: "mergerfsBackend \<Rightarrow> string \<Rightarrow> mergerfsBackend mop" where
  "mergerfs_Init b dir =
     (if dir = [] then fail NoStateDir
      else
        try_do (if useSandbox b then checkSandbox b else ok ()) (\<lambda>_.
        try_do (must b (NewScopeManager scopePrefix scopeSuffix) External) (\<lambda>_.
        try_do (must b NewSupervisor External) (\<lambda>_.
          State (\<lambda>n. (Inr (b\<lparr>stateDir := dir\<rparr>), n\<lparr>stale := []\<rparr>))))))"

section \<open>Repairing branches\<close>

definition update_stale :: "(staleCounter \<Rightarrow> 'a \<times> staleCounter) \<Rightarrow> (mnode, 'a) state" where
  "update_stale f = State (\<lambda>n. case f (stale n) of (x, c) \<Rightarrow> (x, n\<lparr>stale := c\<rparr>))"

definition daemonMountPoints :: "mergerfsBackend \<Rightarrow> int \<Rightarrow> (mnode, string list option) state" where
  "daemonMountPoints b pid =
     do { r \<leftarrow> ask b (ReadMountinfo pid);
          State_Monad.return (case r of Content text \<Rightarrow> mountPoints text | _ \<Rightarrow> None) }"

text \<open>One branch: whether it is dead in the daemon, whether it serves on the host, and for how long
  this has been so.\<close>

definition repair_branch ::
    "mergerfsBackend \<Rightarrow> string \<Rightarrow> int \<Rightarrow> string list option \<Rightarrow> bind \<Rightarrow> (mnode, unit) state" where
  "repair_branch b volumeID pid mounts br =
     (let inner = filepath_Join [filepath_Join [''/proc'', Itoa pid, ''root''], Sandbox br];
          forget = update_stale (\<lambda>c. ((), clear c volumeID (Sandbox br)))
      in do {
        p \<leftarrow> probe b inner;
        if \<not> (deadInDaemon p \<or> (case mounts of None \<Rightarrow> False | Some ms \<Rightarrow> Sandbox br \<notin> set ms))
        then forget
        else do {
          h \<leftarrow> probe b (Host br);
          if fst h \<noteq> Live \<or> snd h \<noteq> None then forget
          else do {
            passes \<leftarrow> update_stale (\<lambda>c. hit c volumeID (Sandbox br) pid);
            if passes < staleThreshold then State_Monad.return ()
            else do {
              r \<leftarrow> ask b (ReplaceIn volumeID (Host br) (Sandbox br) (bind_ReadOnly br));
              case failed r of
                Some e \<Rightarrow> State_Monad.return ()
              | None \<Rightarrow> do { _ \<leftarrow> ignore b (ForgetProbe inner); forget } } } } })"

fun repair_loop ::
    "mergerfsBackend \<Rightarrow> string \<Rightarrow> int \<Rightarrow> string list option \<Rightarrow> bind list \<Rightarrow> (mnode, unit) state" where
  "repair_loop b volumeID pid mounts [] = State_Monad.return ()"
| "repair_loop b volumeID pid mounts (br # brs) =
     do { _ \<leftarrow> repair_branch b volumeID pid mounts br; repair_loop b volumeID pid mounts brs }"

definition repairBranches :: "mergerfsBackend \<Rightarrow> volumeState \<Rightarrow> (mnode, unit) state" where
  "repairBranches b st =
     (if Branches st = [] then State_Monad.return ()
      else do {
        r \<leftarrow> ask b (DaemonPID (vs_VolumeID st));
        (let pid = (case r of Number i \<Rightarrow> i | _ \<Rightarrow> 0)
         in if pid = 0 then State_Monad.return ()
            else do {
              mounts \<leftarrow> daemonMountPoints b pid;
              repair_loop b (vs_VolumeID st) pid mounts (Branches st) }) })"

section \<open>The repair pass\<close>

text \<open>Errors of a pass are only logged.\<close>

definition logged :: "'a mop \<Rightarrow> (mnode, unit) state" where
  "logged m = do { _ \<leftarrow> m; State_Monad.return () }"

definition remountUnion :: "mergerfsBackend \<Rightarrow> volumeState \<Rightarrow> (mnode, unit) state" where
  "remountUnion b st =
     logged (try_do (must b (UnmountFuse (vs_Target st)) External) (\<lambda>_.
       do { _ \<leftarrow> ignore b (ForgetProbe (vs_Target st));
            try_do (must b (StopScope (vs_VolumeID st)) External) (\<lambda>_. startDaemon b st) }))"

definition rebindShared :: "mergerfsBackend \<Rightarrow> volumeState \<Rightarrow> (mnode, unit) state" where
  "rebindShared b st =
     do {
       live \<leftarrow> serving b (SharedFrom st);
       if \<not> live then State_Monad.return ()
       else logged (try_do (must b (UnmountFuse (vs_Target st)) External) (\<lambda>_.
         do { _ \<leftarrow> ignore b (ForgetProbe (vs_Target st));
              must b (BindFuse (SharedFrom st) (vs_Target st) (vs_ReadOnly st)) External })) }"

definition reconcile :: "mergerfsBackend \<Rightarrow> string \<Rightarrow> (mnode, unit) state" where
  "reconcile b volumeID =
     do {
       r \<leftarrow> ask b (LoadState volumeID);
       case r of
         Loaded st \<Rightarrow>
           do {
             p \<leftarrow> probe b (vs_Target st);
             if snd p = Some ErrHung then repairBranches b st
             else (case fst p of
                 Live \<Rightarrow> repairBranches b st
               | Gone \<Rightarrow> logged (removeState b volumeID)
               | Dead \<Rightarrow> if SharedFrom st \<noteq> [] then rebindShared b st else remountUnion b st
               | _ \<Rightarrow> State_Monad.return ()) }
       | _ \<Rightarrow> State_Monad.return () }"

text \<open>What a pass does with a volume after it was probed.\<close>

abbreviation repair_action ::
    "mergerfsBackend \<Rightarrow> string \<Rightarrow> volumeState \<Rightarrow> probe_result \<Rightarrow> (mnode, unit) state" where
  "repair_action b volumeID st p \<equiv>
     (if snd p = Some ErrHung then repairBranches b st
      else (case fst p of
          Live \<Rightarrow> repairBranches b st
        | Gone \<Rightarrow> logged (removeState b volumeID)
        | Dead \<Rightarrow> if SharedFrom st \<noteq> [] then rebindShared b st else remountUnion b st
        | _ \<Rightarrow> State_Monad.return ()))"

text \<open>The volumes of a pass; the second result are the errors of the state files that do not load.\<close>

definition ids :: "mergerfsBackend \<Rightarrow> (mnode, string list \<times> ext_error list) state" where
  "ids b =
     do {
       r \<leftarrow> ask b LoadAllStates;
       (let (states, errs) = (case r of LoadedAll ss es \<Rightarrow> (ss, es) | Failed e \<Rightarrow> ([], [e]) | _ \<Rightarrow> ([], []));
            volumes = map vs_VolumeID (sort_key (\<lambda>st. SharedFrom st \<noteq> []) states)
        in do {
          _ \<leftarrow> update_stale (\<lambda>c. ((), retain c volumes));
          State_Monad.return (volumes, errs) }) }"

end
