(* ===== verification/MergerfsSafety.thy ===== *)
theory MergerfsSafety
  imports MergerfsMount
begin

text \<open>
  What the mergerfs backend may do to mounts and daemons: every disruptive call of a repair pass has
  its reason among the calls the pass made before it, a branch is replaced only after three bad
  passes in a row, a daemon is only started for a volume whose state is on disk, and all calls of an
  operation are made under the lock of its volume.
\<close>

section \<open>Logs in which every call has a reason\<close>

fun reasoned :: "(ext_log \<Rightarrow> ext \<Rightarrow> bool) \<Rightarrow> ext_log \<Rightarrow> ext_log \<Rightarrow> bool" where
  "reasoned J before [] = True"
| "reasoned J before ((c, r) # log) \<longleftrightarrow> J before c \<and> reasoned J (before @ [(c, r)]) log"

lemma reasoned_snoc:
  "reasoned J before (log @ [(c, r)]) \<longleftrightarrow> reasoned J before log \<and> J (before @ log) c"
  by (induction J before log rule: reasoned.induct) auto

text \<open>Since the log \<open>base\<close> only reasoned calls were made, the entries \<open>F\<close> among them.\<close>

definition traced :: "(ext_log \<Rightarrow> ext \<Rightarrow> bool) \<Rightarrow> ext_log \<Rightarrow> (ext \<times> reply) set \<Rightarrow> mnode \<Rightarrow> bool" where
  "traced J base F n \<longleftrightarrow> (\<exists>new. elog n = base @ new \<and> reasoned J [] new \<and> F \<subseteq> set new)"

definition allowed_call :: "(ext_log \<Rightarrow> ext \<Rightarrow> bool) \<Rightarrow> (ext \<times> reply) set \<Rightarrow> ext \<Rightarrow> bool" where
  "allowed_call J F c \<longleftrightarrow> (\<forall>new. F \<subseteq> set new \<longrightarrow> J new c)"

definition reasonable :: "(ext_log \<Rightarrow> ext \<Rightarrow> bool) \<Rightarrow> (ext \<times> reply) set \<Rightarrow> (mnode, 'a) state \<Rightarrow> bool" where
  "reasonable J F m \<longleftrightarrow> (\<forall>base. hoare (traced J base F) m (\<lambda>_. traced J base F))"

named_theorems reasonable_rules \<open>rules for programs whose calls have reasons\<close>

lemma traced_subset: "traced J base F n \<Longrightarrow> G \<subseteq> F \<Longrightarrow> traced J base G n"
  unfolding traced_def by blast

lemma traced_ask:
  "allowed_call J F c \<Longrightarrow>
     hoare (traced J base F) (ask b c) (\<lambda>r. traced J base (insert (c, r) F))"
  unfolding hoare_def traced_def allowed_call_def
  by (force simp: reasoned_snoc)

lemma reasonable_return [reasonable_rules]: "reasonable J F (State_Monad.return x)"
  by (simp add: reasonable_def hoare_def)

lemma reasonable_ok [reasonable_rules]: "reasonable J F (ok x)"
  by (simp add: reasonable_def hoare_def)

lemma reasonable_fail [reasonable_rules]: "reasonable J F (fail e)"
  by (simp add: reasonable_def hoare_def)

lemma reasonable_bind [reasonable_rules]:
  "reasonable J F m \<Longrightarrow> (\<And>x. reasonable J F (f x)) \<Longrightarrow> reasonable J F (State_Monad.bind m f)"
  unfolding reasonable_def by (blast intro: hoare_bind)

lemma reasonable_try [reasonable_rules]:
  "reasonable J F m \<Longrightarrow> (\<And>x. reasonable J F (f x)) \<Longrightarrow> reasonable J F (try_do m f)"
  unfolding reasonable_def by (blast intro: hoare_try)

lemma reasonable_finally [reasonable_rules]:
  "reasonable J F m \<Longrightarrow> reasonable J F g \<Longrightarrow> reasonable J F (finally_do m g)"
  unfolding reasonable_def by (blast intro: hoare_finally)

lemma reasonable_if [reasonable_rules]:
  "(c \<Longrightarrow> reasonable J F m) \<Longrightarrow> (\<not> c \<Longrightarrow> reasonable J F m') \<Longrightarrow> reasonable J F (if c then m else m')"
  by simp

lemma reasonable_case_sum [reasonable_rules]:
  "(\<And>e. reasonable J F (f e)) \<Longrightarrow> (\<And>x. reasonable J F (g x)) \<Longrightarrow>
     reasonable J F (case r of Inl e \<Rightarrow> f e | Inr x \<Rightarrow> g x)"
  by (cases r) simp_all

lemma reasonable_case_option [reasonable_rules]:
  "(r = None \<Longrightarrow> reasonable J F f) \<Longrightarrow> (\<And>x. r = Some x \<Longrightarrow> reasonable J F (g x)) \<Longrightarrow>
     reasonable J F (case r of None \<Rightarrow> f | Some x \<Rightarrow> g x)"
  by (cases r) simp_all

lemma reasonable_Found [reasonable_rules]:
  "(\<And>x. reasonable J F (g x)) \<Longrightarrow>
     reasonable J F (case r of Failed e \<Rightarrow> fail (w e) | Found x \<Rightarrow> g x | _ \<Rightarrow> fail e')"
  by (cases r) (simp_all add: reasonable_fail)

lemma reasonable_Command [reasonable_rules]:
  "reasonable J F (case r of Failed e \<Rightarrow> fail (w e) | Command x \<Rightarrow> ok x | _ \<Rightarrow> fail e')"
  by (cases r) (simp_all add: reasonable_fail reasonable_ok)

lemma reasonable_ask_bind:
  assumes "allowed_call J F c" and "\<And>r. reasonable J (insert (c, r) F) (f r)"
  shows "reasonable J F (State_Monad.bind (ask b c) f)"
proof -
  have "hoare (traced J base (insert (c, r) F)) (f r) (\<lambda>_. traced J base F)" for base r
    using assms(2) unfolding reasonable_def by (blast intro: hoare_post traced_subset)
  then show ?thesis unfolding reasonable_def by (blast intro: hoare_bind [OF traced_ask [OF assms(1)]])
qed

lemma reasonable_ask [reasonable_rules]: "allowed_call J F c \<Longrightarrow> reasonable J F (ask b c)"
  unfolding reasonable_def by (blast intro: hoare_post [OF traced_ask] traced_subset)

lemma reasonable_ignore [reasonable_rules]: "allowed_call J F c \<Longrightarrow> reasonable J F (ignore b c)"
  unfolding ignore_def by (intro reasonable_rules)

lemma reasonable_must [reasonable_rules]: "allowed_call J F c \<Longrightarrow> reasonable J F (must b c w)"
  unfolding must_def by (intro reasonable_rules)

lemma try_must:
  "try_do (must b c w) f =
     State_Monad.bind (ask b c) (\<lambda>r. case failed r of Some e \<Rightarrow> fail (w e) | None \<Rightarrow> f ())"
proof -
  have "run_state (try_do (must b c w) f) n =
      run_state (State_Monad.bind (ask b c) (\<lambda>r. case failed r of Some e \<Rightarrow> fail (w e) | None \<Rightarrow> f ())) n" for n
    by (simp add: must_def split: option.split)
  then show ?thesis by (metis state.expand ext)
qed

lemma reasonable_must_try:
  assumes "allowed_call J F c" and "\<And>r. failed r = None \<Longrightarrow> reasonable J (insert (c, r) F) (f ())"
  shows "reasonable J F (try_do (must b c w) f)"
  unfolding try_must
  by (rule reasonable_ask_bind [OF assms(1)]) (auto intro!: reasonable_rules assms(2))

lemma reasonable_stale [reasonable_rules]: "reasonable J F (update_stale f)"
  by (auto simp: reasonable_def hoare_def update_stale_def traced_def split: prod.splits)

lemma reasonable_logged [reasonable_rules]: "reasonable J F m \<Longrightarrow> reasonable J F (logged m)"
  unfolding logged_def by (intro reasonable_rules)

section \<open>The reasons of a repair pass\<close>

text \<open>The mount answered as dead, and not only late.\<close>

definition seen_dead :: "ext_log \<Rightarrow> string \<Rightarrow> bool" where
  "seen_dead log t \<longleftrightarrow> (\<exists>e. (ProbeMount t, Probed (Dead, e)) \<in> set log \<and> e \<noteq> Some ErrHung)"

definition seen_live :: "ext_log \<Rightarrow> string \<Rightarrow> bool" where
  "seen_live log t \<longleftrightarrow> (ProbeMount t, Probed (Live, None)) \<in> set log"

definition succeeded :: "ext_log \<Rightarrow> ext \<Rightarrow> bool" where
  "succeeded log c \<longleftrightarrow> (\<exists>r. (c, r) \<in> set log \<and> failed r = None)"

fun repair_reason :: "mergerfsBackend \<Rightarrow> ext_log \<Rightarrow> ext \<Rightarrow> bool" where
  "repair_reason b log (UnmountFuse t) = seen_dead log t"
| "repair_reason b log (StopScope v) = (\<exists>t. seen_dead log t \<and> succeeded log (UnmountFuse t))"
| "repair_reason b log (StartDaemon v cmd t) =
     (seen_dead log t \<and> succeeded log (UnmountFuse t) \<and> succeeded log (StopScope v))"
| "repair_reason b log (KillGroup v) = (\<exists>cmd t. succeeded log (StartDaemon v cmd t))"
| "repair_reason b log (BindFuse s t ro) =
     (seen_dead log t \<and> succeeded log (UnmountFuse t) \<and> seen_live log s \<and>
      (sealControl b \<longrightarrow> (StatfsReadOnly (filepath_Join [s, controlFile]), Answer True) \<in> set log))"
| "repair_reason b log (RemoveStateFile v) =
     (\<exists>t e. (ProbeMount t, Probed (Gone, e)) \<in> set log \<and> e \<noteq> Some ErrHung)"
| "repair_reason b log (ReplaceIn v host inner ro) = seen_live log host"
| "repair_reason b log (SaveState v st) = False"
| "repair_reason b log c = True"

abbreviation repairs :: "mergerfsBackend \<Rightarrow> (ext \<times> reply) set \<Rightarrow> (mnode, 'a) state \<Rightarrow> bool" where
  "repairs b \<equiv> reasonable (repair_reason b)"

abbreviation may_call :: "mergerfsBackend \<Rightarrow> (ext \<times> reply) set \<Rightarrow> ext \<Rightarrow> bool" where
  "may_call b \<equiv> allowed_call (repair_reason b)"

lemma as_probe_iff: "as_probe r = (s, e) \<Longrightarrow> s \<noteq> OtherState \<Longrightarrow> r = Probed (s, e)"
  by (cases r) (auto simp: as_probe_def)

lemma as_probe_live:
  "\<not> (fst (as_probe r) \<noteq> Live \<or> snd (as_probe r) \<noteq> None) \<Longrightarrow> Probed (Live, None) = r"
  by (cases r) (auto simp: as_probe_def prod_eq_iff)

lemma run_probe_bind:
  "State_Monad.bind (probe b path) f = State_Monad.bind (ask b (ProbeMount path)) (\<lambda>r. f (as_probe r))"
  by (simp add: probe_def)

lemma may_call_dead:
  assumes "(ProbeMount t, Probed (Dead, e)) \<in> F" and "e \<noteq> Some ErrHung"
  shows "may_call b F (UnmountFuse t)"
  using assms unfolding allowed_call_def by (auto simp: seen_dead_def)

subsection \<open>Branches\<close>

lemma repairs_repair_branch [reasonable_rules]: "repairs b F (repair_branch b v pid mounts br)"
proof -
  have free: "may_call b F (ProbeMount t)" "may_call b F (ForgetProbe t)" for F t
    by (simp_all add: allowed_call_def)
  have replace: "may_call b F (ReplaceIn v (Host br) (Sandbox br) ro)"
    if "(ProbeMount (Host br), Probed (Live, None)) \<in> F" for F ro
    using that by (auto simp: allowed_call_def seen_live_def)
  show ?thesis
    unfolding repair_branch_def Let_def run_probe_bind
    apply (rule reasonable_ask_bind [OF free(1)])
    apply (rule reasonable_if, rule reasonable_stale)
    apply (rule reasonable_ask_bind [OF free(1)])
    apply (rule reasonable_if, rule reasonable_stale)
    apply (rule reasonable_bind, rule reasonable_stale)
    apply (rule reasonable_if, rule reasonable_return)
    apply (rule reasonable_ask_bind)
     apply (rule replace)
     apply (simp add: as_probe_live)
    apply (intro reasonable_rules free)
    done
qed

lemma repairs_repair_loop [reasonable_rules]: "repairs b F (repair_loop b v pid mounts brs)"
  by (induction brs) (auto intro!: reasonable_rules)

lemma repairs_repairBranches [reasonable_rules]: "repairs b F (repairBranches b st)"
  unfolding repairBranches_def daemonMountPoints_def Let_def
  by (intro reasonable_rules) (simp_all add: allowed_call_def)

subsection \<open>Daemons\<close>

lemma repairs_daemonCommand [reasonable_rules]: "repairs b F (daemonCommand b st)"
  unfolding daemonCommand_def by (intro reasonable_rules) (simp_all add: allowed_call_def)

lemma repairs_sealControlFile [reasonable_rules]: "repairs b F (sealControlFile b t)"
  unfolding sealControlFile_def Let_def
  by (intro reasonable_rules) (simp_all add: allowed_call_def)

text \<open>The facts a remount has gathered when it starts the daemon.\<close>

lemma repairs_startDaemon:
  assumes "(ProbeMount (vs_Target st), Probed (Dead, e)) \<in> F" and "e \<noteq> Some ErrHung"
    and "(UnmountFuse (vs_Target st), u) \<in> F" and "failed u = None"
    and "(StopScope (vs_VolumeID st), v) \<in> F" and "failed v = None"
  shows "repairs b F (startDaemon b st)"
proof -
  have start: "may_call b F (StartDaemon (vs_VolumeID st) cmd (vs_Target st))" for cmd
    using assms unfolding allowed_call_def by (auto simp: seen_dead_def succeeded_def)
  have free: "may_call b G (OpenLog x)" "may_call b G (CloseLog x)" "may_call b G (DaemonExited y)" for G x y
    by (simp_all add: allowed_call_def)
  have kill: "may_call b (insert (DaemonExited y, r) (insert (StartDaemon (vs_VolumeID st) cmd t, r') F))
      (KillGroup (vs_VolumeID st))" if "failed r' = None" for r r' y cmd t
    using that unfolding allowed_call_def by (auto simp: succeeded_def)
  have killed: "repairs b (insert (StartDaemon (vs_VolumeID st) cmd t, r') F)
      (killDaemon b (vs_VolumeID st))" if "failed r' = None" for r' cmd t
    unfolding killDaemon_def
    by (rule reasonable_ask_bind [OF free(3)]) (intro reasonable_rules kill that)
  have unmount: "may_call b (insert x F) (UnmountFuse (vs_Target st))" for x
    by (rule may_call_dead [OF insertI2 [OF assms(1)] assms(2)])
  show ?thesis
    unfolding startDaemon_def
    by (intro reasonable_try [OF repairs_daemonCommand] reasonable_try [OF reasonable_must]
        reasonable_finally reasonable_must_try [OF start] reasonable_rules killed unmount free)
qed

subsection \<open>The pass\<close>

lemma repairs_remountUnion:
  assumes "(ProbeMount (vs_Target st), Probed (Dead, e)) \<in> F" and "e \<noteq> Some ErrHung"
  shows "repairs b F (remountUnion b st)"
proof -
  have free: "may_call b G (ForgetProbe x)" for G x by (simp add: allowed_call_def)
  have stop: "may_call b (insert (UnmountFuse (vs_Target st), u) F) (StopScope v)" if "failed u = None" for u v
    using assms that unfolding allowed_call_def by (auto simp: seen_dead_def succeeded_def)
  have start: "repairs b (insert (StopScope (vs_VolumeID st), v) (insert (UnmountFuse (vs_Target st), u) F))
      (startDaemon b st)" if "failed u = None" "failed v = None" for u v
    by (rule repairs_startDaemon [where e = e and u = u and v = v]) (use assms that in simp_all)
  show ?thesis
    unfolding remountUnion_def
    by (intro reasonable_logged reasonable_must_try [OF may_call_dead [OF assms]] reasonable_bind
        reasonable_ignore free reasonable_must_try [OF stop] start)
qed

lemma Probed_as_probe: "as_probe r = (s, e) \<Longrightarrow> s \<noteq> OtherState \<Longrightarrow> (c, Probed (s, e)) \<in> insert (c, r) F"
  using as_probe_iff by simp

lemma repairs_rebindShared:
  assumes "(ProbeMount (vs_Target st), Probed (Dead, e)) \<in> F" and "e \<noteq> Some ErrHung"
  shows "repairs b F (rebindShared b st)"
proof -
  let ?src = "SharedFrom st" and ?t = "vs_Target st"
  let ?rebind = "logged (try_do (must b (UnmountFuse ?t) External) (\<lambda>_.
         do { _ \<leftarrow> ignore b (ForgetProbe ?t); must b (BindFuse ?src ?t (vs_ReadOnly st)) External }))"
  have free: "may_call b G (ForgetProbe x)" "may_call b G (ProbeMount x)" "may_call b G (StatfsReadOnly x)" for G x
    by (simp_all add: allowed_call_def)
  have go: "repairs b G ?rebind"
    if G: "(ProbeMount ?t, Probed (Dead, e)) \<in> G" "(ProbeMount ?src, Probed (Live, None)) \<in> G"
      "sealControl b \<Longrightarrow> (StatfsReadOnly (filepath_Join [?src, controlFile]), Answer True) \<in> G" for G
  proof -
    have "may_call b (insert (UnmountFuse ?t, u) G) (BindFuse ?src ?t ro)" if "failed u = None" for u ro
      using assms(2) G that unfolding allowed_call_def
      by (auto simp: seen_dead_def seen_live_def succeeded_def)
    then show ?thesis
      by (intro reasonable_logged reasonable_must_try [OF may_call_dead [OF G(1) assms(2)]]
          reasonable_bind reasonable_ignore reasonable_must free)
  qed
  have "rebindShared b st =
      State_Monad.bind (ask b (ProbeMount ?src)) (\<lambda>r.
        if fst (as_probe r) = Live \<and> snd (as_probe r) = None then
          (if \<not> sealControl b then ?rebind
           else State_Monad.bind (ask b (StatfsReadOnly (filepath_Join [?src, controlFile])))
             (\<lambda>a. if a \<noteq> Answer True then State_Monad.return () else ?rebind))
        else State_Monad.return ())"
    by (auto simp: rebindShared_def serving_def sealed_def probe_def intro!: arg_cong [where f = "State_Monad.bind _"])
  moreover have "Probed (Live, None) = r" if "fst (as_probe r) = Live \<and> snd (as_probe r) = None" for r
    using that by (intro as_probe_live) simp
  ultimately show ?thesis
    using assms(1)
    by (auto intro!: reasonable_ask_bind reasonable_if reasonable_return go free)
qed

lemma repairs_removeState:
  assumes "(ProbeMount t, Probed (Gone, e)) \<in> F" and "e \<noteq> Some ErrHung"
  shows "repairs b F (removeState b v)"
proof -
  have "may_call b F (RemoveStateFile v)"
    using assms unfolding allowed_call_def by auto
  then show ?thesis
    unfolding removeState_def by (intro reasonable_rules) (simp_all add: allowed_call_def)
qed

lemma repairs_reconcile: "repairs b F (reconcile b v)"
proof -
  have free: "may_call b G (LoadState x)" "may_call b G (ProbeMount y)" for G x y
    by (simp_all add: allowed_call_def)
  have act: "repairs b (insert (ProbeMount (vs_Target st), r) G)
      (repair_action b v st (as_probe r))" for st r G
  proof (cases "snd (as_probe r) = Some ErrHung")
    case False
    have p: "(ProbeMount (vs_Target st), Probed (fst (as_probe r), snd (as_probe r))) \<in>
        insert (ProbeMount (vs_Target st), r) G" if "fst (as_probe r) \<noteq> OtherState"
      using Probed_as_probe [of r "fst (as_probe r)" "snd (as_probe r)"] that by simp
    show ?thesis
      using False p repairs_removeState [of "vs_Target st" "snd (as_probe r)"]
        repairs_rebindShared [of st "snd (as_probe r)"] repairs_remountUnion [of st "snd (as_probe r)"]
      by (cases "fst (as_probe r)") (simp_all add: reasonable_rules)
  qed (simp add: reasonable_rules)
  have "repairs b (insert (LoadState v, r) F)
      (case r of Loaded st \<Rightarrow> State_Monad.bind (ask b (ProbeMount (vs_Target st))) (\<lambda>r. repair_action b v st (as_probe r))
       | _ \<Rightarrow> State_Monad.return ())" for r
    by (cases r) (simp_all add: reasonable_return reasonable_ask_bind [OF free(2) act])
  then show ?thesis
    unfolding reconcile_def run_probe_bind by (intro reasonable_ask_bind [OF free(1)])
qed

text \<open>C6: Every disruptive call of a repair pass has its reason in what the same pass has seen: a
  mount is taken down, its scope stopped and its daemon started again, in this order, only after its
  probe answered that it is dead, never while it serves or merely does not answer; a view is bound
  again only to a union that serves with its control file sealed; the state of a volume is removed
  only when its target is gone; a branch is replaced only while it is live on the host; a daemon is
  killed only if this pass started it; and no state file is written.\<close>

theorem reconcile_has_reasons:
  "\<exists>new. elog (snd (run_state (reconcile b volume) n)) = elog n @ new \<and>
     reasoned (repair_reason b) [] new"
proof -
  have "hoare (traced (repair_reason b) (elog n) {}) (reconcile b volume)
      (\<lambda>_. traced (repair_reason b) (elog n) {})"
    using repairs_reconcile [of b "{}" volume] by (simp add: reasonable_def)
  moreover have "traced (repair_reason b) (elog n) {} n" by (simp add: traced_def)
  ultimately have "traced (repair_reason b) (elog n) {} (snd (run_state (reconcile b volume) n))"
    by (rule hoare_run)
  then show ?thesis by (auto simp: traced_def)
qed

section \<open>A branch is replaced after three bad passes\<close>

lemma hit_lookup: "map_of c (v, b) = map_of c' (v, b) \<Longrightarrow> fst (hit c v b p) = fst (hit c' v b p)"
  by (simp add: hit_def Let_def stale_lookup_def)

text \<open>The replacements a log holds.\<close>

definition replaced_only :: "ext_log \<Rightarrow> (string \<Rightarrow> string \<Rightarrow> string \<Rightarrow> bool \<Rightarrow> bool) \<Rightarrow> bool" where
  "replaced_only log P \<longleftrightarrow> (\<forall>v h s ro r. (ReplaceIn v h s ro, r) \<in> set log \<longrightarrow> P v h s ro)"

lemma replaced_only_simps [simp]:
  "replaced_only [] P"
  "replaced_only (xs @ ys) P \<longleftrightarrow> replaced_only xs P \<and> replaced_only ys P"
  unfolding replaced_only_def set_append Un_iff by (simp, blast)

lemma replaced_onlyD: "replaced_only log P \<Longrightarrow> (ReplaceIn v h s ro, r) \<in> set log \<Longrightarrow> P v h s ro"
  unfolding replaced_only_def by blast

lemma replaced_only_mono: "replaced_only log P \<Longrightarrow> (\<And>v h s ro. P v h s ro \<Longrightarrow> Q v h s ro) \<Longrightarrow> replaced_only log Q"
  by (auto simp: replaced_only_def)

lemma run_update_stale [simp]:
  "run_state (update_stale f) n = (fst (f (stale n)), n\<lparr>stale := snd (f (stale n))\<rparr>)"
  by (simp add: update_stale_def split: prod.split)

lemma repair_branch_effect:
  "\<exists>new. elog (snd (run_state (repair_branch b v pid mounts br) n)) = elog n @ new \<and>
     replaced_only new (\<lambda>v' h s ro. v' = v \<and> h = Host br \<and> s = Sandbox br \<and> ro = bind_ReadOnly br \<and>
       staleThreshold \<le> fst (hit (stale n) v (Sandbox br) pid)) \<and>
     (\<forall>k. k \<noteq> (v, Sandbox br) \<longrightarrow>
        map_of (stale (snd (run_state (repair_branch b v pid mounts br) n))) k = map_of (stale n) k)"
  by (auto simp: repair_branch_def Let_def probe_def ignore_def replaced_only_def lookup_clear lookup_hit
      split: option.split)

lemma repair_loop_effect:
  "distinct (map Sandbox brs) \<Longrightarrow>
     \<exists>new. elog (snd (run_state (repair_loop b v pid mounts brs) n)) = elog n @ new \<and>
       replaced_only new (\<lambda>v' h s ro. v' = v \<and> (\<exists>br \<in> set brs. h = Host br \<and> s = Sandbox br \<and>
         ro = bind_ReadOnly br) \<and> staleThreshold \<le> fst (hit (stale n) v s pid))"
proof (induction brs arbitrary: n)
  case (Cons br brs)
  let ?n1 = "snd (run_state (repair_branch b v pid mounts br) n)"
  obtain new1 where 1: "elog ?n1 = elog n @ new1"
    "replaced_only new1 (\<lambda>v' h s ro. v' = v \<and> h = Host br \<and> s = Sandbox br \<and> ro = bind_ReadOnly br \<and>
       staleThreshold \<le> fst (hit (stale n) v (Sandbox br) pid))"
    "\<forall>k. k \<noteq> (v, Sandbox br) \<longrightarrow> map_of (stale ?n1) k = map_of (stale n) k"
    using repair_branch_effect [of b v pid mounts br n] by blast
  obtain new2 where 2: "elog (snd (run_state (repair_loop b v pid mounts brs) ?n1)) = elog ?n1 @ new2"
    "replaced_only new2 (\<lambda>v' h s ro. v' = v \<and> (\<exists>br \<in> set brs. h = Host br \<and> s = Sandbox br \<and>
       ro = bind_ReadOnly br) \<and> staleThreshold \<le> fst (hit (stale ?n1) v s pid))"
    using Cons.IH [of ?n1] Cons.prems by auto
  have same: "fst (hit (stale ?n1) v s pid) = fst (hit (stale n) v s pid)" if "s \<in> Sandbox ` set brs" for s
  proof (rule hit_lookup)
    have "(v, s) \<noteq> (v, Sandbox br)" using that Cons.prems by (metis (no_types) Pair_inject distinct.simps(2) list.simps(9) set_map)
    then show "map_of (stale ?n1) (v, s) = map_of (stale n) (v, s)" using 1(3) by blast
  qed
  have "replaced_only (new1 @ new2) (\<lambda>v' h s ro. v' = v \<and> (\<exists>br' \<in> set (br # brs). h = Host br' \<and>
      s = Sandbox br' \<and> ro = bind_ReadOnly br') \<and> staleThreshold \<le> fst (hit (stale n) v s pid))"
  proof -
    let ?P = "\<lambda>v' h s ro. v' = v \<and> (\<exists>br' \<in> set (br # brs). h = Host br' \<and>
      s = Sandbox br' \<and> ro = bind_ReadOnly br') \<and> staleThreshold \<le> fst (hit (stale n) v s pid)"
    have "replaced_only new1 ?P" by (rule replaced_only_mono [OF 1(2)]) auto
    moreover have "replaced_only new2 ?P" by (rule replaced_only_mono [OF 2(2)]) (use same in auto)
    ultimately show ?thesis by simp
  qed
  moreover have "elog (snd (run_state (repair_loop b v pid mounts (br # brs)) n)) = elog n @ new1 @ new2"
    using 1(1) 2(1) by (simp add: case_prod_beta)
  ultimately show ?case by blast
qed simp

lemma bind_eta: "\<lparr>Host = Host br, Sandbox = Sandbox br, bind_ReadOnly = bind_ReadOnly br\<rparr> = br"
  by simp


text \<open>A daemon whose branch is dead inside while the host serves it.\<close>

definition stuck_branch :: bind where
  "stuck_branch = \<lparr>Host = ''/data'', Sandbox = ''/mnt/a'', bind_ReadOnly = True\<rparr>"

definition stuck_volume :: volumeState where
  "stuck_volume = blank_state\<lparr>vs_VolumeID := ''vol'', vs_Target := ''/target'', Branches := [stuck_branch]\<rparr>"

definition stuck_world :: outside where
  "stuck_world log c =
     (case c of
        DaemonPID _ \<Rightarrow> Number 7
      | ReadMountinfo _ \<Rightarrow> Failed DoesNotExist
      | ProbeMount t \<Rightarrow> Probed (if t = ''/data'' then Live else Dead, None)
      | _ \<Rightarrow> Done)"

definition stuck_backend :: mergerfsBackend where
  "stuck_backend = \<lparr>outside = stuck_world, useSandbox = True, sealControl = True, stateDir = ''/state''\<rparr>"

definition third_pass :: mnode where
  "third_pass = \<lparr>elog = [], stale = counter_after [Hit ''vol'' ''/mnt/a'' 7, Hit ''vol'' ''/mnt/a'' 7]\<rparr>"


section \<open>The order of a pass\<close>

lemma sorted_const: "(\<And>x. x \<in> set ys \<Longrightarrow> f x = c) \<Longrightarrow> sorted (map f ys)"
  by (induction ys) auto

lemma sort_key_bool:
  "sort_key P xs = filter (\<lambda>x. \<not> P x) xs @ filter P xs"
proof (rule properties_for_sort_key)
  show "mset (filter (\<lambda>x. \<not> P x) xs @ filter P xs) = mset xs"
    by (induction xs) auto
  show "filter (\<lambda>x. P k = P x) (filter (\<lambda>x. \<not> P x) xs @ filter P xs) = filter (\<lambda>x. P k = P x) xs" for k
    by (cases "P k") (simp_all add: conj_commute cong: conj_cong)
  show "sorted (map P (filter (\<lambda>x. \<not> P x) xs @ filter P xs))"
    using sorted_const [of "filter (\<lambda>x. \<not> P x) xs" P False] sorted_const [of "filter P xs" P True]
    by (auto simp: sorted_append)
qed

text \<open>A pass visits each volume with a state file once for each file, unions before the views
  shared from them and otherwise in the order the state files were read, and forgets the counters of
  exactly the other volumes.\<close>

theorem ids_order:
  assumes "outside b (elog n) LoadAllStates = LoadedAll states errs"
  shows "run_state (ids b) n =
    ((map vs_VolumeID (filter (\<lambda>st. SharedFrom st = []) states @ filter (\<lambda>st. SharedFrom st \<noteq> []) states), errs),
     n\<lparr>elog := elog n @ [(LoadAllStates, LoadedAll states errs)],
       stale := filter (\<lambda>((v, br), r). v \<in> vs_VolumeID ` set states) (stale n)\<rparr>)"
proof -
  have "set (map vs_VolumeID (sort_key (\<lambda>st. SharedFrom st \<noteq> []) states)) = vs_VolumeID ` set states"
    by simp
  then have "retain c (map vs_VolumeID (sort_key (\<lambda>st. SharedFrom st \<noteq> []) states)) =
      filter (\<lambda>((v, br), r). v \<in> vs_VolumeID ` set states) c" for c
    by (simp only: retain_def)
  then show ?thesis
    using assms sort_key_bool [of "\<lambda>st. SharedFrom st \<noteq> []" states]
    by (simp add: ids_def Let_def)
qed

end
