(* ===== verification/MergerfsLifecycle.thy ===== *)
theory MergerfsLifecycle
  imports MergerfsSafety
begin

text \<open>
  The life of a mergerfs mount: a mount is up with its state on disk or unwound, a shared view only
  follows a serving union, and all that an operation of the backend does, it does under the lock of
  the volume.
\<close>

section \<open>The lock of a volume\<close>

fun locking :: "ext \<Rightarrow> bool" where
  "locking (LockVolume v) = True"
| "locking (UnlockVolume v) = True"
| "locking c = False"

abbreviation lock_free :: "(mnode, 'a) state \<Rightarrow> bool" where
  "lock_free \<equiv> reasonable (\<lambda>log c. \<not> locking c) {}"

lemma may_work [reasonable_rules]: "\<not> locking c \<Longrightarrow> allowed_call (\<lambda>log c. \<not> locking c) F c"
  by (simp add: allowed_call_def)

lemma reasoned_lock_free: "reasoned (\<lambda>log c. \<not> locking c) before log \<longleftrightarrow> (\<forall>(c, r) \<in> set log. \<not> locking c)"
  by (induction log arbitrary: before) auto

lemma lock_free_daemonCommand [reasonable_rules]: "lock_free (daemonCommand b st)"
  unfolding daemonCommand_def by (intro reasonable_rules) simp_all

lemma lock_free_startDaemon [reasonable_rules]: "lock_free (startDaemon b st)"
  unfolding startDaemon_def sealControlFile_def killDaemon_def Let_def
  by (intro reasonable_rules) simp_all

lemma lock_free_removeState [reasonable_rules]: "lock_free (removeState b v)"
  unfolding removeState_def by (intro reasonable_rules) simp_all

lemma lock_free_operations:
  "lock_free (mergerfs_mountUnion b spec)"
  "lock_free (shareUnion b v s t ro)"
  "lock_free (mergerfs_unmountUnion b v t)"
  unfolding mergerfs_mountUnion_def shareUnion_def mergerfs_unmountUnion_def Let_def
  by (auto intro!: reasonable_rules split: prod.split)

text \<open>The calls of a program are made between a lock and an unlock of the volume, and nothing in
  between touches a lock.\<close>

definition bracketed :: "string \<Rightarrow> mnode \<Rightarrow> (mnode, 'a) state \<Rightarrow> bool" where
  "bracketed v n m \<longleftrightarrow>
     (\<exists>r mid r'. elog (snd (run_state m n)) = elog n @ [(LockVolume v, r)] @ mid @ [(UnlockVolume v, r')] \<and>
        (\<forall>(c, x) \<in> set mid. \<not> locking c))"

lemma lock_free_log:
  assumes "lock_free m"
  shows "\<exists>mid. elog (snd (run_state m n)) = elog n @ mid \<and> (\<forall>(c, x) \<in> set mid. \<not> locking c)"
proof -
  have "hoare (traced (\<lambda>log c. \<not> locking c) (elog n) {}) m (\<lambda>_. traced (\<lambda>log c. \<not> locking c) (elog n) {})"
    using assms by (simp add: reasonable_def)
  moreover have "traced (\<lambda>log c. \<not> locking c) (elog n) {} n" by (simp add: traced_def)
  ultimately have "traced (\<lambda>log c. \<not> locking c) (elog n) {} (snd (run_state m n))" by (rule hoare_run)
  then show ?thesis by (auto simp: traced_def reasoned_lock_free)
qed

lemma bracketed_with_lock:
  assumes "lock_free m"
  shows "bracketed v n (with_lock b v m)"
proof -
  let ?n1 = "snd (run_state (ignore b (LockVolume v)) n)"
  obtain mid where "elog (snd (run_state m ?n1)) = elog ?n1 @ mid" "\<forall>(c, x) \<in> set mid. \<not> locking c"
    using lock_free_log [OF assms] by blast
  then show ?thesis
    by (auto simp: bracketed_def with_lock_def ignore_def case_prod_beta)
qed

text \<open>Mounting, sharing and unmounting do all they do while they hold the lock of the volume, taken
  first and released last on every path, errors included, and never take another.\<close>

theorem operations_hold_lock:
  "bracketed (VolumeID spec) n (Mount (mergerfs_backend b) spec) \<and>
   bracketed v n (Share (mergerfs_backend b) v source target ro) \<and>
   bracketed v n (Unmount (mergerfs_backend b) v target)"
  by (simp add: mergerfs_backend_def bracketed_with_lock lock_free_operations)

section \<open>Mounts that are up or unwound\<close>

text \<open>Looking for the command of a daemon changes nothing.\<close>

fun preparing :: "ext \<Rightarrow> bool" where
  "preparing (LookPath f) = True"
| "preparing (EvalSymlinks f) = True"
| "preparing (SandboxCommand t u bs cmd) = True"
| "preparing c = False"

definition worked :: "ext_log \<Rightarrow> bool" where
  "worked log \<longleftrightarrow> (\<forall>(c, r) \<in> set log. failed r = None)"

lemma worked_simps [simp]:
  "worked []" "worked ((c, r) # log) \<longleftrightarrow> failed r = None \<and> worked log"
  "worked (xs @ ys) \<longleftrightarrow> worked xs \<and> worked ys"
  by (auto simp: worked_def)

lemma daemonCommand_log:
  "\<exists>q. elog (snd (run_state (daemonCommand b st) n)) = elog n @ q \<and>
     stale (snd (run_state (daemonCommand b st) n)) = stale n \<and> (\<forall>(c, r) \<in> set q. preparing c)"
  by (simp add: daemonCommand_def split: reply.split)

text \<open>The calls that bring a daemon up, and those that take one down again.\<close>

definition start_calls :: "mergerfsBackend \<Rightarrow> volumeState \<Rightarrow> string list \<Rightarrow> ext list" where
  "start_calls b st cmd =
     [OpenLog (daemonLog (stateDir b) (vs_VolumeID st)), StartDaemon (vs_VolumeID st) cmd (vs_Target st)] @
     (if sealControl b
      then [SealBind (filepath_Join [vs_Target st, controlFile]), SealRemount (filepath_Join [vs_Target st, controlFile])]
      else [])"

definition torn_down :: "volumeState \<Rightarrow> ext_log \<Rightarrow> bool" where
  "torn_down st log \<longleftrightarrow>
     (\<forall>cmd. succeeded log (StartDaemon (vs_VolumeID st) cmd (vs_Target st)) \<longrightarrow>
        (\<exists>r. (UnmountFuse (vs_Target st), r) \<in> set log) \<and>
        ((DaemonExited (vs_VolumeID st), Answer True) \<in> set log \<or> (\<exists>r. (KillGroup (vs_VolumeID st), r) \<in> set log)))"

fun keeps_states :: "ext \<Rightarrow> bool" where
  "keeps_states (SaveState v st) = False"
| "keeps_states (RemoveStateFile v) = False"
| "keeps_states c = True"

lemma preparing_keeps: "preparing c \<Longrightarrow> keeps_states c"
  by (cases c) simp_all

lemma run_must:
  "run_state (must b c w) n =
     ((case failed (outside b (elog n) c) of Some e \<Rightarrow> Inl (w e) | None \<Rightarrow> Inr ()),
      n\<lparr>elog := elog n @ [(c, outside b (elog n) c)]\<rparr>)"
  by (simp add: must_def split: option.split)

lemma run_ignore: "run_state (ignore b c) n = ((), n\<lparr>elog := elog n @ [(c, outside b (elog n) c)]\<rparr>)"
  by (simp add: ignore_def)

definition up_or_down :: "mergerfsBackend \<Rightarrow> volumeState \<Rightarrow> (mergerfs_error + unit) \<Rightarrow> ext_log \<Rightarrow> bool" where
  "up_or_down b st r new \<longleftrightarrow>
     (case r of
        Inr _ \<Rightarrow>
          (\<exists>cmd. map fst new = start_calls b st cmd @ [CloseLog (daemonLog (stateDir b) (vs_VolumeID st))]) \<and>
          worked (butlast new)
      | Inl _ \<Rightarrow> (\<forall>(c, x) \<in> set new. keeps_states c) \<and> torn_down st new)"

definition since :: "mnode \<Rightarrow> mnode \<Rightarrow> ext_log" where
  "since n n' = drop (length (elog n)) (elog n')"

definition start_command :: "mergerfsBackend \<Rightarrow> volumeState \<Rightarrow> string list \<Rightarrow> unit mop" where
  "start_command b st cmd =
     try_do (must b (OpenLog (daemonLog (stateDir b) (vs_VolumeID st))) External) (\<lambda>_.
       finally_do
         (try_do (must b (StartDaemon (vs_VolumeID st) cmd (vs_Target st)) External) (\<lambda>_.
            if \<not> sealControl b then ok ()
            else do {
              r \<leftarrow> sealControlFile b (vs_Target st);
              case r of
                Inr _ \<Rightarrow> ok ()
              | Inl e \<Rightarrow> do {
                  _ \<leftarrow> ignore b (UnmountFuse (vs_Target st));
                  _ \<leftarrow> killDaemon b (vs_VolumeID st);
                  fail e } }))
         (ignore b (CloseLog (daemonLog (stateDir b) (vs_VolumeID st)))))"

lemma startDaemon_split: "startDaemon b st = try_do (daemonCommand b st) (start_command b st)"
  by (simp add: startDaemon_def start_command_def [abs_def])

lemma start_command_log:
  "(let m = run_state (start_command b st cmd) n in
    elog (snd m) = elog n @ since n (snd m) \<and> stale (snd m) = stale n \<and>
    up_or_down b st (fst m) (since n (snd m)))"
  by (cases "failed (outside b (elog n) (OpenLog (daemonLog (stateDir b) (vs_VolumeID st))))")
    (simp_all add: start_command_def sealControlFile_def Let_def killDaemon_def run_must run_ignore since_def
        up_or_down_def torn_down_def succeeded_def start_calls_def
        split: option.split)

lemma startDaemon_log:
  "\<exists>q new. elog (snd (run_state (startDaemon b st) n)) = elog n @ q @ new \<and>
     stale (snd (run_state (startDaemon b st) n)) = stale n \<and> (\<forall>(c, r) \<in> set q. preparing c) \<and>
     up_or_down b st (fst (run_state (startDaemon b st) n)) new"
proof -
  obtain r n1 where 1: "run_state (daemonCommand b st) n = (r, n1)" by fastforce
  then obtain q where q: "elog n1 = elog n @ q" "stale n1 = stale n" "\<forall>(c, r) \<in> set q. preparing c"
    using daemonCommand_log [of b st n] by auto
  show ?thesis
  proof (cases r)
    case (Inl e)
    then show ?thesis using 1 q
      by (intro exI [of _ q] exI [of _ "[]"])
        (simp add: startDaemon_split up_or_down_def torn_down_def succeeded_def)
  next
    case (Inr cmd)
    then have "run_state (startDaemon b st) n = run_state (start_command b st cmd) n1"
      by (simp add: startDaemon_split 1)
    then show ?thesis using q start_command_log [of b st cmd n1] by (auto simp: Let_def)
  qed
qed

lemma quiet_filter: "\<forall>(c, r) \<in> set q. preparing c \<Longrightarrow> filter (\<lambda>c. \<not> preparing c) (map fst q) = []"
  by (auto simp: filter_empty_conv)

lemma start_calls_active:
  "filter (\<lambda>c. \<not> preparing c) (start_calls b st cmd) = start_calls b st cmd"
  by (simp add: start_calls_def)

text \<open>The state a mount keeps.\<close>

definition recorded :: "mergerfsBackend \<Rightarrow> mount_spec \<Rightarrow> volumeState \<Rightarrow> bool" where
  "recorded b spec st \<longleftrightarrow>
     vs_VolumeID st = VolumeID spec \<and> vs_Target st = Target spec \<and> SharedFrom st = [] \<and>
     (let (spec', branches) = (if useSandbox b then sandboxed spec else (spec, []))
      in Branches st = branches \<and> buildArgv spec' = Inr (Argv st))"

definition up_or_unwound :: "mergerfsBackend \<Rightarrow> mount_spec \<Rightarrow> (mergerfs_error + unit) \<Rightarrow> ext_log \<Rightarrow> bool" where
  "up_or_unwound b spec result new \<longleftrightarrow>
     (case result of
        Inr _ \<Rightarrow> \<exists>st cmd. recorded b spec st \<and>
          filter (\<lambda>c. \<not> preparing c) (map fst new) =
            [SaveState (VolumeID spec) st] @ start_calls b st cmd @
            [CloseLog (daemonLog (stateDir b) (VolumeID spec))] \<and>
          worked (filter (\<lambda>(c, r). \<not> preparing c) (butlast new))
      | Inl _ \<Rightarrow>
          (\<forall>(c, r) \<in> set new. \<forall>v cmd t. c \<noteq> StartDaemon v cmd t) \<and> (\<forall>v st. \<not> succeeded new (SaveState v st)) \<or>
          (\<exists>st. recorded b spec st \<and> succeeded new (SaveState (VolumeID spec) st) \<and>
             fst (last new) = RemoveStateFile (VolumeID spec) \<and> torn_down st new))"

lemma up_log:
  assumes "recorded b spec st" and "failed x = None" and "\<forall>(c, r) \<in> set q. preparing c"
    and "up_or_down b st (Inr u) new"
  shows "up_or_unwound b spec (Inr u) ((SaveState (VolumeID spec) st, x) # q @ new)"
proof -
  let ?log = "(SaveState (VolumeID spec) st, x) # q @ new"
  have v: "vs_VolumeID st = VolumeID spec" using assms(1) by (simp add: recorded_def)
  obtain cmd where calls: "map fst new = start_calls b st cmd @ [CloseLog (daemonLog (stateDir b) (VolumeID spec))]"
    and w: "worked (butlast new)"
    using assms(4) by (auto simp: up_or_down_def v)
  have "filter (\<lambda>c. \<not> preparing c) (map fst ?log) =
      [SaveState (VolumeID spec) st] @ start_calls b st cmd @ [CloseLog (daemonLog (stateDir b) (VolumeID spec))]"
    using calls assms(3) by (simp add: quiet_filter start_calls_active)
  moreover have "worked (filter (\<lambda>(c, r). \<not> preparing c) (butlast ?log))"
    using calls assms(2,3) w by (auto simp: butlast_append worked_def)
  ultimately show ?thesis
    using assms(1) unfolding up_or_unwound_def by (simp only: sum.case) blast
qed

lemma removeState_log:
  "\<exists>fin. elog (snd (run_state (removeState b v) n)) = elog n @ fin \<and> fst (last fin) = RemoveStateFile v \<and>
     fin \<noteq> [] \<and> (\<forall>(c, r) \<in> set fin. \<forall>u cmd t. c \<noteq> StartDaemon u cmd t) \<and>
     stale (snd (run_state (removeState b v) n)) = stale n"
  by (simp add: removeState_def run_must run_ignore)

lemma unwound_log:
  assumes "recorded b spec st" and "failed x = None" and "\<forall>(c, r) \<in> set q. preparing c"
    and "up_or_down b st (Inl e) new" and "fst (last fin) = RemoveStateFile (VolumeID spec)" and "fin \<noteq> []"
    and "\<forall>(c, r) \<in> set fin. \<forall>u cmd t. c \<noteq> StartDaemon u cmd t"
  shows "up_or_unwound b spec (Inl e) ((SaveState (VolumeID spec) st, x) # q @ new @ fin)"
proof -
  let ?log = "(SaveState (VolumeID spec) st, x) # q @ new @ fin"
  have "torn_down st new" using assms(4) by (simp add: up_or_down_def)
  then have "torn_down st ?log"
    using assms(3,7) by (fastforce simp: torn_down_def succeeded_def)
  moreover have "succeeded ?log (SaveState (VolumeID spec) st)"
    using assms(2) by (auto simp: succeeded_def)
  ultimately show ?thesis
    using assms(1,5,6) unfolding up_or_unwound_def
    by (simp only: sum.case) (intro disjI2 exI [of _ st], simp)
qed

definition start_or_remove :: "mergerfsBackend \<Rightarrow> mount_spec \<Rightarrow> volumeState \<Rightarrow> unit mop" where
  "start_or_remove b spec st =
     do { r \<leftarrow> startDaemon b st;
          case r of
            Inr _ \<Rightarrow> ok ()
          | Inl e \<Rightarrow> do { _ \<leftarrow> removeState b (VolumeID spec); fail e } }"

lemma start_or_remove_log:
  fixes n :: mnode
  assumes "recorded b spec st" and "failed x = None"
    and "elog n1 = elog n @ [(SaveState (VolumeID spec) st, x)]" and "stale n1 = stale n"
  shows "\<exists>new. elog (snd (run_state (start_or_remove b spec st) n1)) = elog n @ new \<and>
     stale (snd (run_state (start_or_remove b spec st) n1)) = stale n \<and>
     up_or_unwound b spec (fst (run_state (start_or_remove b spec st) n1)) new"
proof -
  obtain r n2 where r: "run_state (startDaemon b st) n1 = (r, n2)" by fastforce
  obtain q new where sd: "elog n2 = elog n1 @ q @ new" "stale n2 = stale n1"
    "\<forall>(c, r) \<in> set q. preparing c" "up_or_down b st r new"
    using startDaemon_log [of b st n1] by (auto simp: r)
  show ?thesis
  proof (cases r)
    case (Inr u)
    have "up_or_unwound b spec (Inr u) ((SaveState (VolumeID spec) st, x) # q @ new)"
      using sd(4) Inr by (intro up_log assms(1,2) sd(3)) simp
    then show ?thesis using sd(1,2) assms(3,4) by (simp add: start_or_remove_def r Inr)
  next
    case (Inl e)
    obtain fin where fin: "elog (snd (run_state (removeState b (VolumeID spec)) n2)) = elog n2 @ fin"
      "fst (last fin) = RemoveStateFile (VolumeID spec)" "fin \<noteq> []"
      "\<forall>(c, r) \<in> set fin. \<forall>u cmd t. c \<noteq> StartDaemon u cmd t"
      "stale (snd (run_state (removeState b (VolumeID spec)) n2)) = stale n2"
      using removeState_log by blast
    have "up_or_unwound b spec (Inl e) ((SaveState (VolumeID spec) st, x) # q @ new @ fin)"
      using sd(4) Inl by (intro unwound_log assms(1,2) sd(3) fin) simp
    then show ?thesis using sd(1,2) fin(1,5) assms(3,4) by (simp add: start_or_remove_def r Inl case_prod_beta)
  qed
qed

text \<open>C8: A mergerfs mount is up or unwound. When it succeeds, it made these calls and no others that
  change something, in this order and all of them successful: it saved the state of the volume, which
  names the target, the branches and the command line; it started the daemon on the target; and it
  sealed the control file, unless that is switched off. When it fails after the state was saved, the
  state file is removed again in the last call, and a daemon that was already up was unmounted and had
  exited or was killed. When it fails before, no daemon was started.\<close>

theorem mount_up_or_unwound:
  "\<exists>new. elog (snd (run_state (mergerfs_mountUnion b spec) n)) = elog n @ new \<and>
     stale (snd (run_state (mergerfs_mountUnion b spec) n)) = stale n \<and>
     up_or_unwound b spec (fst (run_state (mergerfs_mountUnion b spec) n)) new"
proof -
  let ?v = "VolumeID spec"
  obtain spec' branches where sb: "(if useSandbox b then sandboxed spec else (spec, [])) = (spec', branches)"
    by fastforce
  then have v: "VolumeID spec' = ?v" by (auto simp: sandboxed_def Let_def split: if_splits)
  show ?thesis
  proof (cases "buildArgv spec'")
    case (Inl e)
    then show ?thesis by (simp add: mergerfs_mountUnion_def sb up_or_unwound_def succeeded_def)
  next
    case (Inr argv)
    define st where "st = blank_state\<lparr>vs_VolumeID := ?v, vs_Target := Target spec, Argv := argv, Branches := branches\<rparr>"
    have rec: "recorded b spec st" using sb Inr by (simp add: recorded_def st_def blank_state_def)
    let ?x = "outside b (elog n) (SaveState ?v st)"
    have run: "mergerfs_mountUnion b spec = try_do (must b (SaveState ?v st) External) (\<lambda>_. start_or_remove b spec st)"
      by (simp only: mergerfs_mountUnion_def sb Inr v st_def start_or_remove_def Let_def prod.case sum.case)
    show ?thesis
    proof (cases "failed ?x")
      case (Some e)
      then show ?thesis by (simp add: run run_must up_or_unwound_def succeeded_def)
    next
      case None
      then show ?thesis
        using start_or_remove_log [OF rec None, of "n\<lparr>elog := elog n @ [(SaveState ?v st, ?x)]\<rparr>" n]
        by (simp add: run run_must)
    qed
  qed
qed

end
