(* ===== verification/MergerfsProgress.thy ===== *)
theory MergerfsProgress
  imports MergerfsLifecycle
begin

text \<open>
  What the mergerfs backend leaves behind when it dies in the middle of an operation, and that its
  repair pass gets somewhere: a dead mount is brought back, and a branch that is stuck in the daemon
  is replaced within three passes.
\<close>

section \<open>A crash at any moment\<close>

text \<open>The reason of every call of a mount, a share or an unmount, in what the operation did before.
  \<open>goal\<close> is the target an unmount is asked to take down, and \<open>None\<close> for a mount and a share.\<close>

fun operation_reason :: "string option \<Rightarrow> ext_log \<Rightarrow> ext \<Rightarrow> bool" where
  "operation_reason goal log (StartDaemon v cmd t) =
     (\<exists>st. succeeded log (SaveState v st) \<and> vs_VolumeID st = v \<and> vs_Target st = t)"
| "operation_reason goal log (BindFuse s t ro) =
     (succeeded log (WaitServing s) \<and>
      (\<exists>v st. succeeded log (SaveState v st) \<and> vs_VolumeID st = v \<and> vs_Target st = t \<and> SharedFrom st = s \<and>
         vs_ReadOnly st = ro))"
| "operation_reason goal log (SealBind c) =
     (\<exists>v cmd t. succeeded log (StartDaemon v cmd t) \<and> c = filepath_Join [t, controlFile])"
| "operation_reason goal log (SealRemount c) = succeeded log (SealBind c)"
| "operation_reason goal log (UnmountFuse t) =
     (goal = Some t \<or> (\<exists>v cmd. succeeded log (StartDaemon v cmd t)))"
| "operation_reason goal log (KillGroup v) = (\<exists>cmd t. succeeded log (StartDaemon v cmd t))"
| "operation_reason goal log (StopScope v) = (\<exists>t. goal = Some t \<and> succeeded log (UnmountFuse t))"
| "operation_reason goal log (RemoveStateFile v) =
     (case goal of
        Some t \<Rightarrow> succeeded log (UnmountFuse t)
      | None \<Rightarrow> \<exists>st. succeeded log (SaveState v st) \<and> vs_VolumeID st = v)"
| "operation_reason goal log (ReplaceIn v h s ro) = False"
| "operation_reason goal log c = True"

abbreviation may_do :: "string option \<Rightarrow> (ext \<times> reply) set \<Rightarrow> ext \<Rightarrow> bool" where
  "may_do u \<equiv> allowed_call (operation_reason u)"

abbreviation operates :: "string option \<Rightarrow> (ext \<times> reply) set \<Rightarrow> (mnode, 'a) state \<Rightarrow> bool" where
  "operates u \<equiv> reasonable (operation_reason u)"

lemma may_do_free:
  "may_do u F (LookPath x)" "may_do u F (EvalSymlinks x)" "may_do u F (SandboxCommand x y bs cmd)"
  "may_do u F (OpenLog x)" "may_do u F (CloseLog x)" "may_do u F (DaemonExited x)" "may_do u F (RemoveLog x)"
  "may_do u F (WaitServing x)" "may_do u F (SaveState x st)" "may_do u F (ForgetProbe x)"
  by (simp_all add: allowed_call_def)

lemma operates_daemonCommand [reasonable_rules]: "operates u F (daemonCommand b st)"
  unfolding daemonCommand_def by (intro reasonable_rules may_do_free)

lemma operates_seal:
  assumes "(StartDaemon v cmd t, r) \<in> F" and "failed r = None"
  shows "operates u F (sealControlFile b t)"
proof -
  let ?ctl = "filepath_Join [t, controlFile]"
  have "may_do u F (SealBind ?ctl)"
    using assms unfolding allowed_call_def operation_reason.simps succeeded_def by blast
  moreover have "may_do u (insert (SealBind ?ctl, x) F) (SealRemount ?ctl)" if "failed x = None" for x
    using that unfolding allowed_call_def by (auto simp: succeeded_def)
  ultimately show ?thesis
    unfolding sealControlFile_def Let_def by (intro reasonable_must_try reasonable_must)
qed

lemma operates_startDaemon:
  assumes "(SaveState (vs_VolumeID st) st, r) \<in> F" and "failed r = None"
  shows "operates u F (startDaemon b st)"
proof -
  let ?v = "vs_VolumeID st" and ?t = "vs_Target st"
  have start: "may_do u F (StartDaemon ?v cmd ?t)" for cmd
    using assms unfolding allowed_call_def by (auto simp: succeeded_def)
  have up: "may_do u G (UnmountFuse ?t)" "may_do u G (KillGroup ?v)"
    if "(StartDaemon ?v cmd ?t, x) \<in> G" "failed x = None" for G x cmd
    using that unfolding allowed_call_def by (auto simp: succeeded_def)
  have undo: "operates u (insert (StartDaemon ?v cmd ?t, x) F)
      (do { r \<leftarrow> sealControlFile b ?t;
            case r of
              Inr _ \<Rightarrow> ok ()
            | Inl e \<Rightarrow> do { _ \<leftarrow> ignore b (UnmountFuse ?t); _ \<leftarrow> killDaemon b ?v; fail e } })"
    if "failed x = None" for x cmd
  proof -
    have F: "(StartDaemon ?v cmd ?t, x) \<in> insert y (insert (StartDaemon ?v cmd ?t, x) F)" for y by simp
    have F1: "(StartDaemon ?v cmd ?t, x) \<in> insert (StartDaemon ?v cmd ?t, x) F" by simp
    show ?thesis
      unfolding killDaemon_def
      by (intro reasonable_bind operates_seal [OF F1 that] reasonable_case_sum reasonable_ignore up [OF F1 that]
          reasonable_ask_bind reasonable_if reasonable_rules up [OF F that] may_do_free)
  qed
  show ?thesis
    unfolding startDaemon_def
    by (intro reasonable_try [OF operates_daemonCommand] reasonable_try [OF reasonable_must] reasonable_finally
        reasonable_must_try [OF start] reasonable_if reasonable_ok undo reasonable_ignore may_do_free)
qed

lemma may_remove_saved:
  assumes "vs_VolumeID st = v" and "failed x = None" and "(SaveState v st, x) \<in> F"
  shows "may_do None F (RemoveStateFile v)"
  using assms unfolding allowed_call_def by (auto simp: succeeded_def)

lemma operates_mountUnion: "operates None {} (mergerfs_mountUnion b spec)"
proof -
  have *: "operates None {}
      (try_do (must b (SaveState v st) External) (\<lambda>_.
         do { r \<leftarrow> startDaemon b st;
              case r of Inr _ \<Rightarrow> ok () | Inl e \<Rightarrow> do { _ \<leftarrow> removeState b v; fail e } }))"
    if "vs_VolumeID st = v" for v st
    unfolding removeState_def
    by (intro reasonable_must_try reasonable_bind reasonable_case_sum reasonable_ok reasonable_fail
        reasonable_ignore reasonable_must may_do_free may_remove_saved [OF that]
        operates_startDaemon [where b = b and st = st])
      (auto simp: that)
  obtain spec' branches where sb: "(if useSandbox b then sandboxed spec else (spec, [])) = (spec', branches)"
    by fastforce
  then have v: "VolumeID spec' = VolumeID spec" by (auto simp: sandboxed_def Let_def split: if_splits)
  show ?thesis
    by (cases "buildArgv spec'")
      (simp_all only: mergerfs_mountUnion_def sb v Let_def prod.case sum.case reasonable_fail, rule *, simp)
qed

lemma operates_shareUnion: "operates None {} (shareUnion b v s t ro)"
proof -
  have bind: "may_do None (insert (SaveState v st, x) (insert (WaitServing s, y) F)) (BindFuse s t ro)"
    if "failed x = None" "failed y = None" "vs_VolumeID st = v" "vs_Target st = t" "SharedFrom st = s" "vs_ReadOnly st = ro"
    for st x y F
    using that unfolding allowed_call_def by (fastforce simp: succeeded_def)
  show ?thesis
    unfolding shareUnion_def removeState_def Let_def
    by (intro reasonable_must_try reasonable_ask_bind reasonable_case_option reasonable_bind reasonable_ok
        reasonable_fail reasonable_ignore reasonable_must may_do_free bind may_remove_saved)
      simp_all
qed

lemma operates_unmountUnion: "operates (Some t) {} (mergerfs_unmountUnion b v t)"
proof -
  have "may_do (Some t) {} (UnmountFuse t)" by (simp add: allowed_call_def)
  moreover have "may_do (Some t) (insert (UnmountFuse t, x) {}) (StopScope v)"
    "may_do (Some t) (insert (UnmountFuse t, x) {}) (RemoveStateFile v)" if "failed x = None" for x
    using that unfolding allowed_call_def by (auto simp: succeeded_def)
  ultimately show ?thesis
    unfolding mergerfs_unmountUnion_def removeState_def
    by (intro reasonable_must_try reasonable_bind reasonable_ignore reasonable_must may_do_free) 
qed

lemma operates_log:
  assumes "operates u {} m"
  shows "\<exists>new. elog (snd (run_state m n)) = elog n @ new \<and> reasoned (operation_reason u) [] new"
proof -
  have "hoare (traced (operation_reason u) (elog n) {}) m (\<lambda>_. traced (operation_reason u) (elog n) {})"
    using assms by (simp add: reasonable_def)
  moreover have "traced (operation_reason u) (elog n) {} n" by (simp add: traced_def)
  ultimately have "traced (operation_reason u) (elog n) {} (snd (run_state m n))" by (rule hoare_run)
  then show ?thesis by (auto simp: traced_def)
qed


section \<open>A dead mount comes back\<close>

text \<open>A call that kept a pass from its goal.\<close>

fun troubled :: "ext \<times> reply \<Rightarrow> bool" where
  "troubled (LookPath f, r) = (case r of Found x \<Rightarrow> False | _ \<Rightarrow> True)"
| "troubled (EvalSymlinks f, r) = (case r of Found x \<Rightarrow> False | _ \<Rightarrow> True)"
| "troubled (SandboxCommand t u bs cmd, r) = (case r of Command x \<Rightarrow> False | _ \<Rightarrow> True)"
| "troubled (ProbeMount t, r) = (r \<noteq> Probed (Live, None))"
| "troubled (StatfsReadOnly f, r) = (r \<noteq> Answer True)"
| "troubled (c, r) = (failed r \<noteq> None)"

definition revived :: "mergerfsBackend \<Rightarrow> volumeState \<Rightarrow> ext list \<Rightarrow> bool" where
  "revived b st calls \<longleftrightarrow>
     (let t = vs_Target st; s = SharedFrom st
      in if s = [] then
           \<exists>cmd. calls = [UnmountFuse t, ForgetProbe t, StopScope (vs_VolumeID st)] @ start_calls b st cmd @
             [CloseLog (daemonLog (stateDir b) (vs_VolumeID st))]
         else
           calls = [ProbeMount s] @ (if sealControl b then [StatfsReadOnly (filepath_Join [s, controlFile])] else []) @
             [UnmountFuse t, ForgetProbe t, BindFuse s t (vs_ReadOnly st)])"

definition tried :: "mergerfsBackend \<Rightarrow> volumeState \<Rightarrow> mnode \<Rightarrow> mnode \<Rightarrow> bool" where
  "tried b st n n' \<longleftrightarrow>
     (\<exists>new. elog n' = elog n @ new \<and>
        ((\<exists>x \<in> set new. troubled x) \<or> revived b st (filter (\<lambda>c. \<not> preparing c) (map fst new))))"

lemma daemonCommand_troubled:
  "fst (run_state (daemonCommand b st) n) = Inl e \<Longrightarrow>
     \<exists>q. elog (snd (run_state (daemonCommand b st) n)) = elog n @ q \<and> (\<exists>x \<in> set q. troubled x)"
  by (auto simp: daemonCommand_def split: reply.splits if_splits)

lemma start_command_troubled:
  "fst (run_state (start_command b st cmd) n) = Inl e \<Longrightarrow>
     \<exists>x \<in> set (since n (snd (run_state (start_command b st cmd) n))). troubled x"
  by (cases "failed (outside b (elog n) (OpenLog (daemonLog (stateDir b) (vs_VolumeID st))))")
    (simp_all add: start_command_def sealControlFile_def Let_def killDaemon_def run_must run_ignore since_def
        split: option.splits if_splits)

lemma startDaemon_troubled:
  assumes "fst (run_state (startDaemon b st) n) = Inl e"
  shows "\<exists>new. elog (snd (run_state (startDaemon b st) n)) = elog n @ new \<and> (\<exists>x \<in> set new. troubled x)"
proof (cases "run_state (daemonCommand b st) n")
  case (Pair r n1)
  show ?thesis
  proof (cases r)
    case (Inl e')
    then show ?thesis using daemonCommand_troubled [of b st n e'] by (simp add: startDaemon_split Pair)
  next
    case (Inr cmd)
    obtain q where q: "elog n1 = elog n @ q" using daemonCommand_log [of b st n] Pair by auto
    let ?m = "run_state (start_command b st cmd) n1"
    have run: "run_state (startDaemon b st) n = ?m" by (simp add: startDaemon_split Pair Inr)
    have "elog (snd ?m) = elog n1 @ since n1 (snd ?m)" using start_command_log [of b st cmd n1] by (simp add: Let_def)
    moreover have "\<exists>x \<in> set (since n1 (snd ?m)). troubled x"
      using assms start_command_troubled [of b st cmd n1 e] by (simp add: run)
    ultimately show ?thesis unfolding run q by (intro exI [of _ "q @ since n1 (snd ?m)"]) auto
  qed
qed

lemma run_logged: "snd (run_state (logged m) n) = snd (run_state m n)"
  by (simp add: logged_def case_prod_beta)

lemma remountUnion_tries:
  assumes "SharedFrom st = []"
  shows "tried b st n (snd (run_state (remountUnion b st) n))"
proof -
  let ?t = "vs_Target st" and ?v = "vs_VolumeID st"
  let ?c1 = "(UnmountFuse ?t, outside b (elog n) (UnmountFuse ?t))"
  let ?c2 = "(ForgetProbe ?t, outside b (elog n @ [?c1]) (ForgetProbe ?t))"
  let ?c3 = "(StopScope ?v, outside b (elog n @ [?c1, ?c2]) (StopScope ?v))"
  let ?n = "n\<lparr>elog := elog n @ [?c1, ?c2, ?c3]\<rparr>"
  show ?thesis
  proof (cases "failed (snd ?c1) = None \<and> failed (snd ?c3) = None")
    case True
    have run: "snd (run_state (remountUnion b st) n) = snd (run_state (startDaemon b st) ?n)"
      using True by (simp add: remountUnion_def run_logged run_must run_ignore)
    obtain q new where new: "elog (snd (run_state (startDaemon b st) ?n)) = elog ?n @ q @ new"
      "\<forall>(c, r) \<in> set q. preparing c" "up_or_down b st (fst (run_state (startDaemon b st) ?n)) new"
      using startDaemon_log by blast
    show ?thesis
    proof (cases "fst (run_state (startDaemon b st) ?n)")
      case (Inl e)
      then show ?thesis using startDaemon_troubled [OF Inl] unfolding tried_def run by fastforce
    next
      case (Inr u)
      then have "revived b st (filter (\<lambda>c. \<not> preparing c) (map fst ([?c1, ?c2, ?c3] @ q @ new)))"
        using new(2,3) assms
        by (auto simp: up_or_down_def revived_def quiet_filter start_calls_active)
      then show ?thesis using new(1) unfolding tried_def run by (intro exI [of _ "[?c1, ?c2, ?c3] @ q @ new"]) simp
    qed
  next
    case False
    then show ?thesis
      by (cases "failed (snd ?c1)") (auto simp: remountUnion_def run_logged run_must run_ignore tried_def)
  qed
qed

lemma rebindShared_tries:
  assumes "SharedFrom st \<noteq> []"
  shows "tried b st n (snd (run_state (rebindShared b st) n))"
proof -
  let ?s = "SharedFrom st" and ?t = "vs_Target st"
  let ?f = "filepath_Join [?s, controlFile]"
  let ?p = "outside b (elog n) (ProbeMount ?s)"
  let ?c = "outside b (elog n @ [(ProbeMount ?s, ?p)]) (StatfsReadOnly ?f)"
  let ?mid = "(ProbeMount ?s, ?p) # (if sealControl b then [(StatfsReadOnly ?f, ?c)] else [])"
  let ?n = "n\<lparr>elog := elog n @ ?mid\<rparr>"
  let ?u = "outside b (elog ?n) (UnmountFuse ?t)"
  show ?thesis
  proof (cases "?p = Probed (Live, None) \<and> (sealControl b \<longrightarrow> ?c = Answer True)")
    case True
    then have "run_state (serving b ?s) n = (True, ?n)"
      by (elim conjE) (simp add: serving_def probe_def sealed_def as_probe_def)
    then show ?thesis using assms True
      by (cases "failed ?u")
        (simp_all add: rebindShared_def run_logged run_must run_ignore tried_def revived_def Let_def)
  next
    case False
    then have "fst (run_state (serving b ?s) n) = False \<and> elog (snd (run_state (serving b ?s) n)) = elog n @
        (ProbeMount ?s, ?p) # (if ?p = Probed (Live, None) \<and> sealControl b then [(StatfsReadOnly ?f, ?c)] else [])"
      by (auto simp: serving_def probe_def sealed_def as_probe_def prod_eq_iff split: reply.splits)
    then show ?thesis using False
      by (auto simp: rebindShared_def case_prod_beta tried_def)
  qed
qed

text \<open>C7: A repair pass brings a dead mount back. When the target of a volume answers that it is dead,
  the pass takes it down, forgets its probe, stops the scope and starts the daemon again with its
  control file sealed, in this order and with nothing else in between that changes something; a view
  is bound again to the union it is shared from. It does not get there only if one of the calls of
  this pass failed.\<close>

theorem dead_mount_revived:
  fixes b v n
  defines "log \<equiv> elog n"
  assumes "outside b log (LoadState v) = Loaded st"
    and "outside b (log @ [(LoadState v, Loaded st)]) (ProbeMount (vs_Target st)) = Probed (Dead, e)"
    and "e \<noteq> Some ErrHung"
  shows "\<exists>new. elog (snd (run_state (reconcile b v) n)) =
      log @ [(LoadState v, Loaded st), (ProbeMount (vs_Target st), Probed (Dead, e))] @ new \<and>
      ((\<exists>x \<in> set new. troubled x) \<or> revived b st (filter (\<lambda>c. \<not> preparing c) (map fst new)))"
proof -
  let ?n = "n\<lparr>elog := log @ [(LoadState v, Loaded st), (ProbeMount (vs_Target st), Probed (Dead, e))]\<rparr>"
  have "snd (run_state (reconcile b v) n) =
      snd (run_state (if SharedFrom st \<noteq> [] then rebindShared b st else remountUnion b st) ?n)"
    using assms by (simp add: reconcile_def probe_def as_probe_def)
  then have "tried b st ?n (snd (run_state (reconcile b v) n))"
    using remountUnion_tries rebindShared_tries by simp
  then show ?thesis by (auto simp: tried_def)
qed

text \<open>A dead union on a node where nothing fails.\<close>

definition dead_volume :: volumeState where
  "dead_volume = blank_state\<lparr>vs_VolumeID := ''vol'', vs_Target := ''/target'', Argv := [''-f'']\<rparr>"

definition willing_world :: outside where
  "willing_world log c =
     (case c of
        LoadState v \<Rightarrow> Loaded dead_volume
      | ProbeMount t \<Rightarrow> Probed (Dead, None)
      | LookPath f \<Rightarrow> Found ''/bin/mergerfs''
      | _ \<Rightarrow> Done)"

definition willing_backend :: mergerfsBackend where
  "willing_backend = \<lparr>outside = willing_world, useSandbox = True, sealControl = True, stateDir = ''/state''\<rparr>"

lemma dead_volume_simps: "vs_Target dead_volume = ''/target''" "SharedFrom dead_volume = []"
  by (simp_all add: dead_volume_def blank_state_def)

theorem dead_mount_revived_witness:
  "(\<exists>new. elog (snd (run_state (reconcile willing_backend ''vol'') \<lparr>elog = [], stale = []\<rparr>)) =
      [(LoadState ''vol'', Loaded dead_volume), (ProbeMount ''/target'', Probed (Dead, None))] @ new \<and>
      ((\<exists>x \<in> set new. troubled x) \<or>
       revived willing_backend dead_volume (filter (\<lambda>c. \<not> preparing c) (map fst new)))) \<and>
   \<not> list_ex troubled (drop 2 (elog (snd (run_state (reconcile willing_backend ''vol'') \<lparr>elog = [], stale = []\<rparr>))))"
proof (rule conjI)
  show "\<exists>new. elog (snd (run_state (reconcile willing_backend ''vol'') \<lparr>elog = [], stale = []\<rparr>)) =
      [(LoadState ''vol'', Loaded dead_volume), (ProbeMount ''/target'', Probed (Dead, None))] @ new \<and>
      ((\<exists>x \<in> set new. troubled x) \<or>
       revived willing_backend dead_volume (filter (\<lambda>c. \<not> preparing c) (map fst new)))"
    using dead_mount_revived [of willing_backend "\<lparr>elog = [], stale = []\<rparr>" "''vol''" dead_volume None]
    by (simp add: willing_backend_def willing_world_def dead_volume_simps)
  show "\<not> list_ex troubled (drop 2 (elog (snd (run_state (reconcile willing_backend ''vol'') \<lparr>elog = [], stale = []\<rparr>))))"
    by code_simp
qed

section \<open>A stuck branch is replaced in time\<close>

text \<open>A branch that the daemon finds dead while the host serves it, for as long as this lasts.\<close>

definition stuck :: "mergerfsBackend \<Rightarrow> string \<Rightarrow> int \<Rightarrow> bind \<Rightarrow> bool" where
  "stuck b v pid br \<longleftrightarrow>
     pid \<noteq> 0 \<and> (\<forall>log. outside b log (DaemonPID v) = Number pid) \<and>
     (\<forall>log. \<exists>p. outside b log (ProbeMount (filepath_Join [filepath_Join [''/proc'', Itoa pid, ''root''], Sandbox br])) = Probed p \<and>
        deadInDaemon p) \<and>
     (\<forall>log. outside b log (ProbeMount (Host br)) = Probed (Live, None))"

definition replaced_since :: "string \<Rightarrow> bind \<Rightarrow> mnode \<Rightarrow> mnode \<Rightarrow> bool" where
  "replaced_since v br n n' \<longleftrightarrow>
     (\<exists>new r. elog n' = elog n @ new \<and> (ReplaceIn v (Host br) (Sandbox br) (bind_ReadOnly br), r) \<in> set new)"

lemma replaced_since_trans:
  "replaced_since v br n n1 \<Longrightarrow> elog n2 = elog n1 @ new \<Longrightarrow> replaced_since v br n n2"
  "elog n1 = elog n @ new \<Longrightarrow> replaced_since v br n1 n2 \<Longrightarrow> replaced_since v br n n2"
  unfolding replaced_since_def by fastforce+

lemma stuck_repair_branch:
  assumes "stuck b v pid br"
  shows "let n' = snd (run_state (repair_branch b v pid mounts br) n)
    in (if fst (hit (stale n) v (Sandbox br) pid) < staleThreshold
        then stale n' = snd (hit (stale n) v (Sandbox br) pid)
        else replaced_since v br n n')"
proof -
  let ?inner = "filepath_Join [filepath_Join [''/proc'', Itoa pid, ''root''], Sandbox br]"
  obtain p where p: "outside b (elog n) (ProbeMount ?inner) = Probed p" "deadInDaemon p"
    using assms unfolding stuck_def by blast
  have h: "outside b log (ProbeMount (Host br)) = Probed (Live, None)" for log using assms by (simp add: stuck_def)
  show ?thesis
    by (auto simp: repair_branch_def Let_def probe_def as_probe_def ignore_def replaced_since_def p h
        split: option.split)
qed

lemma repair_loop_extends: "\<exists>new. elog (snd (run_state (repair_loop b v pid mounts brs) n)) = elog n @ new"
proof (induction brs arbitrary: n)
  case (Cons br brs)
  obtain new1 where "elog (snd (run_state (repair_branch b v pid mounts br) n)) = elog n @ new1"
    using repair_branch_effect by blast
  then show ?case
    using Cons.IH [of "snd (run_state (repair_branch b v pid mounts br) n)"] by (auto simp: case_prod_beta)
qed simp

lemma repair_loop_other:
  "s \<notin> Sandbox ` set brs \<Longrightarrow>
     map_of (stale (snd (run_state (repair_loop b v pid mounts brs) n))) (v, s) = map_of (stale n) (v, s)"
proof (induction brs arbitrary: n)
  case (Cons br brs)
  then have "map_of (stale (snd (run_state (repair_branch b v pid mounts br) n))) (v, s) = map_of (stale n) (v, s)"
    using repair_branch_effect [of b v pid mounts br n] by auto
  then show ?case using Cons by (simp add: case_prod_beta)
qed simp

lemma stuck_repair_loop:
  assumes "stuck b v pid br" and "br \<in> set brs" and "distinct (map Sandbox brs)"
  shows "let n' = snd (run_state (repair_loop b v pid mounts brs) n)
    in (if fst (hit (stale n) v (Sandbox br) pid) < staleThreshold
        then map_of (stale n') (v, Sandbox br) = Some \<lparr>run_pid = pid, passes = fst (hit (stale n) v (Sandbox br) pid)\<rparr>
        else replaced_since v br n n')"
  using assms(2,3)
proof (induction brs arbitrary: n)
  case (Cons br' brs)
  let ?n1 = "snd (run_state (repair_branch b v pid mounts br') n)"
  let ?n2 = "snd (run_state (repair_loop b v pid mounts brs) ?n1)"
  obtain new where new: "elog ?n1 = elog n @ new"
    "\<forall>k. k \<noteq> (v, Sandbox br') \<longrightarrow> map_of (stale ?n1) k = map_of (stale n) k"
    using repair_branch_effect by blast
  have run: "snd (run_state (repair_loop b v pid mounts (br' # brs)) n) = ?n2" by (simp add: case_prod_beta)
  show ?case
  proof (cases "br = br'")
    case True
    then have "Sandbox br \<notin> Sandbox ` set brs" using Cons.prems by auto
    then have "map_of (stale ?n2) (v, Sandbox br) = map_of (stale ?n1) (v, Sandbox br)"
      by (rule repair_loop_other)
    moreover obtain new2 where "elog ?n2 = elog ?n1 @ new2" using repair_loop_extends by blast
    ultimately show ?thesis using stuck_repair_branch [OF assms(1), of mounts n] True
      unfolding run by (auto simp: Let_def lookup_hit intro: replaced_since_trans(1))
  next
    case False
    then have "br \<in> set brs" using Cons.prems(1) by simp
    moreover from this have "Sandbox br \<noteq> Sandbox br'" using Cons.prems(2) by (metis (no_types) distinct.simps(2) image_eqI list.simps(9) set_map)
    moreover from this new(2) have "fst (hit (stale ?n1) v (Sandbox br) pid) = fst (hit (stale n) v (Sandbox br) pid)"
      by (intro hit_lookup) simp
    ultimately show ?thesis using Cons.IH [of ?n1] Cons.prems new(1)
      unfolding run by (auto simp: Let_def intro: replaced_since_trans(2))
  qed
qed simp

lemma stuck_pass:
  assumes "stuck b (vs_VolumeID st) pid br" and "br \<in> set (Branches st)" and "distinct (map Sandbox (Branches st))"
  shows "let n' = snd (run_state (repairBranches b st) n); v = vs_VolumeID st
    in (\<exists>new. elog n' = elog n @ new) \<and>
       (if fst (hit (stale n) v (Sandbox br) pid) < staleThreshold
        then map_of (stale n') (v, Sandbox br) = Some \<lparr>run_pid = pid, passes = fst (hit (stale n) v (Sandbox br) pid)\<rparr>
        else replaced_since v br n n')"
proof -
  let ?v = "vs_VolumeID st"
  define n1 where "n1 = n\<lparr>elog := elog n @ [(DaemonPID ?v, Number pid)]\<rparr>"
  define ms n2 where "ms = fst (run_state (daemonMountPoints b pid) n1)" and "n2 = snd (run_state (daemonMountPoints b pid) n1)"
  have run: "snd (run_state (repairBranches b st) n) = snd (run_state (repair_loop b ?v pid ms (Branches st)) n2)"
    using assms(1,2) by (auto simp: repairBranches_def Let_def stuck_def n1_def ms_def n2_def case_prod_beta)
  have n2: "stale n2 = stale n" "\<exists>q. elog n2 = elog n @ q"
    by (simp_all add: n2_def n1_def daemonMountPoints_def)
  show ?thesis
    using stuck_repair_loop [OF assms, of ms n2] repair_loop_extends [of b ?v pid ms "Branches st" n2] n2
    unfolding run by (auto simp: Let_def intro: replaced_since_trans(2))
qed

lemma stuck_passes:
  assumes "stuck b (vs_VolumeID st) pid br" and "br \<in> set (Branches st)" and "distinct (map Sandbox (Branches st))"
    and "staleThreshold \<le> fst (hit (stale n) (vs_VolumeID st) (Sandbox br) pid) + k"
  shows "\<exists>j \<le> Suc k. replaced_since (vs_VolumeID st) br n (((\<lambda>n. snd (run_state (repairBranches b st) n)) ^^ j) n)"
  using assms(4)
proof (induction k arbitrary: n)
  case 0
  then show ?case using stuck_pass [OF assms(1-3), of n] by (intro exI [of _ 1]) (simp add: Let_def)
next
  case (Suc k)
  let ?v = "vs_VolumeID st"
  let ?pass = "\<lambda>n. snd (run_state (repairBranches b st) n)"
  show ?case
  proof (cases "fst (hit (stale n) ?v (Sandbox br) pid) < staleThreshold")
    case False
    then show ?thesis using stuck_pass [OF assms(1-3), of n] by (intro exI [of _ 1]) (simp add: Let_def)
  next
    case True
    then have "fst (hit (stale (?pass n)) ?v (Sandbox br) pid) = Suc (fst (hit (stale n) ?v (Sandbox br) pid))"
      using stuck_pass [OF assms(1-3), of n] by (simp add: Let_def hit_def [of "stale (?pass n)"] stale_lookup_def)
    then obtain j where "j \<le> Suc k" "replaced_since ?v br (?pass n) ((?pass ^^ j) (?pass n))"
      using Suc.IH [of "?pass n"] Suc.prems by auto
    moreover have "\<exists>new. elog (?pass n) = elog n @ new"
      using stuck_pass [OF assms(1-3), of n] by (simp add: Let_def)
    ultimately have "Suc j \<le> Suc (Suc k) \<and> replaced_since ?v br n ((?pass ^^ Suc j) n)"
      by (auto simp: funpow_Suc_right simp del: funpow.simps intro: replaced_since_trans(2))
    then show ?thesis by blast
  qed
qed

text \<open>C16: A branch that stays dead in the daemon while the host serves it is replaced within three repair
  passes, whatever the counter held before and whatever the other branches of the volume do: one of
  the first three passes makes the call that clones the branch into the daemon's namespace, with the
  branch's own read-only flag.\<close>

theorem stuck_branch_replaced:
  assumes "stuck b (vs_VolumeID st) pid br" and "br \<in> set (Branches st)" and "distinct (map Sandbox (Branches st))"
  shows "\<exists>k \<le> 3. replaced_since (vs_VolumeID st) br n (((\<lambda>n. snd (run_state (repairBranches b st) n)) ^^ k) n)"
  using stuck_passes [OF assms, of n 2]
  by (simp add: hit_def Let_def staleThreshold_def eval_nat_numeral)

theorem stuck_branch_replaced_witness:
  "\<exists>k \<le> 3. replaced_since ''vol'' stuck_branch \<lparr>elog = [], stale = []\<rparr>
     (((\<lambda>n. snd (run_state (repairBranches stuck_backend stuck_volume) n)) ^^ k) \<lparr>elog = [], stale = []\<rparr>)"
proof -
  have "filepath_Join [filepath_Join [''/proc'', Itoa 7, ''root''], ''/mnt/a''] \<noteq> ''/data''" by code_simp
  then have "stuck stuck_backend (vs_VolumeID stuck_volume) 7 stuck_branch"
    by (simp add: stuck_def stuck_backend_def stuck_world_def stuck_branch_def deadInDaemon_def)
  moreover have "stuck_branch \<in> set (Branches stuck_volume)" "distinct (map Sandbox (Branches stuck_volume))"
    by (simp_all add: stuck_volume_def)
  ultimately show ?thesis
    using stuck_branch_replaced [of stuck_backend stuck_volume 7 stuck_branch "\<lparr>elog = [], stale = []\<rparr>"]
    by (simp add: stuck_volume_def)
qed

end
