(* ===== verification/Schedule.thy ===== *)
theory Schedule
  imports Prelude
begin

text \<open>
  Operations that run side by side: a schedule is the list of their calls in the order they happen, each
  with the number of the operation that makes it. A lock is held by at most one operation.
\<close>

section \<open>Schedules\<close>

type_synonym 'c schedule = "(nat \<times> 'c) list"

definition calls_of :: "nat \<Rightarrow> 'c schedule \<Rightarrow> 'c list" where
  "calls_of i s = map snd (filter (\<lambda>x. fst x = i) s)"

lemma calls_of_simps [simp]:
  "calls_of i [] = []"
  "calls_of i (x # s) = (if fst x = i then snd x # calls_of i s else calls_of i s)"
  "calls_of i (s @ t) = calls_of i s @ calls_of i t"
  by (simp_all add: calls_of_def)

lemma calls_of_Nil: "calls_of i s = [] \<longleftrightarrow> i \<notin> fst ` set s"
  by (auto simp: calls_of_def filter_empty_conv)

lemma calls_of_take: "prefix (calls_of i (take k s)) (calls_of i s)"
  by (metis append_take_drop_id calls_of_simps(3) prefixI)

text \<open>A lock table has the holder of each lock. \<open>acquires\<close> and \<open>releases\<close> tell the lock a call takes or
  gives back.\<close>

fun turn :: "('c \<Rightarrow> 'v option) \<Rightarrow> ('c \<Rightarrow> 'v option) \<Rightarrow> ('v \<Rightarrow> nat option) \<Rightarrow> nat \<times> 'c \<Rightarrow> 'v \<Rightarrow> nat option" where
  "turn acquires releases h (i, c) =
     (case acquires c of
        Some v \<Rightarrow> h(v := Some i)
      | None \<Rightarrow> (case releases c of Some v \<Rightarrow> h(v := None) | None \<Rightarrow> h))"

definition holders :: "('c \<Rightarrow> 'v option) \<Rightarrow> ('c \<Rightarrow> 'v option) \<Rightarrow> 'c schedule \<Rightarrow> 'v \<Rightarrow> nat option" where
  "holders acquires releases s = foldl (turn acquires releases) (\<lambda>v. None) s"

lemma holders_simps [simp]:
  "holders acquires releases [] = (\<lambda>v. None)"
  "holders acquires releases (s @ [x]) = turn acquires releases (holders acquires releases s) x"
  by (simp_all add: holders_def)

text \<open>A lock is taken only when nobody holds it.\<close>

definition exclusive :: "('c \<Rightarrow> 'v option) \<Rightarrow> ('c \<Rightarrow> 'v option) \<Rightarrow> 'c schedule \<Rightarrow> bool" where
  "exclusive acquires releases s \<longleftrightarrow>
     list_all (\<lambda>k. case acquires (snd (s ! k)) of
         Some v \<Rightarrow> holders acquires releases (take k s) v = None
       | None \<Rightarrow> True) [0..<length s]"

lemma exclusive_snoc:
  "exclusive acquires releases (s @ [x]) \<longleftrightarrow>
     exclusive acquires releases s \<and>
     (case acquires (snd x) of Some v \<Rightarrow> holders acquires releases s v = None | None \<Rightarrow> True)"
  by (auto simp: exclusive_def list_all_iff nth_append less_Suc_eq split: option.splits)

lemma exclusive_Nil [simp]: "exclusive acquires releases []"
  by (simp add: exclusive_def)

lemma exclusive_take: "exclusive acquires releases s \<Longrightarrow> exclusive acquires releases (take k s)"
  by (auto simp: exclusive_def list_all_iff min_def split: option.splits)

section \<open>Operations that lock what they work on\<close>

text \<open>An operation takes the lock of its subject with its first call, gives it back with its last, and
  touches no lock in between. \<open>trace op tr\<close>: \<open>tr\<close> are all calls of one run of \<open>op\<close>.\<close>

locale locked_operations =
  fixes subject :: "'op \<Rightarrow> 'v"
    and acquires :: "'c \<Rightarrow> 'v option"
    and releases :: "'c \<Rightarrow> 'v option"
    and trace :: "'op \<Rightarrow> 'c list \<Rightarrow> bool"
  assumes shape: "trace p tr \<Longrightarrow> \<exists>a mid z. tr = a # mid @ [z] \<and>
      acquires a = Some (subject p) \<and> releases z = Some (subject p) \<and> releases a = None \<and> acquires z = None \<and>
      list_all (\<lambda>c. acquires c = None \<and> releases c = None) mid"
begin

text \<open>What an operation has done so far.\<close>

definition partly :: "'op \<Rightarrow> 'c list \<Rightarrow> bool" where
  "partly p tr \<longleftrightarrow> (\<exists>full. trace p full \<and> prefix tr full)"

definition scheduled :: "(nat \<Rightarrow> 'op) \<Rightarrow> 'c schedule \<Rightarrow> bool" where
  "scheduled ops s \<longleftrightarrow> exclusive acquires releases s \<and> (\<forall>i. calls_of i s \<noteq> [] \<longrightarrow> partly (ops i) (calls_of i s))"

lemma partly_prefix: "partly p (tr @ tr') \<Longrightarrow> partly p tr"
  unfolding partly_def using append_prefixD by blast

lemma partly_first:
  assumes "partly p [c]"
  shows "acquires c = Some (subject p)" and "releases c = None"
  using assms shape unfolding partly_def by (fastforce simp: prefix_def)+

lemma partly_later:
  assumes "partly p (tr @ [c])" and "tr \<noteq> []"
  shows "acquires c = None" and "releases c = None \<or> (releases c = Some (subject p) \<and> trace p (tr @ [c]))"
    and "\<not> trace p tr"
proof -
  obtain full ys where full: "trace p full" and ys: "full = tr @ [c] @ ys"
    using assms(1) by (auto simp: partly_def prefix_def)
  obtain a mid z where s: "full = a # mid @ [z]" "acquires z = None" "releases z = Some (subject p)"
    "releases a = None" "list_all (\<lambda>c. acquires c = None \<and> releases c = None) mid"
    using shape [OF full] by blast
  obtain tr' where tr: "tr = a # tr'" and rest: "mid @ [z] = tr' @ c # ys"
    using assms(2) s(1) ys by (cases tr) simp_all
  have at: "(ys = [] \<and> c = z \<and> mid = tr') \<or> (\<exists>ys'. ys = ys' @ [z] \<and> mid = tr' @ c # ys')"
    using rest by (cases ys rule: rev_cases) auto
  then show "acquires c = None" using s by auto
  show "releases c = None \<or> (releases c = Some (subject p) \<and> trace p (tr @ [c]))"
    using at s full ys by auto
  have quiet: "list_all (\<lambda>c. releases c = None) tr"
    using at s(4,5) tr by (auto simp: list_all_iff)
  show "\<not> trace p tr"
  proof
    assume "trace p tr"
    from shape [OF this] obtain a' mid' z' where "tr = a' # mid' @ [z']" "releases z' = Some (subject p)" by blast
    with quiet show False by simp
  qed
qed

text \<open>The calls for one subject: one operation after the other, in the order they took the lock. All but
  the last are complete, and the last too if nobody holds the lock.\<close>

definition serial :: "(nat \<Rightarrow> 'op) \<Rightarrow> 'c schedule \<Rightarrow> 'v \<Rightarrow> nat list \<Rightarrow> bool" where
  "serial ops s v order \<longleftrightarrow>
     distinct order \<and> set order = {i. subject (ops i) = v \<and> calls_of i s \<noteq> []} \<and>
     filter (\<lambda>x. subject (ops (fst x)) = v) s = concat (map (\<lambda>i. map (Pair i) (calls_of i s)) order) \<and>
     (case holders acquires releases s v of
        None \<Rightarrow> list_all (\<lambda>i. trace (ops i) (calls_of i s)) order
      | Some i \<Rightarrow> order \<noteq> [] \<and> last order = i \<and> list_all (\<lambda>i. trace (ops i) (calls_of i s)) (butlast order))"

lemma scheduled_snoc:
  assumes "scheduled ops (s @ [(i, c)])"
  shows "scheduled ops s" and "partly (ops i) (calls_of i s @ [c])"
    and "acquires c = Some v \<Longrightarrow> holders acquires releases s v = None"
proof -
  have all: "calls_of j (s @ [(i, c)]) \<noteq> [] \<Longrightarrow> partly (ops j) (calls_of j (s @ [(i, c)]))" for j
    using assms unfolding scheduled_def by blast
  have "partly (ops j) (calls_of j s)" if "calls_of j s \<noteq> []" for j
    using all [of j] that partly_prefix by (auto split: if_splits)
  then show "scheduled ops s" using assms by (simp add: scheduled_def exclusive_snoc)
  show "partly (ops i) (calls_of i s @ [c])" using all [of i] by simp
  show "acquires c = Some v \<Longrightarrow> holders acquires releases s v = None"
    using assms by (simp add: scheduled_def exclusive_snoc)
qed

lemma unaffected:
  assumes "i \<notin> set order"
  shows "map (\<lambda>j. map (Pair j) (calls_of j (s @ [(i, c)]))) order = map (\<lambda>j. map (Pair j) (calls_of j s)) order"
    and "list_all (\<lambda>j. trace (ops j) (calls_of j (s @ [(i, c)]))) order =
      list_all (\<lambda>j. trace (ops j) (calls_of j s)) order"
  using assms by (auto simp: list_all_iff)

lemma serial_other:
  assumes "serial ops s v order" and "subject (ops i) \<noteq> v" and "scheduled ops (s @ [(i, c)])"
  shows "serial ops (s @ [(i, c)]) v order"
proof -
  let ?t = "s @ [(i, c)]"
  have p: "partly (ops i) (calls_of i s @ [c])" using scheduled_snoc(2) [OF assms(3)] .
  have "acquires c = Some (subject (ops i)) \<or>
      acquires c = None \<and> (releases c = None \<or> releases c = Some (subject (ops i)))"
    using partly_first [of "ops i" c] partly_later(1,2) [of "ops i" "calls_of i s" c] p
    by (cases "calls_of i s = []") auto
  then have h: "holders acquires releases ?t v = holders acquires releases s v"
    using assms(2) by auto
  have i: "i \<notin> set order" using assms(1,2) by (auto simp: serial_def)
  then have "i \<notin> set (butlast order)" by (blast dest: in_set_butlastD)
  note same = unaffected [OF i, where s = s and c = c] unaffected [OF this, where s = s and c = c]
  have "filter (\<lambda>x. subject (ops (fst x)) = v) ?t = filter (\<lambda>x. subject (ops (fst x)) = v) s"
    "{j. subject (ops j) = v \<and> calls_of j ?t \<noteq> []} = {j. subject (ops j) = v \<and> calls_of j s \<noteq> []}"
    using assms(2) by auto
  then show ?thesis
    using assms(1) unfolding serial_def h same by metis
qed

lemma serial_begins:
  assumes "serial ops s v order" and "scheduled ops (s @ [(i, c)])"
    and "subject (ops i) = v" and "calls_of i s = []"
  shows "serial ops (s @ [(i, c)]) v (order @ [i])"
proof -
  let ?t = "s @ [(i, c)]"
  have p: "partly (ops i) [c]" using scheduled_snoc(2) [OF assms(2)] assms(4) by simp
  have a: "acquires c = Some v" using partly_first(1) [OF p] assms(3) by simp
  have free: "holders acquires releases s v = None" using scheduled_snoc(3) [OF assms(2) a] .
  have i: "i \<notin> set order" using assms(1,4) by (auto simp: serial_def)
  have h: "holders acquires releases ?t v = Some i" using a by simp
  have f: "filter (\<lambda>x. subject (ops (fst x)) = v) ?t = filter (\<lambda>x. subject (ops (fst x)) = v) s @ [(i, c)]"
    "{j. subject (ops j) = v \<and> calls_of j ?t \<noteq> []} = insert i {j. subject (ops j) = v \<and> calls_of j s \<noteq> []}"
    using assms(3) by auto
  show ?thesis
    unfolding serial_def h f map_append concat_append unaffected [OF i]
    using assms(1,4) i free by (simp add: serial_def unaffected [OF i, simplified])
qed

lemma serial_goes_on:
  assumes "serial ops s v order" and "scheduled ops (s @ [(i, c)])"
    and "subject (ops i) = v" and "calls_of i s \<noteq> []"
  shows "serial ops (s @ [(i, c)]) v order"
proof -
  let ?t = "s @ [(i, c)]"
  have p: "partly (ops i) (calls_of i s @ [c])" using scheduled_snoc(2) [OF assms(2)] .
  note later = partly_later [OF p assms(4)]
  have i: "i \<in> set order" using assms(1,3,4) by (simp add: serial_def)
  obtain j where j: "holders acquires releases s v = Some j"
    using assms(1) i later(3) by (cases "holders acquires releases s v") (auto simp: serial_def list_all_iff)
  then have o: "order \<noteq> []" "last order = j" "list_all (\<lambda>i. trace (ops i) (calls_of i s)) (butlast order)"
    using assms(1) by (simp_all add: serial_def)
  then have "i \<notin> set (butlast order)" using later(3) by (auto simp: list_all_iff)
  moreover have "order = butlast order @ [j]" using o(1,2) by (metis append_butlast_last_id)
  ultimately obtain before where order: "order = before @ [i]" and j': "j = i" and new: "i \<notin> set before"
    using i by (metis append_self_conv2 in_set_conv_decomp_first insert_iff list.simps(15) rotate1.simps(2) set_rotate1)
  have h: "holders acquires releases ?t v = (if releases c = None then Some i else None)"
    using j j' later(1,2) assms(3) by auto
  have f: "filter (\<lambda>x. subject (ops (fst x)) = v) ?t = filter (\<lambda>x. subject (ops (fst x)) = v) s @ [(i, c)]"
    "{j. subject (ops j) = v \<and> calls_of j ?t \<noteq> []} = {j. subject (ops j) = v \<and> calls_of j s \<noteq> []}"
    using assms(3,4) by auto
  have before: "list_all (\<lambda>j. trace (ops j) (calls_of j ?t)) before"
    unfolding unaffected [OF new] using o(3) order by simp
  show ?thesis
    unfolding serial_def h f order map_append concat_append unaffected [OF new]
    using assms(1) before later(2) unfolding serial_def order by auto
qed

theorem schedules_serialise:
  assumes "scheduled ops s"
  shows "\<exists>order. serial ops s v order"
  using assms
proof (induction s rule: rev_induct)
  case Nil
  show ?case by (rule exI [of _ "[]"]) (simp add: serial_def)
next
  case (snoc x s)
  obtain i c where x: "x = (i, c)" by fastforce
  obtain order where "serial ops s v order" using snoc scheduled_snoc(1) x by blast
  then show ?case using snoc.prems serial_other serial_begins serial_goes_on unfolding x by blast
qed

end

end
