(* ===== verification/MergerfsReplay.thy ===== *)
theory MergerfsReplay
  imports MergerfsLifecycle
begin

text \<open>
  The operations of the mergerfs backend depend on the world only through the replies to their calls: run
  again with the same replies, from any log, an operation makes the same calls.
\<close>

section \<open>Replies\<close>

text \<open>\<open>answers w l tr\<close>: a world that has seen \<open>l\<close> gives the replies in \<open>tr\<close>.\<close>

definition answers :: "outside \<Rightarrow> ext_log \<Rightarrow> ext_log \<Rightarrow> bool" where
  "answers w l tr \<longleftrightarrow> (\<forall>k < length tr. w (l @ take k tr) (fst (tr ! k)) = snd (tr ! k))"

lemma answers_Nil [simp]: "answers w l []"
  by (simp add: answers_def)

lemma answers_append:
  "answers w l (xs @ ys) \<longleftrightarrow> answers w l xs \<and> answers w (l @ xs) ys"
proof
  assume a: "answers w l (xs @ ys)"
  have "w (l @ take k xs) (fst (xs ! k)) = snd (xs ! k)" if "k < length xs" for k
    using a [unfolded answers_def, rule_format, of k] that by (simp add: nth_append)
  moreover have "w (l @ xs @ take k ys) (fst (ys ! k)) = snd (ys ! k)" if "k < length ys" for k
    using a [unfolded answers_def, rule_format, of "length xs + k"] that by simp
  ultimately show "answers w l xs \<and> answers w (l @ xs) ys" by (simp add: answers_def)
next
  assume a: "answers w l xs \<and> answers w (l @ xs) ys"
  show "answers w l (xs @ ys)" unfolding answers_def
  proof (intro allI impI)
    fix k assume k: "k < length (xs @ ys)"
    show "w (l @ take k (xs @ ys)) (fst ((xs @ ys) ! k)) = snd ((xs @ ys) ! k)"
    proof (cases "k < length xs")
      case True
      then show ?thesis using a by (simp add: answers_def nth_append)
    next
      case False
      then show ?thesis
        using a k [simplified] unfolding answers_def
        by (auto simp: nth_append dest: spec [of _ "k - length xs"])
    qed
  qed
qed

lemma answers_one [simp]: "answers w l [x] \<longleftrightarrow> w l (fst x) = snd x"
  by (simp add: answers_def)

section \<open>Programs that only see replies\<close>

text \<open>Two runs: the second, in another world and from another log, makes the calls of the first as long as
  it gets the same replies, and ends like the first if it gets them all.\<close>

definition replays_run ::
    "outside \<Rightarrow> mnode \<Rightarrow> mnode \<Rightarrow> (mnode, 'a) state \<Rightarrow> (mnode, 'a) state \<Rightarrow> bool" where
  "replays_run w' n n' m m' \<longleftrightarrow>
     (\<exists>tr tr'. elog (snd (run_state m n)) = elog n @ tr \<and> elog (snd (run_state m' n')) = elog n' @ tr' \<and>
        (\<forall>k \<le> length tr. answers w' (elog n') (take k tr) \<longrightarrow> take k tr' = take k tr) \<and>
        (answers w' (elog n') tr \<longrightarrow>
           tr' = tr \<and> fst (run_state m' n') = fst (run_state m n) \<and>
           stale (snd (run_state m' n')) = stale (snd (run_state m n))))"

definition replays :: "(outside \<Rightarrow> (mnode, 'a) state) \<Rightarrow> bool" where
  "replays m \<longleftrightarrow> (\<forall>w w' n n'. stale n = stale n' \<longrightarrow> replays_run w' n n' (m w) (m w'))"

named_theorems replay_rules \<open>programs that only see replies\<close>

lemma replays_silent:
  assumes "\<And>n. elog (snd (run_state m n)) = elog n"
    and "\<And>n n'. stale n = stale n' \<Longrightarrow> fst (run_state m n') = fst (run_state m n) \<and>
      stale (snd (run_state m n')) = stale (snd (run_state m n))"
  shows "replays (\<lambda>w. m)"
  unfolding replays_def
proof (intro allI impI)
  fix w w' :: outside and n n' :: mnode
  assume "stale n = stale n'"
  from assms(2) [OF this] show "replays_run w' n n' m m"
    unfolding replays_run_def by (intro exI [of _ "[]"]) (simp add: assms(1))
qed

lemma replays_return [replay_rules]: "replays (\<lambda>w. State_Monad.return x)"
  by (rule replays_silent) simp_all

lemma replays_ok [replay_rules]: "replays (\<lambda>w. ok x)"
  by (rule replays_silent) simp_all

lemma replays_fail [replay_rules]: "replays (\<lambda>w. fail e)"
  by (rule replays_silent) simp_all

lemma replays_update_stale [replay_rules]: "replays (\<lambda>w. update_stale f)"
  by (rule replays_silent) (simp_all add: update_stale_def case_prod_beta)

lemma replays_ask [replay_rules]: "replays (\<lambda>w. ask (b\<lparr>outside := w\<rparr>) c)"
proof -
  have "k \<le> Suc 0 \<Longrightarrow> take k [x] = (if k = 0 then [] else [x])" for k and x :: "ext \<times> reply"
    by (cases k) auto
  then show ?thesis unfolding replays_def replays_run_def by auto
qed

lemma replays_log: "replays m \<Longrightarrow> \<exists>tr. elog (snd (run_state (m w) n)) = elog n @ tr"
  unfolding replays_def replays_run_def by blast

text \<open>One program after another: \<open>m\<close> goes from \<open>n\<close> to \<open>n1\<close> and from \<open>n'\<close> to \<open>n1'\<close>.\<close>

lemma replays_run_bind:
  assumes m: "run_state m n = (x, n1)" "run_state m' n' = (x', n1')"
    and first: "replays_run w' n n' m m'"
    and second: "stale n1 = stale n1' \<Longrightarrow> x' = x \<Longrightarrow> replays_run w' n1 n1' (f x) (f' x')"
    and logs: "\<exists>us. elog (snd (run_state (f x) n1)) = elog n1 @ us"
      "\<exists>us'. elog (snd (run_state (f' x') n1')) = elog n1' @ us'"
  shows "replays_run w' n n' (State_Monad.bind m f) (State_Monad.bind m' f')"
proof -
  obtain tr tr' where a: "elog n1 = elog n @ tr" "elog n1' = elog n' @ tr'"
    and p: "\<And>k. k \<le> length tr \<Longrightarrow> answers w' (elog n') (take k tr) \<Longrightarrow> take k tr' = take k tr"
    and e: "answers w' (elog n') tr \<Longrightarrow> tr' = tr \<and> x' = x \<and> stale n1' = stale n1"
    using first m unfolding replays_run_def by auto
  let ?r = "run_state (f x) n1" and ?r' = "run_state (f' x') n1'"
  obtain us us' where us: "elog (snd ?r) = elog n1 @ us" and us': "elog (snd ?r') = elog n1' @ us'"
    using logs by blast
  have rest: "(\<forall>k \<le> length us. answers w' (elog n' @ tr) (take k us) \<longrightarrow> take k us' = take k us) \<and>
      (answers w' (elog n' @ tr) us \<longrightarrow> us' = us \<and> fst ?r' = fst ?r \<and> stale (snd ?r') = stale (snd ?r))"
    if "answers w' (elog n') tr"
    using second e [OF that] us us' a unfolding replays_run_def by auto
  have "take k (tr' @ us') = take k (tr @ us)" if "answers w' (elog n') (take k (tr @ us))" "k \<le> length (tr @ us)" for k
  proof (cases "k \<le> length tr")
    case True
    then have same: "take k tr' = take k tr" using p that by simp
    then have "k \<le> length tr'" using True by (metis length_take min.absorb_iff2 min_def)
    then show ?thesis using True same by simp
  next
    case False
    then have "answers w' (elog n') tr" "answers w' (elog n' @ tr) (take (k - length tr) us)"
      using that by (simp_all add: answers_append)
    then show ?thesis using rest e that False by simp
  qed
  moreover have "tr' @ us' = tr @ us \<and> fst ?r' = fst ?r \<and> stale (snd ?r') = stale (snd ?r)"
    if "answers w' (elog n') (tr @ us)"
    using that rest e by (simp add: answers_append)
  ultimately show ?thesis
    unfolding replays_run_def
    by (intro exI [of _ "tr @ us"] exI [of _ "tr' @ us'"]) (simp add: m us us' a)
qed

lemma replays_bind [replay_rules]:
  assumes "replays m" and "\<And>x. replays (\<lambda>w. f w x)"
  shows "replays (\<lambda>w. State_Monad.bind (m w) (f w))"
  unfolding replays_def
proof (intro allI impI)
  fix w w' :: outside and n n' :: mnode
  assume s: "stale n = stale n'"
  obtain x n1 x' n1' where "run_state (m w) n = (x, n1)" "run_state (m w') n' = (x', n1')" by fastforce
  then show "replays_run w' n n' (State_Monad.bind (m w) (f w)) (State_Monad.bind (m w') (f w'))"
    by (rule replays_run_bind) (use assms s replays_log [OF assms(2)] in \<open>simp_all add: replays_def\<close>)
qed

lemma replays_try [replay_rules]:
  assumes "replays m" and "\<And>x. replays (\<lambda>w. f w x)"
  shows "replays (\<lambda>w. try_do (m w) (f w))"
  unfolding try_do_def
proof (rule replays_bind [OF assms(1)])
  fix r
  show "replays (\<lambda>w. case r of Inl e \<Rightarrow> fail e | Inr x \<Rightarrow> f w x)"
    using assms(2) replays_fail by (cases r) simp_all
qed

lemma replays_finally [replay_rules]:
  "replays m \<Longrightarrow> replays g \<Longrightarrow> replays (\<lambda>w. finally_do (m w) (g w))"
  unfolding finally_do_def by (intro replay_rules)

lemma replays_if [replay_rules]:
  "replays m \<Longrightarrow> replays m' \<Longrightarrow> replays (\<lambda>w. if c then m w else m' w)"
  by (cases c) simp_all

lemma replays_case_sum [replay_rules]:
  "(\<And>e. replays (\<lambda>w. f w e)) \<Longrightarrow> (\<And>x. replays (\<lambda>w. g w x)) \<Longrightarrow>
     replays (\<lambda>w. case r of Inl e \<Rightarrow> f w e | Inr x \<Rightarrow> g w x)"
  by (cases r) simp_all

lemma replays_case_option [replay_rules]:
  "replays f \<Longrightarrow> (\<And>x. replays (\<lambda>w. g w x)) \<Longrightarrow>
     replays (\<lambda>w. case r of None \<Rightarrow> f w | Some x \<Rightarrow> g w x)"
  by (cases r) simp_all

lemma replays_ignore [replay_rules]: "replays (\<lambda>w. ignore (b\<lparr>outside := w\<rparr>) c)"
  unfolding ignore_def by (intro replay_rules)

lemma replays_must [replay_rules]: "replays (\<lambda>w. must (b\<lparr>outside := w\<rparr>) c wrap)"
  unfolding must_def by (intro replay_rules)

lemma replays_logged [replay_rules]: "replays m \<Longrightarrow> replays (\<lambda>w. logged (m w))"
  unfolding logged_def by (intro replay_rules)

lemma replays_probe [replay_rules]: "replays (\<lambda>w. probe (b\<lparr>outside := w\<rparr>) p)"
  unfolding probe_def by (intro replay_rules)

section \<open>The operations\<close>

lemma other_fields:
  "useSandbox (b\<lparr>outside := w\<rparr>) = useSandbox b" "sealControl (b\<lparr>outside := w\<rparr>) = sealControl b"
  "stateDir (b\<lparr>outside := w\<rparr>) = stateDir b"
  by simp_all

lemma replays_serving [replay_rules]: "replays (\<lambda>w. serving (b\<lparr>outside := w\<rparr>) t)"
  unfolding serving_def sealed_def other_fields by (intro replay_rules)

lemma replays_daemonCommand [replay_rules]: "replays (\<lambda>w. daemonCommand (b\<lparr>outside := w\<rparr>) st)"
  unfolding daemonCommand_def
proof (intro replay_rules)
  have c: "replays (\<lambda>w. case r of Failed e \<Rightarrow> fail (External e) | Command cmd \<Rightarrow> ok cmd | _ \<Rightarrow> fail NoCommand)"
    for r by (cases r) (simp_all add: replay_rules)
  have f: "replays (\<lambda>w. case r of
        Failed e \<Rightarrow> fail (External e)
      | Found bin \<Rightarrow>
          do { r \<leftarrow> ask (b\<lparr>outside := w\<rparr>) (SandboxCommand (vs_Target st) sandboxTarget (Branches st) (bin # Argv st));
               case r of Failed e \<Rightarrow> fail (External e) | Command cmd \<Rightarrow> ok cmd | _ \<Rightarrow> fail NoCommand }
      | _ \<Rightarrow> fail NoCommand)" for r
    by (cases r) (simp_all add: replay_rules c)
  show "replays (\<lambda>w. case r of
        Failed e \<Rightarrow> fail (External e)
      | Found bin \<Rightarrow>
          if Branches st = [] then ok (bin # Argv st)
          else do {
            r \<leftarrow> ask (b\<lparr>outside := w\<rparr>) (EvalSymlinks bin);
            case r of
              Failed e \<Rightarrow> fail (External e)
            | Found bin \<Rightarrow>
                do { r \<leftarrow> ask (b\<lparr>outside := w\<rparr>) (SandboxCommand (vs_Target st) sandboxTarget (Branches st) (bin # Argv st));
                     case r of Failed e \<Rightarrow> fail (External e) | Command cmd \<Rightarrow> ok cmd | _ \<Rightarrow> fail NoCommand }
            | _ \<Rightarrow> fail NoCommand }
      | _ \<Rightarrow> fail NoCommand)" for r
    by (cases r) (simp_all add: replay_rules f)
qed

lemma replays_startDaemon [replay_rules]: "replays (\<lambda>w. startDaemon (b\<lparr>outside := w\<rparr>) st)"
  unfolding startDaemon_def sealControlFile_def killDaemon_def Let_def other_fields
  by (intro replay_rules)

lemma replays_removeState [replay_rules]: "replays (\<lambda>w. removeState (b\<lparr>outside := w\<rparr>) v)"
  unfolding removeState_def other_fields by (intro replay_rules)

lemma replays_mountUnion [replay_rules]: "replays (\<lambda>w. mergerfs_mountUnion (b\<lparr>outside := w\<rparr>) spec)"
  unfolding mergerfs_mountUnion_def Let_def other_fields case_prod_beta
  by (intro replay_rules)

lemma replays_shareUnion [replay_rules]: "replays (\<lambda>w. shareUnion (b\<lparr>outside := w\<rparr>) v s t ro)"
  unfolding shareUnion_def Let_def by (intro replay_rules)

lemma replays_unmountUnion [replay_rules]: "replays (\<lambda>w. mergerfs_unmountUnion (b\<lparr>outside := w\<rparr>) v t)"
  unfolding mergerfs_unmountUnion_def by (intro replay_rules)

lemma replays_with_lock [replay_rules]:
  "replays m \<Longrightarrow> replays (\<lambda>w. with_lock (b\<lparr>outside := w\<rparr>) v (m w))"
  unfolding with_lock_def by (intro replay_rules)

lemma replays_repair_loop [replay_rules]: "replays (\<lambda>w. repair_loop (b\<lparr>outside := w\<rparr>) v pid mounts brs)"
proof -
  have "replays (\<lambda>w. repair_branch (b\<lparr>outside := w\<rparr>) v pid mounts br)" for br
    unfolding repair_branch_def Let_def by (intro replay_rules)
  then show ?thesis by (induction brs) (simp_all add: replay_rules)
qed

lemma replays_repairBranches [replay_rules]: "replays (\<lambda>w. repairBranches (b\<lparr>outside := w\<rparr>) st)"
  unfolding repairBranches_def daemonMountPoints_def Let_def by (intro replay_rules)

lemma replays_repair [replay_rules]:
  "replays (\<lambda>w. remountUnion (b\<lparr>outside := w\<rparr>) st)" "replays (\<lambda>w. rebindShared (b\<lparr>outside := w\<rparr>) st)"
  unfolding remountUnion_def rebindShared_def by (intro replay_rules)+

lemma replays_reconcile [replay_rules]: "replays (\<lambda>w. reconcile (b\<lparr>outside := w\<rparr>) v)"
  unfolding reconcile_def
proof (intro replay_rules)
  have s: "replays (\<lambda>w. repair_action (b\<lparr>outside := w\<rparr>) v st p)" for p st
    by (cases "fst p") (simp_all add: replay_rules)
  show "replays (\<lambda>w. case r of
        Loaded st \<Rightarrow> State_Monad.bind (probe (b\<lparr>outside := w\<rparr>) (vs_Target st))
          (\<lambda>p. repair_action (b\<lparr>outside := w\<rparr>) v st p)
      | _ \<Rightarrow> State_Monad.return ())" for r
    by (cases r) (simp_all add: replay_rules s)
qed

end
