(* ===== verification/MergerfsConcurrent.thy ===== *)
theory MergerfsConcurrent
  imports Schedule MergerfsReplay
begin

text \<open>
  The gRPC server runs every request in its own goroutine, and the supervisor repairs in another: the
  operations of the mergerfs backend side by side. Their calls interleave in any way the locks of the
  volumes allow.
\<close>

section \<open>Operations\<close>

text \<open>The supervisor library, which starts the repair of a volume, holds the lock of the volume meanwhile.\<close>

datatype mergerfs_op =
    MountOp mount_spec
  | ShareOp string string string bool
  | UnmountOp string string
  | RepairOp string

fun op_volume :: "mergerfs_op \<Rightarrow> string" where
  "op_volume (MountOp spec) = VolumeID spec"
| "op_volume (ShareOp v source target ro) = v"
| "op_volume (UnmountOp v target) = v"
| "op_volume (RepairOp v) = v"

fun perform :: "mergerfsBackend \<Rightarrow> mergerfs_op \<Rightarrow> (mnode, unit) state" where
  "perform b (MountOp spec) = logged (Mount (mergerfs_backend b) spec)"
| "perform b (ShareOp v source target ro) = logged (Share (mergerfs_backend b) v source target ro)"
| "perform b (UnmountOp v target) = logged (Unmount (mergerfs_backend b) v target)"
| "perform b (RepairOp v) =
     logged (with_lock b v (State_Monad.bind (reconcile b v) (\<lambda>_. ok ())))"

text \<open>All calls of one run of an operation, whatever the world replies.\<close>

definition op_trace :: "mergerfsBackend \<Rightarrow> mergerfs_op \<Rightarrow> ext_log \<Rightarrow> bool" where
  "op_trace b p tr \<longleftrightarrow>
     (\<exists>w c. tr = elog (snd (run_state (perform (b\<lparr>outside := w\<rparr>) p) \<lparr>elog = [], stale = c\<rparr>)))"

fun lock_taken :: "ext \<times> reply \<Rightarrow> string option" where
  "lock_taken (LockVolume v, r) = Some v"
| "lock_taken (c, r) = None"

fun lock_given :: "ext \<times> reply \<Rightarrow> string option" where
  "lock_given (UnlockVolume v, r) = Some v"
| "lock_given (c, r) = None"

text \<open>A schedule of operations: each call is the next of the operation that makes it, and locks are locks.\<close>

definition concurrent :: "mergerfsBackend \<Rightarrow> (nat \<Rightarrow> mergerfs_op) \<Rightarrow> (ext \<times> reply) schedule \<Rightarrow> bool" where
  "concurrent b ops s \<longleftrightarrow>
     exclusive lock_taken lock_given s \<and>
     (\<forall>i. calls_of i s \<noteq> [] \<longrightarrow> (\<exists>full. op_trace b (ops i) full \<and> prefix (calls_of i s) full))"

section \<open>One operation at a time on each volume\<close>

lemma lock_free_reconcile: "lock_free (reconcile b v)"
proof -
  have [reasonable_rules]: "lock_free (repair_loop b u pid mounts brs)" for u pid mounts brs
    by (induction brs) (auto simp: repair_branch_def probe_def Let_def intro!: reasonable_rules)
  have repair: "lock_free (repairBranches b st)" "lock_free (remountUnion b st)" "lock_free (rebindShared b st)" for st
    unfolding repairBranches_def daemonMountPoints_def remountUnion_def rebindShared_def serving_def
      sealed_def probe_def Let_def
    by (intro reasonable_rules; simp)+
  have act: "lock_free (repair_action b v st p)" for st p
    by (cases "fst p") (auto intro!: reasonable_rules repair)
  have "lock_free (case r of Loaded st \<Rightarrow> State_Monad.bind (probe b (vs_Target st)) (\<lambda>p. repair_action b v st p)
       | _ \<Rightarrow> State_Monad.return ())" for r
  proof (cases r)
    case (Loaded st)
    have "lock_free (probe b (vs_Target st))" unfolding probe_def by (intro reasonable_rules) simp
    then show ?thesis unfolding Loaded reply.case by (intro reasonable_bind act)
  qed (simp_all add: reasonable_rules)
  then show ?thesis unfolding reconcile_def by (intro reasonable_rules) simp_all
qed

lemma not_locking: "\<not> locking c \<Longrightarrow> lock_taken (c, r) = None \<and> lock_given (c, r) = None"
  by (cases c) simp_all

lemma bracketed_perform: "bracketed (op_volume p) n (perform b p)"
proof -
  have "bracketed v n (logged m)" if "bracketed v n m" for v and m :: "unit mop"
    using that by (auto simp: bracketed_def logged_def case_prod_beta)
  moreover have "bracketed v n (with_lock b v (State_Monad.bind (reconcile b v) (\<lambda>_. ok ())))" for v
    by (intro bracketed_with_lock reasonable_rules lock_free_reconcile)
  ultimately show ?thesis
    by (cases p) (simp_all add: mergerfs_backend_def bracketed_with_lock lock_free_operations)
qed

interpretation mergerfs_locks: locked_operations op_volume lock_taken lock_given "op_trace b" for b
proof
  fix p tr assume "op_trace b p tr"
  then obtain w c where tr: "tr = elog (snd (run_state (perform (b\<lparr>outside := w\<rparr>) p) \<lparr>elog = [], stale = c\<rparr>))"
    by (auto simp: op_trace_def)
  obtain r mid r' where "tr = [(LockVolume (op_volume p), r)] @ mid @ [(UnlockVolume (op_volume p), r')]"
    "\<forall>(c, x) \<in> set mid. \<not> locking c"
    using bracketed_perform [of p "\<lparr>elog = [], stale = c\<rparr>" "b\<lparr>outside := w\<rparr>"] unfolding bracketed_def tr by auto
  moreover from this have "list_all (\<lambda>c. lock_taken c = None \<and> lock_given c = None) mid"
    using not_locking by (fastforce simp: list_all_iff)
  ultimately show "\<exists>a mid z. tr = a # mid @ [z] \<and> lock_taken a = Some (op_volume p) \<and>
      lock_given z = Some (op_volume p) \<and> lock_given a = None \<and> lock_taken z = None \<and>
      list_all (\<lambda>c. lock_taken c = None \<and> lock_given c = None) mid"
    by auto
qed

lemma concurrent_scheduled: "concurrent b ops s \<longleftrightarrow> mergerfs_locks.scheduled b ops s"
  by (simp add: concurrent_def mergerfs_locks.scheduled_def mergerfs_locks.partly_def)

text \<open>The calls of a schedule that operations on a volume make.\<close>

definition on_volume :: "(nat \<Rightarrow> mergerfs_op) \<Rightarrow> string \<Rightarrow> (ext \<times> reply) schedule \<Rightarrow> (ext \<times> reply) schedule" where
  "on_volume ops v s = filter (\<lambda>x. op_volume (ops (fst x)) = v) s"

text \<open>C20: However the operations of the backend interleave, those on one volume, repairs included, happen one
  after the other: each has made all its calls before the next makes its first.\<close>

theorem operations_serialise:
  assumes "concurrent b ops s"
  shows "\<exists>order. distinct order \<and> set order = {i. op_volume (ops i) = v \<and> calls_of i s \<noteq> []} \<and>
    on_volume ops v s = concat (map (\<lambda>i. map (Pair i) (calls_of i s)) order) \<and>
    list_all (\<lambda>i. op_trace b (ops i) (calls_of i s)) (butlast order)"
proof -
  obtain order where "mergerfs_locks.serial b ops s v order"
    using mergerfs_locks.schedules_serialise assms unfolding concurrent_scheduled by blast
  then show ?thesis
    unfolding mergerfs_locks.serial_def on_volume_def
    by (auto simp: list_all_iff split: option.splits dest: in_set_butlastD intro!: exI [of _ order])
qed

end
