(* ===== verification/MergerfsNode.thy ===== *)
theory MergerfsNode
  imports MergerfsLifecycle
begin

text \<open>
  A node over many operations: the state files and the daemons that result from the calls of the
  backend, through mounts, shares, unmounts, repair passes, and a driver that dies at any moment and
  starts again.
\<close>

section \<open>What the calls leave on the node\<close>

text \<open>\<open>running\<close> holds the daemons that may be running, with their targets: a daemon counts from its start
  until its mount was taken down, it was killed or had exited, its scope was stopped, or its target
  was gone. A state file is written or removed by a call that succeeded, and left alone otherwise.\<close>

record node_view =
  saved :: "string \<Rightarrow> volumeState option"
  running :: "string \<Rightarrow> string option"

definition empty_view :: node_view where
  "empty_view = \<lparr>saved = (\<lambda>v. None), running = (\<lambda>v. None)\<rparr>"

definition without_target :: "string \<Rightarrow> (string \<Rightarrow> string option) \<Rightarrow> string \<Rightarrow> string option" where
  "without_target t m = (\<lambda>v. if m v = Some t then None else m v)"

fun observe :: "node_view \<Rightarrow> ext \<times> reply \<Rightarrow> node_view" where
  "observe a (SaveState v st, r) = (if failed r = None then a\<lparr>saved := (saved a)(v := Some st)\<rparr> else a)"
| "observe a (RemoveStateFile v, r) = (if failed r = None then a\<lparr>saved := (saved a)(v := None)\<rparr> else a)"
| "observe a (StartDaemon v cmd t, r) =
     (if failed r = None then a\<lparr>running := (running a)(v := Some t)\<rparr> else a)"
| "observe a (UnmountFuse t, r) =
     (if failed r = None then a\<lparr>running := without_target t (running a)\<rparr> else a)"
| "observe a (ProbeMount t, r) =
     (case r of
        Probed (Gone, e) \<Rightarrow> if e = Some ErrHung then a else a\<lparr>running := without_target t (running a)\<rparr>
      | _ \<Rightarrow> a)"
| "observe a (KillGroup v, r) = a\<lparr>running := (running a)(v := None)\<rparr>"
| "observe a (DaemonExited v, r) = (if r = Answer True then a\<lparr>running := (running a)(v := None)\<rparr> else a)"
| "observe a (StopScope v, r) = (if failed r = None then a\<lparr>running := (running a)(v := None)\<rparr> else a)"
| "observe a (c, r) = a"

definition view :: "ext_log \<Rightarrow> node_view" where
  "view log = foldl observe empty_view log"

lemma view_simps [simp]: "view [] = empty_view" "view (log @ [x]) = observe (view log) x"
  by (simp_all add: view_def)

text \<open>Every daemon has a state file that names its volume and its target.\<close>

definition accounted :: "node_view \<Rightarrow> bool" where
  "accounted a \<longleftrightarrow>
     (\<forall>v t. running a v = Some t \<longrightarrow> (\<exists>st. saved a v = Some st \<and> vs_Target st = t \<and> SharedFrom st = [])) \<and>
     (\<forall>v st. saved a v = Some st \<longrightarrow> vs_VolumeID st = v)"

definition always_accounted :: "ext_log \<Rightarrow> bool" where
  "always_accounted log \<longleftrightarrow> (\<forall>k. accounted (view (take k log)))"

lemma accounted_empty [simp]: "accounted empty_view"
  by (simp add: accounted_def empty_view_def)

lemma always_accounted_snoc:
  "always_accounted (log @ [x]) \<longleftrightarrow> always_accounted log \<and> accounted (view (log @ [x]))"
proof
  assume *: "always_accounted (log @ [x])"
  have "accounted (view (take k log))" for k
    using *[unfolded always_accounted_def, rule_format, of "min k (length log)"] by (simp add: min_def split: if_splits)
  moreover have "accounted (view (log @ [x]))"
    using *[unfolded always_accounted_def, rule_format, of "Suc (length log)"] by simp
  ultimately show "always_accounted log \<and> accounted (view (log @ [x]))" by (simp add: always_accounted_def)
next
  assume *: "always_accounted log \<and> accounted (view (log @ [x]))"
  have "accounted (view (take k (log @ [x])))" for k
  proof (cases "k \<le> length log")
    case True
    then show ?thesis using * by (simp add: always_accounted_def)
  next
    case False
    then have "take k (log @ [x]) = log @ [x]" by (intro take_all) simp
    then show ?thesis using * by simp
  qed
  then show "always_accounted (log @ [x])" by (simp add: always_accounted_def)
qed

section \<open>Proving programs\<close>

definition holds :: "(node_view \<Rightarrow> bool) \<Rightarrow> mnode \<Rightarrow> bool" where
  "holds P n \<longleftrightarrow> always_accounted (elog n) \<and> P (view (elog n))"

lemma hoare_ask:
  assumes "\<And>a r. accounted a \<Longrightarrow> P a \<Longrightarrow> accounted (observe a (c, r)) \<and> Q r (observe a (c, r))"
  shows "hoare (holds P) (ask b c) (\<lambda>r. holds (Q r))"
proof -
  have "accounted (view log)" if "always_accounted log" for log
    using that[unfolded always_accounted_def, rule_format, of "length log"] by simp
  then show ?thesis using assms by (auto simp: hoare_def holds_def always_accounted_snoc)
qed

text \<open>Most calls leave the state files alone and start no daemon; what they keep.\<close>

fun harmless :: "ext \<Rightarrow> bool" where
  "harmless (SaveState v st) = False"
| "harmless (RemoveStateFile v) = False"
| "harmless (StartDaemon v cmd t) = False"
| "harmless c = True"

definition stable :: "(node_view \<Rightarrow> bool) \<Rightarrow> bool" where
  "stable P \<longleftrightarrow> (\<forall>a a'. P a \<longrightarrow> saved a' = saved a \<longrightarrow>
     (\<forall>v t. running a' v = Some t \<longrightarrow> running a v = Some t) \<longrightarrow> P a')"

lemma harmless_shrinks:
  assumes "harmless c"
  shows "saved (observe a (c, r)) = saved a"
    and "running (observe a (c, r)) v = Some t \<Longrightarrow> running a v = Some t"
  using assms
  by (induction a "(c, r)" rule: observe.induct)
    (auto simp: without_target_def split: reply.splits prod.splits fuse_state.splits if_splits)

lemma stable_accounted: "stable accounted"
  by (fastforce simp: stable_def accounted_def)

lemma stable_simps:
  "stable (\<lambda>a. True)" "stable (\<lambda>a. running a v = None)" "stable (\<lambda>a. saved a v = x)"
  "stable P \<Longrightarrow> stable Q \<Longrightarrow> stable (\<lambda>a. P a \<and> Q a)"
  "stable (\<lambda>a. running a v = None \<or> running a v = Some t)"
  by (auto simp: stable_def) (metis option.exhaust)+

lemma keeps_ask:
  assumes "harmless c" and "stable P"
  shows "keeps (holds P) (ask b c)"
proof -
  have "accounted (observe a (c, r)) \<and> P (observe a (c, r))" if "accounted a" "P a" for a r
    using assms that stable_accounted harmless_shrinks [OF assms(1)] unfolding stable_def by metis
  then show ?thesis unfolding keeps_def by (intro hoare_ask) blast
qed

lemma keeps_ignore: "harmless c \<Longrightarrow> stable P \<Longrightarrow> keeps (holds P) (ignore b c)"
  unfolding ignore_def by (intro keeps_rules keeps_ask)

lemma keeps_must: "harmless c \<Longrightarrow> stable P \<Longrightarrow> keeps (holds P) (must b c w)"
  unfolding must_def by (intro keeps_rules keeps_ask)

lemma keeps_quiet_stale: "keeps (holds P) (update_stale f)"
  by (simp add: keeps_def hoare_def holds_def)

lemma keeps_logged: "keeps P m \<Longrightarrow> keeps P (logged m)"
  unfolding logged_def by (intro keeps_rules)

lemma hoare_keeps: "keeps (holds P) m \<Longrightarrow> hoare (holds P) m (\<lambda>_. holds P)"
  by (simp add: keeps_def)

lemma hoare_okI: "(\<And>n. P n \<Longrightarrow> Q (Inr x) n) \<Longrightarrow> hoare P (ok x) Q"
  by (simp add: hoare_def)

lemma hoare_failI: "(\<And>n. P n \<Longrightarrow> Q (Inl e) n) \<Longrightarrow> hoare P (fail e) Q"
  by (simp add: hoare_def)

lemma hoare_logged: "hoare P m (\<lambda>_. Q) \<Longrightarrow> hoare P (logged m) (\<lambda>_. Q)"
  unfolding logged_def by (rule hoare_bind) (auto simp: hoare_def)

lemma hoare_must:
  assumes "\<And>a r. accounted a \<Longrightarrow> P a \<Longrightarrow> failed r = None \<Longrightarrow> accounted (observe a (c, r)) \<and> Q (observe a (c, r))"
    and "\<And>a r e. accounted a \<Longrightarrow> P a \<Longrightarrow> failed r = Some e \<Longrightarrow> accounted (observe a (c, r)) \<and> R (observe a (c, r))"
  shows "hoare (holds P) (must b c w) (\<lambda>r. holds (case r of Inr _ \<Rightarrow> Q | Inl _ \<Rightarrow> R))"
  unfolding must_def
  by (rule hoare_bind, rule hoare_ask [where Q = "\<lambda>r. case failed r of None \<Rightarrow> Q | Some _ \<Rightarrow> R"])
    (auto simp: assms hoare_def split: option.splits)

lemma hoare_must_try:
  assumes "hoare (holds P) (must b c w) (\<lambda>r. holds (case r of Inr _ \<Rightarrow> Q | Inl _ \<Rightarrow> R))"
    and "\<And>e n. holds R n \<Longrightarrow> S (Inl e) n" and "hoare (holds Q) (f ()) S"
  shows "hoare (holds P) (try_do (must b c w) f) S"
  by (rule hoare_try [OF assms(1)]) (use assms(2,3) in auto)

section \<open>The programs of the backend\<close>

lemma keeps_daemonCommand: "stable P \<Longrightarrow> keeps (holds P) (daemonCommand b st)"
  unfolding daemonCommand_def
  by (intro keeps_rules keeps_ask) (auto split: reply.splits intro!: keeps_rules keeps_ask)

lemma keeps_seal: "stable P \<Longrightarrow> keeps (holds P) (sealControlFile b t)"
  unfolding sealControlFile_def Let_def by (intro keeps_rules keeps_must) simp_all

lemma holds_mono: "holds P n \<Longrightarrow> (\<And>a. P a \<Longrightarrow> Q a) \<Longrightarrow> holds Q n"
  by (simp add: holds_def)

lemma accounted_shrink:
  assumes "accounted a" and "\<And>v t. running a' v = Some t \<Longrightarrow> running a v = Some t" and "saved a' = saved a"
  shows "accounted a'"
  using assms stable_accounted unfolding stable_def by blast

lemma accounted_forget: "accounted a \<Longrightarrow> accounted (a\<lparr>running := (running a)(v := None)\<rparr>)"
  by (rule accounted_shrink) (auto split: if_splits)

lemma accounted_without: "accounted a \<Longrightarrow> accounted (a\<lparr>running := without_target t (running a)\<rparr>)"
  by (rule accounted_shrink) (auto simp: without_target_def split: if_splits)

lemma kill_ends: "hoare (holds P) (killDaemon b v) (\<lambda>_. holds (\<lambda>a. running a v = None))"
proof -
  let ?R = "\<lambda>r a. r = Answer True \<longrightarrow> running a v = None"
  have kill: "hoare (holds R) (ignore b (KillGroup v)) (\<lambda>_. holds (\<lambda>a. running a v = None))" for R
    unfolding ignore_def
    by (rule hoare_bind, rule hoare_ask [where Q = "\<lambda>_ a. running a v = None"])
      (auto simp: accounted_forget hoare_def)
  show ?thesis
    unfolding killDaemon_def
    by (rule hoare_bind, rule hoare_ask [where Q = ?R])
      (auto simp: accounted_forget hoare_def [of _ "State_Monad.return ()"] holds_def intro!: hoare_if kill)
qed

lemma remove_accounted:
  "hoare (holds (\<lambda>a. running a v = None)) (removeState b v) (\<lambda>_. holds (\<lambda>a. True))"
proof -
  have "hoare (holds (\<lambda>a. running a v = None)) (must b (RemoveStateFile v) External)
      (\<lambda>r. holds (case r of Inr _ \<Rightarrow> \<lambda>a. True | Inl _ \<Rightarrow> \<lambda>a. True))"
    by (rule hoare_must) (auto simp: accounted_def)
  then have "hoare (holds (\<lambda>a. running a v = None)) (must b (RemoveStateFile v) External) (\<lambda>_. holds (\<lambda>a. True))"
    by (rule hoare_post) (simp split: sum.splits)
  then show ?thesis
    unfolding removeState_def
    by (rule hoare_bind [rotated]) (intro hoare_keeps keeps_ignore stable_simps, simp)
qed

lemma start_accounted:
  fixes st :: volumeState
  defines "v \<equiv> vs_VolumeID st"
  defines "P \<equiv> \<lambda>a. saved a v = Some st \<and> running a v = None"
  assumes "SharedFrom st = []"
  shows "hoare (holds P) (startDaemon b st) (\<lambda>r. holds (\<lambda>a. r = Inr () \<or> running a v = None))"
proof -
  let ?t = "vs_Target st"
  let ?S = "\<lambda>r. holds (\<lambda>a. r = Inr () \<or> running a v = None)"
  have P: "stable P" unfolding P_def by (intro stable_simps)
  have PS: "holds P n \<Longrightarrow> ?S r n" for n and r :: "mergerfs_error + unit"
    by (erule holds_mono) (simp add: P_def)
  have start: "hoare (holds P) (must b (StartDaemon v cmd ?t) External)
      (\<lambda>r. holds (case r of Inr _ \<Rightarrow> \<lambda>a. True | Inl _ \<Rightarrow> P))" for cmd
    by (rule hoare_must) (auto simp: accounted_def P_def assms)
  have seal: "hoare (holds (\<lambda>a. True)) (sealControlFile b ?t) (\<lambda>_. holds (\<lambda>a. True))"
    by (intro hoare_keeps keeps_seal stable_simps)
  have undo: "hoare (holds (\<lambda>a. True))
      (do { _ \<leftarrow> ignore b (UnmountFuse ?t); _ \<leftarrow> killDaemon b v; fail e }) ?S" for e
    by (rule hoare_bind [OF hoare_keeps [OF keeps_ignore]], simp, rule stable_simps,
        rule hoare_bind [OF kill_ends]) (simp add: hoare_def)
  have body: "hoare (holds P)
      (try_do (must b (StartDaemon v cmd ?t) External) (\<lambda>_.
         if \<not> sealControl b then ok ()
         else do {
           r \<leftarrow> sealControlFile b ?t;
           case r of
             Inr _ \<Rightarrow> ok ()
           | Inl e \<Rightarrow> do { _ \<leftarrow> ignore b (UnmountFuse ?t); _ \<leftarrow> killDaemon b v; fail e } })) ?S" for cmd
    by (rule hoare_must_try [OF start PS], assumption)
      (intro hoare_if hoare_bind [OF seal] hoare_case_sum undo hoare_okI, auto elim: holds_mono)
  have close: "hoare (?S r) (ignore b (CloseLog l)) (\<lambda>_. ?S r)" for l and r :: "mergerfs_error + unit"
    by (intro hoare_keeps keeps_ignore) (auto simp: stable_def intro: stable_simps)
  show ?thesis
    unfolding startDaemon_def v_def [symmetric]
    by (rule hoare_try [OF hoare_keeps [OF keeps_daemonCommand [OF P]]], erule PS,
        rule hoare_try [OF hoare_keeps [OF keeps_must [OF _ P]]], simp, erule PS,
        rule hoare_finally [OF body close])
qed

text \<open>A volume has at most the daemon of one mount: \<open>unused v\<close> before a mount and after an unmount.\<close>

abbreviation unused :: "string \<Rightarrow> node_view \<Rightarrow> bool" where
  "unused v a \<equiv> running a v = None"

lemma save_accounted:
  assumes "vs_VolumeID st = v"
  shows "hoare (holds (unused v)) (must b (SaveState v st) w)
    (\<lambda>r. holds (case r of Inr _ \<Rightarrow> \<lambda>a. saved a v = Some st \<and> unused v a | Inl _ \<Rightarrow> unused v))"
  by (rule hoare_must) (use assms in \<open>auto simp: accounted_def\<close>)

lemma remove_and_fail: "hoare (holds (unused v)) (do { _ \<leftarrow> removeState b v; fail e }) (\<lambda>_. holds (\<lambda>a. True))"
  by (rule hoare_bind [OF remove_accounted]) (simp add: hoare_def)

lemma hoare_True: "holds P n \<Longrightarrow> holds (\<lambda>a. True) n"
  by (erule holds_mono) simp

lemma mount_accounted:
  "hoare (holds (unused (VolumeID spec))) (mergerfs_mountUnion b spec) (\<lambda>_. holds (\<lambda>a. True))"
proof -
  let ?v = "VolumeID spec"
  obtain spec' branches where sb: "(if useSandbox b then sandboxed spec else (spec, [])) = (spec', branches)"
    by fastforce
  then have v: "VolumeID spec' = ?v" by (auto simp: sandboxed_def Let_def split: if_splits)
  have saved: "hoare (holds (\<lambda>a. saved a ?v = Some st \<and> unused ?v a))
      (do { r \<leftarrow> startDaemon b st;
            case r of Inr _ \<Rightarrow> ok () | Inl e \<Rightarrow> do { _ \<leftarrow> removeState b ?v; fail e } }) (\<lambda>_. holds (\<lambda>a. True))"
    if st: "vs_VolumeID st = ?v" "SharedFrom st = []" for st
  proof -
    have start: "hoare (holds (\<lambda>a. saved a ?v = Some st \<and> unused ?v a)) (startDaemon b st)
        (\<lambda>r. holds (\<lambda>a. r = Inr () \<or> unused ?v a))"
      using start_accounted [OF st(2), of b] by (simp add: st(1))
    have "hoare (holds (\<lambda>a. r = Inr () \<or> unused ?v a))
        (case r of Inr _ \<Rightarrow> ok () | Inl e \<Rightarrow> do { _ \<leftarrow> removeState b ?v; fail e }) (\<lambda>_. holds (\<lambda>a. True))"
      for r :: "mergerfs_error + unit"
      by (cases r) (auto intro!: hoare_okI remove_and_fail)
    then show ?thesis by (rule hoare_bind [OF start])
  qed
  have saving: "hoare (holds (unused ?v))
      (try_do (must b (SaveState ?v st) External) (\<lambda>_.
         do { r \<leftarrow> startDaemon b st;
              case r of Inr _ \<Rightarrow> ok () | Inl e \<Rightarrow> do { _ \<leftarrow> removeState b ?v; fail e } })) (\<lambda>_. holds (\<lambda>a. True))"
    if "vs_VolumeID st = ?v" "SharedFrom st = []" for st
    by (rule hoare_must_try [OF save_accounted [OF that(1)]], erule hoare_True, rule saved [OF that])
  show ?thesis
  proof (cases "buildArgv spec'")
    case (Inl e)
    then show ?thesis
      by (simp only: mergerfs_mountUnion_def sb Let_def prod.case sum.case) (rule hoare_failI, erule hoare_True)
  next
    case (Inr argv)
    show ?thesis
      by (simp only: mergerfs_mountUnion_def sb v Inr Let_def prod.case sum.case)
        (rule saving, simp_all add: blank_state_def)
  qed
qed

lemma share_accounted:
  "hoare (holds (unused v)) (shareUnion b v s t ro) (\<lambda>_. holds (\<lambda>a. True))"
proof -
  let ?st = "blank_state\<lparr>vs_VolumeID := v, vs_Target := t, SharedFrom := s, vs_ReadOnly := ro\<rparr>"
  have bind: "hoare (holds (\<lambda>a. saved a v = Some ?st \<and> unused v a))
      (do { r \<leftarrow> ask b (BindFuse s t ro);
            case failed r of
              None \<Rightarrow> ok ()
            | Some e \<Rightarrow> do { _ \<leftarrow> removeState b v; fail (External e) } }) (\<lambda>_. holds (\<lambda>a. True))"
    by (rule hoare_bind [OF hoare_post [OF hoare_keeps [OF keeps_ask]]], simp, intro stable_simps, erule holds_mono,
        erule conjunct2) (auto intro!: hoare_case_option hoare_okI remove_and_fail elim: hoare_True)
  show ?thesis
    unfolding shareUnion_def Let_def
    by (rule hoare_try [OF hoare_keeps [OF keeps_must]], simp, rule stable_simps, erule hoare_True,
        rule hoare_must_try [OF save_accounted], simp, erule hoare_True, rule bind)
qed

lemma unmount_accounted:
  "hoare (holds (\<lambda>a. unused v a \<or> running a v = Some t)) (mergerfs_unmountUnion b v t) (\<lambda>_. holds (\<lambda>a. True))"
proof -
  have unmount: "hoare (holds (\<lambda>a. unused v a \<or> running a v = Some t)) (must b (UnmountFuse t) External)
      (\<lambda>r. holds (case r of Inr _ \<Rightarrow> unused v | Inl _ \<Rightarrow> \<lambda>a. True))"
    by (rule hoare_must) (auto intro: accounted_without [unfolded without_target_def] simp: without_target_def)
  show ?thesis
    unfolding mergerfs_unmountUnion_def
    by (rule hoare_must_try [OF unmount], assumption,
        rule hoare_bind [OF hoare_keeps [OF keeps_ignore]], simp, rule stable_simps,
        rule hoare_bind [OF hoare_keeps [OF keeps_ignore]], simp, rule stable_simps, rule remove_accounted)
qed

lemma keeps_with_lock:
  assumes "hoare (holds P) m (\<lambda>_. holds (\<lambda>a. True))" and "stable P"
  shows "hoare (holds P) (with_lock b v m) (\<lambda>_. holds (\<lambda>a. True))"
  unfolding with_lock_def
  by (rule hoare_bind [OF hoare_keeps [OF keeps_ignore [OF _ assms(2)]]], simp,
      rule hoare_finally [OF assms(1) hoare_keeps [OF keeps_ignore]], simp, rule stable_simps)

section \<open>The repair pass\<close>

text \<open>The state store gives back what was saved last.\<close>

definition store_faithful :: "mergerfsBackend \<Rightarrow> bool" where
  "store_faithful b \<longleftrightarrow>
     (\<forall>log v st. outside b log (LoadState v) = Loaded st \<longrightarrow> saved (view log) v = Some st)"

lemma load_accounted:
  assumes "store_faithful b"
  shows "hoare (holds (\<lambda>a. True)) (ask b (LoadState v))
    (\<lambda>r. holds (\<lambda>a. \<forall>st. r = Loaded st \<longrightarrow> saved a v = Some st \<and> vs_VolumeID st = v))"
proof -
  have "accounted (view log)" if "always_accounted log" for log
    using that[unfolded always_accounted_def, rule_format, of "length log"] by simp
  then show ?thesis
    using assms unfolding hoare_def holds_def store_faithful_def
    by (fastforce simp: always_accounted_snoc accounted_def)
qed

lemma keeps_repairBranches:
  assumes "stable P"
  shows "keeps (holds P) (repairBranches b st)"
proof -
  have branch: "keeps (holds P) (repair_branch b v pid mounts br)" for v pid mounts br
    unfolding repair_branch_def Let_def probe_def
    by (intro keeps_rules keeps_ask keeps_ignore keeps_quiet_stale assms) simp_all
  have loop: "keeps (holds P) (repair_loop b v pid mounts brs)" for v pid mounts brs
    by (induction brs) (auto intro!: keeps_rules branch)
  show ?thesis
    unfolding repairBranches_def daemonMountPoints_def Let_def
    by (intro keeps_rules keeps_ask loop assms) simp_all
qed

lemma keeps_rebindShared: "keeps (holds (\<lambda>a. True)) (rebindShared b st)"
  unfolding rebindShared_def serving_def sealed_def probe_def
  by (intro keeps_rules keeps_logged keeps_ask keeps_ignore keeps_must stable_simps) simp_all

lemma remount_accounted:
  assumes "SharedFrom st = []" and "vs_VolumeID st = v"
  shows "hoare (holds (\<lambda>a. saved a v = Some st)) (remountUnion b st) (\<lambda>_. holds (\<lambda>a. True))"
proof -
  let ?P = "\<lambda>a. saved a v = Some st \<and> unused v a"
  have P: "stable ?P" by (intro stable_simps)
  have unmount: "hoare (holds (\<lambda>a. saved a v = Some st)) (must b (UnmountFuse (vs_Target st)) External)
      (\<lambda>r. holds (case r of Inr _ \<Rightarrow> ?P | Inl _ \<Rightarrow> \<lambda>a. True))"
  proof (rule hoare_must)
    fix a r assume a: "accounted a" "saved a v = Some st" "failed r = None"
    then have "running a v = None \<or> running a v = Some (vs_Target st)"
      unfolding accounted_def by (metis not_Some_eq option.inject)
    then show "accounted (observe a (UnmountFuse (vs_Target st), r)) \<and> ?P (observe a (UnmountFuse (vs_Target st), r))"
      using a accounted_without by (auto simp: without_target_def)
  qed simp
  have start: "hoare (holds ?P) (startDaemon b st) (\<lambda>_. holds (\<lambda>a. True))"
    using start_accounted [OF assms(1), of b] assms(2) by (auto elim: hoare_post hoare_True)
  show ?thesis
    unfolding remountUnion_def
    by (rule hoare_logged, rule hoare_must_try [OF unmount], assumption,
        rule hoare_bind [OF hoare_keeps [OF keeps_ignore [OF _ P]]], simp,
        rule hoare_try [OF hoare_keeps [OF keeps_must [OF _ P]]], simp add: assms(2), erule hoare_True, rule start)
qed

lemma gone_accounted:
  assumes "as_probe r = (Gone, e)" and "e \<noteq> Some ErrHung" and "accounted a" and "saved a v = Some st"
  shows "running (observe a (ProbeMount (vs_Target st), r)) v = None"
proof -
  have "r = Probed (Gone, e)" using assms(1) as_probe_iff by simp
  moreover have "running a v = None \<or> running a v = Some (vs_Target st)"
    using assms(3,4) unfolding accounted_def by (metis not_Some_eq option.inject)
  ultimately show ?thesis using assms(2) by (auto simp: without_target_def)
qed

lemma action_accounted:
  assumes v: "vs_VolumeID st = v"
  shows "hoare (holds (\<lambda>a. saved a v = Some st \<and> (fst p = Gone \<and> snd p \<noteq> Some ErrHung \<longrightarrow> unused v a)))
    (repair_action b v st p) (\<lambda>_. holds (\<lambda>a. True))"
proof -
  have R: "hoare (holds Q) (repairBranches b st) (\<lambda>_. holds (\<lambda>a. True))" for Q
    by (rule hoare_pre [OF hoare_keeps [OF keeps_repairBranches [OF stable_simps(1)]]]) (erule hoare_True)
  have S: "hoare (holds Q) (rebindShared b st) (\<lambda>_. holds (\<lambda>a. True))" for Q
    by (rule hoare_pre [OF hoare_keeps [OF keeps_rebindShared]]) (erule hoare_True)
  show ?thesis
  proof (cases "snd p = Some ErrHung")
    case True
    then show ?thesis by (simp add: R)
  next
    case False
    then show ?thesis
    proof (cases "fst p")
      case Gone
      then show ?thesis using False
        by (auto intro!: hoare_logged hoare_pre [OF remove_accounted] elim: holds_mono)
    next
      case Dead
      then show ?thesis using False v
        by (auto intro!: S hoare_pre [OF remount_accounted] elim: holds_mono)
    qed (use False R in \<open>auto simp: hoare_def elim: hoare_True\<close>)
  qed
qed

lemma probe_accounted:
  "hoare (holds (\<lambda>a. saved a v = Some st)) (ask b (ProbeMount (vs_Target st)))
     (\<lambda>r. holds (\<lambda>a. saved a v = Some st \<and>
        (fst (as_probe r) = Gone \<and> snd (as_probe r) \<noteq> Some ErrHung \<longrightarrow> unused v a)))"
proof (rule hoare_ask)
  fix a r assume a: "accounted a" "saved a v = Some st"
  let ?a = "observe a (ProbeMount (vs_Target st), r)"
  have "harmless (ProbeMount (vs_Target st))" by simp
  from a harmless_shrinks [OF this, of a r] have "accounted ?a \<and> saved ?a v = Some st"
    using accounted_shrink by metis
  then show "accounted ?a \<and> saved ?a v = Some st \<and>
      (fst (as_probe r) = Gone \<and> snd (as_probe r) \<noteq> Some ErrHung \<longrightarrow> unused v ?a)"
    using gone_accounted [OF _ _ a] by (metis prod.collapse)
qed

lemma reconcile_accounted:
  assumes "store_faithful b"
  shows "hoare (holds (\<lambda>a. True)) (reconcile b v) (\<lambda>_. holds (\<lambda>a. True))"
proof -
  have "hoare (holds (\<lambda>a. \<forall>st. r = Loaded st \<longrightarrow> saved a v = Some st \<and> vs_VolumeID st = v))
      (case r of Loaded st \<Rightarrow> State_Monad.bind (ask b (ProbeMount (vs_Target st))) (\<lambda>r. repair_action b v st (as_probe r))
       | _ \<Rightarrow> State_Monad.return ()) (\<lambda>_. holds (\<lambda>a. True))" for r
  proof (cases r)
    case (Loaded st)
    show ?thesis
    proof (cases "vs_VolumeID st = v")
      case True
      show ?thesis unfolding Loaded reply.case
        by (rule hoare_pre [OF hoare_bind [OF probe_accounted action_accounted [OF True]]]) (auto elim: holds_mono)
    next
      case False
      then show ?thesis unfolding Loaded by (auto simp: hoare_def holds_def)
    qed
  qed (auto simp: hoare_def elim: hoare_True)
  then show ?thesis
    unfolding reconcile_def run_probe_bind by (rule hoare_bind [OF load_accounted [OF assms]])
qed

section \<open>A node\<close>

text \<open>What can happen on a node: the driver mounts a volume that has no mount, shares a union with a
  volume that has none, unmounts a volume from its target, repairs, and dies. A driver that dies in
  the middle of an operation leaves a part of its log; the one that starts after it has empty
  counters.\<close>

inductive node_step :: "mergerfsBackend \<Rightarrow> mnode \<Rightarrow> mnode \<Rightarrow> bool" for b where
  mounts: "running (view (elog n)) (VolumeID spec) = None \<Longrightarrow>
    node_step b n (snd (run_state (Mount (mergerfs_backend b) spec) n))"
| shares: "running (view (elog n)) v = None \<Longrightarrow>
    node_step b n (snd (run_state (Share (mergerfs_backend b) v source target ro) n))"
| unmounts: "running (view (elog n)) v = None \<or> running (view (elog n)) v = Some target \<Longrightarrow>
    node_step b n (snd (run_state (Unmount (mergerfs_backend b) v target) n))"
| lists: "node_step b n (snd (run_state (ids b) n))"
| repairs: "node_step b n (snd (run_state (reconcile b v) n))"
| crashes: "node_step b n \<lparr>elog = take k (elog n), stale = []\<rparr>"

inductive node_reachable :: "mergerfsBackend \<Rightarrow> mnode \<Rightarrow> bool" for b where
  start: "node_reachable b \<lparr>elog = [], stale = []\<rparr>"
| step: "node_reachable b n \<Longrightarrow> node_step b n n' \<Longrightarrow> node_reachable b n'"

lemma always_accounted_take: "always_accounted log \<Longrightarrow> always_accounted (take k log)"
  by (simp add: always_accounted_def)

lemma hoare_elog:
  "hoare (holds P) m (\<lambda>_. holds (\<lambda>a. True)) \<Longrightarrow> always_accounted (elog n) \<Longrightarrow> P (view (elog n)) \<Longrightarrow>
     always_accounted (elog (snd (run_state m n)))"
  using hoare_run [of "holds P" m "\<lambda>_. holds (\<lambda>a. True)" n] by (simp add: holds_def)

lemma keeps_ids: "keeps (holds (\<lambda>a. True)) (ids b)"
  unfolding ids_def Let_def
  by (intro keeps_rules keeps_ask keeps_quiet_stale stable_simps) (auto intro!: keeps_rules keeps_quiet_stale split: prod.split)

lemma node_step_accounted:
  assumes "node_step b n n'" and "store_faithful b" and "always_accounted (elog n)"
  shows "always_accounted (elog n')"
  using assms(1)
proof cases
  case (mounts spec)
  then show ?thesis
    using hoare_elog [OF keeps_with_lock [OF mount_accounted] assms(3)] stable_simps
    by (simp add: mergerfs_backend_def)
next
  case (shares v source target ro)
  then show ?thesis
    using hoare_elog [OF keeps_with_lock [OF share_accounted] assms(3)] stable_simps
    by (simp add: mergerfs_backend_def)
next
  case (unmounts v target)
  then show ?thesis
    using hoare_elog [OF keeps_with_lock [OF unmount_accounted] assms(3)] stable_simps
    by (simp add: mergerfs_backend_def)
next
  case lists
  then show ?thesis using hoare_elog [OF hoare_keeps [OF keeps_ids] assms(3)] by simp
next
  case (repairs v)
  then show ?thesis using hoare_elog [OF reconcile_accounted [OF assms(2)] assms(3)] by simp
next
  case (crashes k)
  then show ?thesis using assms(3) by (simp add: always_accounted_take)
qed

lemma node_reachable_accounted:
  assumes "node_reachable b n" and "store_faithful b"
  shows "always_accounted (elog n)"
  using assms(1)
proof (induction rule: node_reachable.induct)
  case start
  show ?case by (simp add: always_accounted_def)
next
  case (step n n')
  then show ?case using node_step_accounted assms(2) by blast
qed

text \<open>No daemon is ever orphaned: at every moment of a node's life, in the middle of an operation
  and after a crash included, a daemon that may be running has a state file that names its volume and
  its target, so the next repair pass finds it. This holds for every order of mounts, shares,
  unmounts, repair passes and crashes, if the state store gives back what was saved.\<close>

theorem no_orphaned_daemon:
  assumes "store_faithful b" and "node_reachable b n"
    and "running (view (take k (elog n))) v = Some t"
  shows "\<exists>st. saved (view (take k (elog n))) v = Some st \<and> vs_VolumeID st = v \<and> vs_Target st = t \<and>
    SharedFrom st = []"
proof -
  have "accounted (view (take k (elog n)))"
    using node_reachable_accounted [OF assms(2,1)] by (simp add: always_accounted_def)
  then show ?thesis using assms(3) unfolding accounted_def by blast
qed

text \<open>A node with a store that remembers, and a mount that succeeds.\<close>

definition storing_world :: outside where
  "storing_world log c =
     (case c of
        LoadState v \<Rightarrow> (case saved (view log) v of Some st \<Rightarrow> Loaded st | None \<Rightarrow> Failed DoesNotExist)
      | LookPath f \<Rightarrow> Found ''/bin/mergerfs''
      | _ \<Rightarrow> Done)"

definition storing_backend :: mergerfsBackend where
  "storing_backend = \<lparr>outside = storing_world, useSandbox = False, sealControl = True, stateDir = ''/state''\<rparr>"

definition plain_mount :: mount_spec where
  "plain_mount = \<lparr>VolumeID = ''vol'', Target = ''/target'',
     Sources = [\<lparr>src_Path = ''/a'', src_Mode = ''RW''\<rparr>], Options = [], ReadOnly = False\<rparr>"

definition mounted_node :: mnode where
  "mounted_node = snd (run_state (Mount (mergerfs_backend storing_backend) plain_mount) \<lparr>elog = [], stale = []\<rparr>)"

lemma storing_backend_faithful: "store_faithful storing_backend"
  by (auto simp: store_faithful_def storing_backend_def storing_world_def split: option.splits)

theorem no_orphaned_daemon_witness:
  "running (view (elog mounted_node)) ''vol'' = Some ''/target'' \<and>
   (\<exists>st. saved (view (elog mounted_node)) ''vol'' = Some st \<and> vs_Target st = ''/target'')"
proof -
  have "running (view []) (VolumeID plain_mount) = None" by (simp add: empty_view_def)
  then have "node_step storing_backend \<lparr>elog = [], stale = []\<rparr> mounted_node"
    unfolding mounted_node_def by (intro node_step.mounts) simp
  then have r: "node_reachable storing_backend mounted_node"
    by (blast intro: node_reachable.intros)
  moreover have "running (view (elog mounted_node)) ''vol'' = Some ''/target''" by code_simp
  ultimately show ?thesis
    using no_orphaned_daemon [OF storing_backend_faithful r, of "length (elog mounted_node)" "''vol''" "''/target''"]
    by auto
qed

end
