(* ===== verification/MergerfsLives.thy ===== *)
theory MergerfsLives
  imports MergerfsConcurrent MergerfsNode
begin

text \<open>
  The lives of a node on which operations run side by side: drivers that start, work through a schedule and
  die at any call. Each volume only sees its own operations, and these come one after the other, so what
  holds for them in sequence holds for all of them at once.
\<close>

section \<open>What an operation touches\<close>

text \<open>The calls that write or read state files, or start daemons, are about the volume of the operation.\<close>

fun about :: "string \<Rightarrow> ext \<Rightarrow> bool" where
  "about v (SaveState u st) = (u = v \<and> vs_VolumeID st = v)"
| "about v (RemoveStateFile u) = (u = v)"
| "about v (LoadState u) = (u = v)"
| "about v (StartDaemon u cmd t) = (u = v)"
| "about v c = True"

text \<open>A repair starts the daemon of the volume its state file names.\<close>

definition mine :: "string \<Rightarrow> ext_log \<Rightarrow> ext \<Rightarrow> bool" where
  "mine v log c \<longleftrightarrow> about v c \<or>
     (\<exists>u cmd t. c = StartDaemon u cmd t) \<and> (\<exists>st. (LoadState v, Loaded st) \<in> set log \<and> vs_VolumeID st \<noteq> v)"

abbreviation own :: "string \<Rightarrow> (ext \<times> reply) set \<Rightarrow> (mnode, 'a) state \<Rightarrow> bool" where
  "own v \<equiv> reasonable (mine v)"

lemma may_own: "about v c \<Longrightarrow> allowed_call (mine v) F c"
  by (simp add: allowed_call_def mine_def)

lemma own_daemonCommand [reasonable_rules]: "own v F (daemonCommand b st)"
  unfolding daemonCommand_def by (intro reasonable_rules) (simp_all add: may_own)

lemma own_startDaemon:
  assumes "vs_VolumeID st = v \<or> (LoadState v, Loaded st) \<in> F"
  shows "own v F (startDaemon b st)"
proof -
  have "allowed_call (mine v) F (StartDaemon (vs_VolumeID st) cmd t)" for cmd t
    using assms by (auto simp: allowed_call_def mine_def)
  then show ?thesis
    unfolding startDaemon_def sealControlFile_def killDaemon_def Let_def
    by (intro reasonable_rules) (simp_all add: may_own)
qed

lemma own_removeState [reasonable_rules]: "own v F (removeState b v)"
  unfolding removeState_def by (intro reasonable_rules) (simp_all add: may_own)

lemma own_operations:
  "own (VolumeID spec) {} (mergerfs_mountUnion b spec)"
  "own v {} (shareUnion b v s t ro)"
  "own v {} (mergerfs_unmountUnion b v t)"
proof -
  obtain spec' branches where sb: "(if useSandbox b then sandboxed spec else (spec, [])) = (spec', branches)"
    by fastforce
  then have v: "VolumeID spec' = VolumeID spec" by (auto simp: sandboxed_def Let_def split: if_splits)
  show "own (VolumeID spec) {} (mergerfs_mountUnion b spec)"
    unfolding mergerfs_mountUnion_def sb v Let_def prod.case
    by (intro reasonable_rules own_startDaemon) (simp_all add: blank_state_def may_own)
qed (unfold shareUnion_def mergerfs_unmountUnion_def Let_def, (intro reasonable_rules; simp add: may_own)+)

lemma own_reconcile: "own v {} (reconcile b v)"
proof -
  have [reasonable_rules]: "own v F (repair_loop b u pid mounts brs)" for F u pid mounts brs
    by (induction brs) (auto simp: repair_branch_def probe_def Let_def intro!: reasonable_rules may_own)
  have repair: "own v F (repairBranches b st)" "own v F (rebindShared b st)" for F st
    unfolding repairBranches_def daemonMountPoints_def rebindShared_def serving_def sealed_def probe_def Let_def
    by (intro reasonable_rules; simp add: may_own)+
  have remount: "own v F (remountUnion b st)" if "(LoadState v, Loaded st) \<in> F" for F st
    unfolding remountUnion_def by (intro reasonable_rules own_startDaemon disjI2 that) (simp_all add: may_own)
  have act: "own v F (repair_action b v st p)" if "(LoadState v, Loaded st) \<in> F" for F st and p :: probe_result
    by (cases "fst p") (auto intro!: reasonable_rules repair remount that)
  have "own v {(LoadState v, r)} (case r of Loaded st \<Rightarrow> State_Monad.bind (probe b (vs_Target st)) (\<lambda>p. repair_action b v st p)
       | _ \<Rightarrow> State_Monad.return ())" for r
  proof (cases r)
    case (Loaded st)
    have "own v F (probe b (vs_Target st))" for F unfolding probe_def by (intro reasonable_rules) (simp add: may_own)
    then show ?thesis unfolding Loaded reply.case by (intro reasonable_bind act) simp_all
  qed (simp_all add: reasonable_rules)
  then show ?thesis unfolding reconcile_def by (intro reasonable_ask_bind may_own) simp_all
qed

lemma own_perform: "own (op_volume p) {} (perform b p)"
proof -
  have lock: "own v {} (with_lock b v m)" if "own v {} m" for v m
    unfolding with_lock_def by (intro reasonable_rules that) (simp_all add: may_own)
  show ?thesis
  proof (cases p)
    case (RepairOp v)
    show ?thesis unfolding RepairOp perform.simps op_volume.simps
      by (intro reasonable_logged lock reasonable_rules own_reconcile)
  qed (simp_all add: mergerfs_backend_def reasonable_logged lock own_operations)
qed

lemma reasoned_split: "reasoned J before (xs @ (c, r) # ys) \<Longrightarrow> J (before @ xs) c"
  by (induction J before xs rule: reasoned.induct) auto

lemma own_trace:
  assumes "op_trace b p (xs @ (c, r) # ys)"
  shows "mine (op_volume p) xs c"
proof -
  obtain w k where tr: "xs @ (c, r) # ys = elog (snd (run_state (perform (b\<lparr>outside := w\<rparr>) p) \<lparr>elog = [], stale = k\<rparr>))"
    using assms by (auto simp: op_trace_def)
  have h: "hoare (traced (mine (op_volume p)) [] {}) (perform (b\<lparr>outside := w\<rparr>) p) (\<lambda>_. traced (mine (op_volume p)) [] {})"
    using own_perform unfolding reasonable_def by blast
  have "traced (mine (op_volume p)) [] {} (snd (run_state (perform (b\<lparr>outside := w\<rparr>) p) \<lparr>elog = [], stale = k\<rparr>))"
    by (rule hoare_run [OF h]) (simp add: traced_def)
  then have "reasoned (mine (op_volume p)) [] (xs @ (c, r) # ys)" by (simp add: traced_def flip: tr)
  then show ?thesis using reasoned_split by force
qed

lemma own_concurrent:
  assumes "concurrent b ops (pre @ (i, (c, r)) # post)"
  shows "mine (op_volume (ops i)) (calls_of i pre) c"
proof -
  have "calls_of i (pre @ (i, (c, r)) # post) \<noteq> []" by simp
  then obtain full where "op_trace b (ops i) full" "prefix (calls_of i (pre @ (i, (c, r)) # post)) full"
    using assms unfolding concurrent_def by blast
  then show ?thesis by (auto simp: prefix_def intro: own_trace)
qed

section \<open>The lives of a node\<close>

text \<open>The state store gives back what was saved last, and an operation on a volume starts when the volume is
  in the state the caller expects: a mount and a share when no daemon is left from the operations on the
  volume so far, an unmount with the target of the daemon.\<close>

fun load_true :: "node_view \<Rightarrow> ext \<times> reply \<Rightarrow> bool" where
  "load_true a (LoadState v, Loaded st) = (saved a v = Some st)"
| "load_true a x = True"

fun may_start :: "mergerfs_op \<Rightarrow> node_view \<Rightarrow> bool" where
  "may_start (MountOp spec) a = (running a (VolumeID spec) = None)"
| "may_start (ShareOp v source target ro) a = (running a v = None)"
| "may_start (UnmountOp v target) a = (running a v = None \<or> running a v = Some target)"
| "may_start (RepairOp v) a = True"

definition truthful_loads :: "ext_log \<Rightarrow> (ext \<times> reply) schedule \<Rightarrow> bool" where
  "truthful_loads log s \<longleftrightarrow>
     list_all (\<lambda>k. load_true (view (log @ map snd (take k s))) (snd (s ! k))) [0..<length s]"

definition well_timed :: "ext_log \<Rightarrow> (nat \<Rightarrow> mergerfs_op) \<Rightarrow> (ext \<times> reply) schedule \<Rightarrow> bool" where
  "well_timed log ops s \<longleftrightarrow>
     list_all (\<lambda>k. let i = fst (s ! k) in
         calls_of i (take k s) \<noteq> [] \<or>
         may_start (ops i) (view (log @ map snd (on_volume ops (op_volume (ops i)) (take k s))))) [0..<length s]"

text \<open>A driver lives through a schedule, which may end at any call, and the next one starts with what the
  node has then. The log of the node at any moment of its lives:\<close>

inductive node_lives :: "mergerfsBackend \<Rightarrow> ext_log \<Rightarrow> bool" for b where
  first: "node_lives b []"
| life: "node_lives b log \<Longrightarrow> concurrent b ops s \<Longrightarrow> truthful_loads log s \<Longrightarrow> well_timed log ops s \<Longrightarrow>
    node_lives b (log @ map snd s)"

lemma truthful_loadsD:
  assumes "truthful_loads log (pre @ (i, x) # post)"
  shows "load_true (view (log @ map snd pre)) x"
proof -
  have "list_all (\<lambda>k. load_true (view (log @ map snd (take k (pre @ (i, x) # post)))) (snd ((pre @ (i, x) # post) ! k)))
      [0..<length (pre @ (i, x) # post)]"
    using assms by (simp only: truthful_loads_def)
  then have "load_true (view (log @ map snd (take (length pre) (pre @ (i, x) # post)))) (snd ((pre @ (i, x) # post) ! length pre))"
    by (simp only: list_all_iff) (auto dest!: bspec [of _ _ "length pre"])
  then show ?thesis by simp
qed

lemma well_timedD:
  assumes "well_timed log ops (pre @ (i, x) # post)" and "calls_of i pre = []"
  shows "may_start (ops i) (view (log @ map snd (on_volume ops (op_volume (ops i)) pre)))"
proof -
  let ?s = "pre @ (i, x) # post" and ?k = "length pre"
  have "let i = fst (?s ! ?k) in calls_of i (take ?k ?s) \<noteq> [] \<or>
      may_start (ops i) (view (log @ map snd (on_volume ops (op_volume (ops i)) (take ?k ?s))))"
    using assms(1) unfolding well_timed_def list_all_iff by (rule bspec) simp
  then show ?thesis using assms(2) by simp
qed

lemma load_true_loaded: "load_true a (LoadState v, r) \<Longrightarrow> r = Loaded st \<Longrightarrow> saved a v = Some st"
  by simp

lemma take_schedule:
  assumes "concurrent b ops s" and "truthful_loads log s" and "well_timed log ops s"
  shows "concurrent b ops (take k s)" and "truthful_loads log (take k s)" and "well_timed log ops (take k s)"
proof -
  have "calls_of i (take k s) \<noteq> [] \<Longrightarrow> calls_of i s \<noteq> []" for i
    using calls_of_take [of i k s] by (auto simp: prefix_def)
  then show "concurrent b ops (take k s)"
    using assms(1) exclusive_take calls_of_take prefix_order.trans unfolding concurrent_def by meson
  show "truthful_loads log (take k s)" "well_timed log ops (take k s)"
    using assms(2,3) by (auto simp: truthful_loads_def well_timed_def list_all_iff min_def)
qed

section \<open>A volume only sees its own operations\<close>

text \<open>A view of the node and the view of the operations on \<open>v\<close> alone agree on the state file of \<open>v\<close>, and
  what may be running for \<open>v\<close> in the first may be in the second.\<close>

definition within :: "string \<Rightarrow> node_view \<Rightarrow> node_view \<Rightarrow> bool" where
  "within v a o' \<longleftrightarrow> saved a v = saved o' v \<and> (running a v = None \<or> running a v = running o' v)"

lemma within_same: "within v a o' \<Longrightarrow> within v (observe a x) (observe o' x)"
  by (induction a x rule: observe.induct)
    (auto simp: within_def without_target_def split: reply.splits fuse_state.splits if_splits)

lemma within_other:
  assumes "about u c" and "u \<noteq> v" and "within v a o'"
  shows "within v (observe a (c, r)) o'"
  using assms
  by (induction a "(c, r)" rule: observe.induct)
    (auto simp: within_def without_target_def split: reply.splits fuse_state.splits if_splits)

definition starts :: "ext \<Rightarrow> bool" where
  "starts c \<longleftrightarrow> (\<exists>u cmd t. c = StartDaemon u cmd t)"

lemma saved_other:
  "about u c \<or> starts c \<Longrightarrow> u \<noteq> v \<Longrightarrow> saved (observe a (c, r)) v = saved a v"
  by (induction a "(c, r)" rule: observe.induct)
    (auto simp: starts_def split: reply.splits fuse_state.splits if_splits)

lemma saved_same: "saved a v = saved o' v \<Longrightarrow> saved (observe a x) v = saved (observe o' x) v"
  by (induction a x rule: observe.induct)
    (auto split: reply.splits fuse_state.splits if_splits)

lemma saved_id:
  assumes "about u c \<or> starts c" and "\<And>st. saved a v = Some st \<Longrightarrow> vs_VolumeID st = v"
    and "saved (observe a (c, r)) v = Some st"
  shows "vs_VolumeID st = v"
  using assms
  by (induction a "(c, r)" rule: observe.induct)
    (auto simp: starts_def split: reply.splits fuse_state.splits if_splits)

lemma mine_about: "mine v log c \<Longrightarrow> about v c \<or> starts c"
  by (auto simp: mine_def starts_def)

lemma concurrent_snoc: "concurrent b ops (s @ [x]) \<Longrightarrow> concurrent b ops s"
  unfolding concurrent_scheduled using mergerfs_locks.scheduled_snoc(1) by (cases x) blast

lemma on_volume_snoc [simp]:
  "on_volume ops v (s @ [x]) = on_volume ops v s @ (if op_volume (ops (fst x)) = v then [x] else [])"
  by (simp add: on_volume_def)

lemma on_volume_Nil [simp]: "on_volume ops v [] = []"
  by (simp add: on_volume_def)

lemma view_more: "view (log @ xs @ [x]) = observe (view (log @ xs)) x"
  by (simp flip: append_assoc)

lemma saved_on_volume:
  assumes "concurrent b ops s"
  shows "saved (view (log @ map snd s)) v = saved (view (log @ map snd (on_volume ops v s))) v"
  using assms
proof (induction s rule: rev_induct)
  case (snoc x s)
  obtain i c r where x: "x = (i, (c, r))" by (metis prod.exhaust)
  have IH: "saved (view (log @ map snd s)) v = saved (view (log @ map snd (on_volume ops v s))) v"
    using snoc concurrent_snoc by blast
  have "about (op_volume (ops i)) c \<or> starts c"
    using own_concurrent [of b ops s i c r "[]"] snoc.prems mine_about x by simp
  then have "saved (observe (view (log @ map snd s)) (c, r)) v = saved (view (log @ map snd s)) v"
    if "op_volume (ops i) \<noteq> v"
    using saved_other that by blast
  then show ?case
    using IH saved_same [OF IH, of "(c, r)"] by (simp add: x view_more)
qed simp

lemma saved_names:
  assumes "concurrent b ops s" and "accounted (view log)" and "saved (view (log @ map snd s)) v = Some st"
  shows "vs_VolumeID st = v"
  using assms(1,3)
proof (induction s arbitrary: st rule: rev_induct)
  case Nil
  then show ?case using assms(2) by (simp add: accounted_def)
next
  case (snoc x s)
  obtain i c r where x: "x = (i, (c, r))" by (metis prod.exhaust)
  have "about (op_volume (ops i)) c \<or> starts c"
    using own_concurrent [of b ops s i c r "[]"] snoc.prems mine_about x by simp
  moreover have "saved (observe (view (log @ map snd s)) (c, r)) v = Some st"
    using snoc.prems(2) by (simp add: x view_more)
  moreover have "vs_VolumeID st' = v" if "saved (view (log @ map snd s)) v = Some st'" for st'
    using snoc.IH [OF concurrent_snoc [OF snoc.prems(1)] that] .
  ultimately show ?case using saved_id by blast
qed

lemma concurrent_prefix: "concurrent b ops (xs @ ys) \<Longrightarrow> concurrent b ops xs"
proof (induction ys rule: rev_induct)
  case (snoc y ys)
  then show ?case using concurrent_snoc [of b ops "xs @ ys" y] by simp
qed simp

lemma truthful_snoc: "truthful_loads log (s @ [x]) \<Longrightarrow> truthful_loads log s"
  by (auto simp: truthful_loads_def list_all_iff nth_append)

lemma concurrent_about:
  assumes "concurrent b ops s" and "truthful_loads log s" and "accounted (view log)"
    and s: "s = pre @ (i, (c, r)) # post"
  shows "about (op_volume (ops i)) c"
proof (rule ccontr)
  let ?v = "op_volume (ops i)"
  assume "\<not> about ?v c"
  moreover have "mine ?v (calls_of i pre) c" using own_concurrent assms(1) s by blast
  ultimately obtain st where "(LoadState ?v, Loaded st) \<in> set (calls_of i pre)" and id: "vs_VolumeID st \<noteq> ?v"
    unfolding mine_def by blast
  then have "(i, (LoadState ?v, Loaded st)) \<in> set pre" by (auto simp: calls_of_def)
  then obtain pre1 pre2 where pre: "pre = pre1 @ (i, (LoadState ?v, Loaded st)) # pre2" by (meson split_list)
  have "truthful_loads log (pre1 @ (i, (LoadState ?v, Loaded st)) # pre2 @ (i, (c, r)) # post)"
    using assms(2) s pre by simp
  from truthful_loadsD [OF this] have "saved (view (log @ map snd pre1)) ?v = Some st" by simp
  moreover have "concurrent b ops pre1" using assms(1) s pre concurrent_prefix by simp
  ultimately show False using saved_names assms(3) id by blast
qed

lemma within_on_volume:
  assumes "concurrent b ops s" and "truthful_loads log s" and "accounted (view log)"
  shows "within v (view (log @ map snd s)) (view (log @ map snd (on_volume ops v s)))"
  using assms(1,2)
proof (induction s rule: rev_induct)
  case Nil
  show ?case by (simp add: within_def)
next
  case (snoc x s)
  obtain i c r where x: "x = (i, (c, r))" by (metis prod.exhaust)
  have IH: "within v (view (log @ map snd s)) (view (log @ map snd (on_volume ops v s)))"
    using snoc concurrent_snoc truthful_snoc by blast
  have "about (op_volume (ops i)) c"
    by (rule concurrent_about [OF snoc.prems assms(3), where post = "[]"]) (simp add: x)
  then show ?case
    using within_same [OF IH, of "(c, r)"] within_other [OF _ _ IH, of "op_volume (ops i)" c r] by (simp add: x view_more)
qed

section \<open>One operation from where the last one ended\<close>

lemma replays_perform: "replays (\<lambda>w. perform (b\<lparr>outside := w\<rparr>) p)"
  by (cases p) (auto simp: mergerfs_backend_def intro!: replay_rules)

text \<open>The world that replies as in \<open>tr\<close> after \<open>log\<close>.\<close>

definition script :: "ext_log \<Rightarrow> ext_log \<Rightarrow> outside" where
  "script log tr seen c =
     (let k = length seen - length log
      in if k < length tr \<and> seen = log @ take k tr \<and> c = fst (tr ! k) then snd (tr ! k) else Done)"

lemma script_answers: "answers (script log tr) log tr"
  by (simp add: answers_def script_def)

lemma script_faithful:
  assumes "\<And>t1 x t2. tr = t1 @ x # t2 \<Longrightarrow> load_true (view (log @ t1)) x"
  shows "store_faithful (b\<lparr>outside := script log tr\<rparr>)"
  unfolding store_faithful_def
proof (intro allI impI)
  fix seen v st
  assume "outside (b\<lparr>outside := script log tr\<rparr>) seen (LoadState v) = Loaded st"
  then obtain k where k: "k < length tr" "seen = log @ take k tr" "tr ! k = (LoadState v, Loaded st)"
    by (fastforce simp: script_def Let_def prod_eq_iff split: if_splits)
  then have "tr = take k tr @ (LoadState v, Loaded st) # drop (Suc k) tr" by (metis id_take_nth_drop)
  from assms [OF this] show "saved (view seen) v = Some st" using k(2) by simp
qed

lemma perform_accounted:
  assumes "store_faithful b" and "always_accounted (elog n)" and "may_start p (view (elog n))"
  shows "always_accounted (elog (snd (run_state (perform b p) n)))"
proof -
  have repair: "hoare (holds (\<lambda>a. True)) (State_Monad.bind (reconcile b v) (\<lambda>_. ok ())) (\<lambda>_. holds (\<lambda>a. True))" for v
    by (rule hoare_bind [OF reconcile_accounted [OF assms(1)]]) (simp add: hoare_def)
  note h = hoare_elog [OF hoare_logged [OF keeps_with_lock] assms(2)]
  show ?thesis
  proof (cases p)
    case (MountOp spec)
    then show ?thesis using h [OF mount_accounted stable_simps(2)] assms(3) by (simp add: mergerfs_backend_def)
  next
    case (ShareOp v source target ro)
    then show ?thesis using h [OF share_accounted stable_simps(2)] assms(3) by (simp add: mergerfs_backend_def)
  next
    case (UnmountOp v target)
    then show ?thesis using h [OF unmount_accounted stable_simps(5)] assms(3) by (simp add: mergerfs_backend_def)
  next
    case (RepairOp v)
    then show ?thesis using h [OF repair stable_simps(1)] by simp
  qed
qed

lemma trace_accounted:
  assumes "op_trace b p full" and "prefix tr full" and "always_accounted log" and "may_start p (view log)"
    and "\<And>t1 x t2. tr = t1 @ x # t2 \<Longrightarrow> load_true (view (log @ t1)) x"
  shows "always_accounted (log @ tr)"
proof -
  obtain w c where full: "full = elog (snd (run_state (perform (b\<lparr>outside := w\<rparr>) p) \<lparr>elog = [], stale = c\<rparr>))"
    using assms(1) by (auto simp: op_trace_def)
  let ?n = "\<lparr>elog = log, stale = c\<rparr>" and ?b = "b\<lparr>outside := script log tr\<rparr>"
  have "replays_run (script log tr) \<lparr>elog = [], stale = c\<rparr> ?n (perform (b\<lparr>outside := w\<rparr>) p) (perform ?b p)"
    using replays_perform by (simp add: replays_def)
  then obtain tr' where run: "elog (snd (run_state (perform ?b p) ?n)) = log @ tr'"
    and same: "\<And>k. k \<le> length full \<Longrightarrow> answers (script log tr) log (take k full) \<Longrightarrow> take k tr' = take k full"
    unfolding replays_run_def by (auto simp flip: full)
  have "take (length tr) full = tr" "length tr \<le> length full"
    using assms(2) by (auto simp: prefix_def)
  then have "take (length tr) tr' = tr" using same [of "length tr"] script_answers by simp
  moreover have "always_accounted (log @ tr')"
    using perform_accounted [of ?b ?n p] script_faithful assms(3-5) run by simp
  ultimately show ?thesis using always_accounted_take [of "log @ tr'" "length log + length tr"] by simp
qed

section \<open>No daemon is orphaned\<close>

lemma on_volume_split:
  assumes "on_volume ops v s = xs @ x # ys"
  shows "\<exists>pre post. s = pre @ x # post \<and> on_volume ops v pre = xs"
  using assms
proof (induction s arbitrary: xs)
  case (Cons a s)
  show ?case
  proof (cases "op_volume (ops (fst a)) = v \<and> xs = []")
    case True
    then show ?thesis using Cons.prems by (intro exI [of _ "[]"] exI [of _ s]) (auto simp: on_volume_def)
  next
    case False
    then obtain xs' where "on_volume ops v s = xs' @ x # ys" "xs = (if op_volume (ops (fst a)) = v then a # xs' else xs')"
      using Cons.prems by (cases xs) (auto simp: on_volume_def split: if_splits)
    moreover from this obtain pre post where "s = pre @ x # post" "on_volume ops v pre = xs'"
      using Cons.IH by blast
    ultimately show ?thesis by (intro exI [of _ "a # pre"] exI [of _ post]) (auto simp: on_volume_def)
  qed
qed (simp add: on_volume_def)

lemma calls_of_on_volume: "op_volume (ops i) = v \<Longrightarrow> calls_of i (on_volume ops v s) = calls_of i s"
  by (induction s) (auto simp: on_volume_def)

lemma calls_of_others: "i \<notin> set xs \<Longrightarrow> calls_of i (concat (map (\<lambda>j. map (Pair j) (f j)) xs)) = []"
  by (auto simp: calls_of_Nil)

lemma untag: "map snd (concat (map (\<lambda>j. map (Pair j) (f j)) xs)) = concat (map f xs)"
  by (induction xs) (simp_all add: comp_def)

lemma load_true_volume:
  assumes "about v c" and "saved a v = saved a' v" and "load_true a (c, r)"
  shows "load_true a' (c, r)"
  using assms by (induction a "(c, r)" rule: load_true.induct) auto

text \<open>The next operation on a volume, after those in \<open>xs\<close>.\<close>

lemma next_accounted:
  assumes "concurrent b ops s" and "truthful_loads log s" and "well_timed log ops s" and "accounted (view log)"
    and on: "on_volume ops v s = concat (map (\<lambda>j. map (Pair j) (calls_of j s)) (xs @ i # ys))"
    and i: "i \<notin> set xs" "op_volume (ops i) = v" "calls_of i s \<noteq> []"
    and before: "always_accounted (log @ concat (map (\<lambda>j. calls_of j s) xs))"
  shows "always_accounted (log @ concat (map (\<lambda>j. calls_of j s) (xs @ [i])))"
proof -
  let ?X = "concat (map (\<lambda>j. map (Pair j) (calls_of j s)) xs)" and ?log = "log @ concat (map (\<lambda>j. calls_of j s) xs)"
  have cut: "\<exists>pre post. s = pre @ (i, x) # post \<and> on_volume ops v pre = ?X @ map (Pair i) t1"
    if "calls_of i s = t1 @ x # t2" for t1 x t2
    by (rule on_volume_split [where ys = "map (Pair i) t2 @ concat (map (\<lambda>j. map (Pair j) (calls_of j s)) ys)"])
      (simp add: on that)
  have own_log: "log @ map snd (?X @ map (Pair i) t1) = ?log @ t1" for t1
    by (simp add: untag comp_def)
  have loads: "load_true (view (?log @ t1)) x" if split: "calls_of i s = t1 @ x # t2" for t1 x t2
  proof -
    obtain pre post where s: "s = pre @ (i, x) # post" and pre: "on_volume ops v pre = ?X @ map (Pair i) t1"
      using cut [OF split] by blast
    have true: "load_true (view (log @ map snd pre)) x" using truthful_loadsD assms(2) s by blast
    obtain c r where x: "x = (c, r)" by fastforce
    have about: "about v c" using concurrent_about [OF assms(1,2,4)] s i(2) x by blast
    have "concurrent b ops pre" using concurrent_prefix assms(1) s by blast
    from saved_on_volume [OF this, of log v]
    have same: "saved (view (log @ map snd pre)) v = saved (view (?log @ t1)) v"
      unfolding pre own_log .
    from load_true_volume [OF about same] true show ?thesis unfolding x by blast
  qed
  obtain x t2 where first: "calls_of i s = [] @ x # t2" using i(3) by (cases "calls_of i s") auto
  then obtain pre post where s: "s = pre @ (i, x) # post" and pre: "on_volume ops v pre = ?X"
    using cut [OF first] by auto
  have new: "calls_of i pre = []"
    using calls_of_on_volume [of ops i v pre] calls_of_others [OF i(1)] i(2) pre by metis
  have "may_start (ops i) (view (log @ map snd (on_volume ops v pre)))"
    using well_timedD [OF _ new] assms(3) s i(2) by blast
  then have "may_start (ops i) (view ?log)" unfolding pre untag .
  moreover obtain full where "op_trace b (ops i) full" "prefix (calls_of i s) full"
    using assms(1) i(3) unfolding concurrent_def by blast
  ultimately have "always_accounted (?log @ calls_of i s)"
    using trace_accounted before loads by blast
  then show ?thesis by simp
qed

lemma volume_accounted:
  assumes "concurrent b ops s" and "truthful_loads log s" and "well_timed log ops s" and "always_accounted log"
  shows "always_accounted (log @ map snd (on_volume ops v s))"
proof -
  obtain order where d: "distinct order" and o': "set order = {i. op_volume (ops i) = v \<and> calls_of i s \<noteq> []}"
    and on: "on_volume ops v s = concat (map (\<lambda>j. map (Pair j) (calls_of j s)) order)"
    using mergerfs_locks.schedules_serialise assms(1)
    unfolding concurrent_scheduled mergerfs_locks.serial_def on_volume_def by blast
  have acc: "accounted (view log)"
    using assms(4) [unfolded always_accounted_def, rule_format, of "length log"] by simp
  have "order = xs @ ys \<Longrightarrow> always_accounted (log @ concat (map (\<lambda>j. calls_of j s) xs))" for xs ys
  proof (induction xs arbitrary: ys rule: rev_induct)
    case Nil
    then show ?case using assms(4) by simp
  next
    case (snoc i xs)
    then have order: "order = xs @ i # ys" by simp
    then have "op_volume (ops i) = v" "calls_of i s \<noteq> []" using o' by auto
    then show ?case
      using next_accounted [OF assms(1-3) acc on [unfolded order]] snoc.IH [OF order] d order by simp
  qed
  from this [of order "[]"] show ?thesis by (simp add: on untag)
qed

lemma schedule_accounted:
  assumes "concurrent b ops s" and "truthful_loads log s" and "well_timed log ops s" and "always_accounted log"
  shows "accounted (view (log @ map snd s))"
proof -
  have acc: "accounted (view log)"
    using assms(4) [unfolded always_accounted_def, rule_format, of "length log"] by simp
  have own: "accounted (view (log @ map snd (on_volume ops v s)))" for v
    using volume_accounted [OF assms, of v, unfolded always_accounted_def, rule_format,
        of "length (log @ map snd (on_volume ops v s))"] by simp
  show ?thesis
    unfolding accounted_def
  proof (intro conjI allI impI)
    fix v t assume "running (view (log @ map snd s)) v = Some t"
    moreover note within_on_volume [OF assms(1,2) acc, of v]
    ultimately have "running (view (log @ map snd (on_volume ops v s))) v = Some t"
      "saved (view (log @ map snd s)) v = saved (view (log @ map snd (on_volume ops v s))) v"
      by (auto simp: within_def)
    then show "\<exists>st. saved (view (log @ map snd s)) v = Some st \<and> vs_Target st = t \<and> SharedFrom st = []"
      using own [of v] unfolding accounted_def by simp
  next
    fix v st assume "saved (view (log @ map snd s)) v = Some st"
    then show "vs_VolumeID st = v" by (rule saved_names [OF assms(1) acc])
  qed
qed

lemma lives_accounted: "node_lives b log \<Longrightarrow> always_accounted log"
proof (induction rule: node_lives.induct)
  case first
  show ?case by (simp add: always_accounted_def)
next
  case (life log ops s)
  have "accounted (view (take k (log @ map snd s)))" for k
  proof (cases "k \<le> length log")
    case True
    then show ?thesis using life.IH by (simp add: always_accounted_def)
  next
    case False
    then have "take k (log @ map snd s) = log @ map snd (take (k - length log) s)" by (simp add: take_map)
    then show ?thesis using schedule_accounted [OF take_schedule [OF life.hyps(2-4)] life.IH] by metis
  qed
  then show ?case by (simp add: always_accounted_def)
qed

text \<open>C3: No daemon is ever orphaned, with operations and repairs on any number of volumes running side by
  side: at every moment of a node, through any interleaving the locks allow and any number of drivers that die
  in the middle of it, a daemon that may be running has a state file that names its volume and its target.\<close>

theorem no_orphaned_daemon_concurrent:
  assumes "node_lives b log" and "running (view log) v = Some t"
  shows "\<exists>st. saved (view log) v = Some st \<and> vs_VolumeID st = v \<and> vs_Target st = t \<and> SharedFrom st = []"
proof -
  have "accounted (view log)"
    using lives_accounted [OF assms(1), unfolded always_accounted_def, rule_format, of "length log"] by simp
  then show ?thesis using assms(2) unfolding accounted_def by blast
qed

section \<open>Two mounts at once\<close>

text \<open>Two mounts side by side, each waiting for the other at every call.\<close>

definition mount_of :: "nat \<Rightarrow> mergerfs_op" where
  "mount_of i = MountOp (if i = 0 then plain_mount else plain_mount\<lparr>VolumeID := ''other'', Target := ''/elsewhere''\<rparr>)"

definition mount_calls :: "nat \<Rightarrow> ext_log" where
  "mount_calls i = elog (snd (run_state (perform storing_backend (mount_of i)) \<lparr>elog = [], stale = []\<rparr>))"

definition side_by_side :: "(ext \<times> reply) schedule" where
  "side_by_side = concat (map2 (\<lambda>x y. [(0, x), (1, y)]) (mount_calls 0) (mount_calls 1))"

lemma side_by_side_calls: "calls_of 0 side_by_side = mount_calls 0" "calls_of 1 side_by_side = mount_calls 1"
  by code_simp+

lemma side_by_side_locks: "exclusive lock_taken lock_given side_by_side"
  by code_simp

lemma side_by_side_loads: "truthful_loads [] side_by_side"
  by code_simp

lemma side_by_side_timed: "well_timed [] mount_of side_by_side"
  by code_simp

lemma side_by_side_running: "running (view (map snd side_by_side)) ''vol'' = Some ''/target''"
  by code_simp

lemma side_by_side_concurrent: "concurrent storing_backend mount_of side_by_side"
proof -
  have "storing_backend\<lparr>outside := storing_world\<rparr> = storing_backend" by (simp add: storing_backend_def)
  then have tr: "op_trace storing_backend (mount_of i) (mount_calls i)" for i
    unfolding op_trace_def mount_calls_def by metis
  have "fst ` set side_by_side \<subseteq> {0, 1}" by (auto simp: side_by_side_def)
  then have i: "calls_of i side_by_side \<noteq> [] \<Longrightarrow> i = 0 \<or> i = 1" for i
    unfolding calls_of_Nil by auto
  have "\<exists>full. op_trace storing_backend (mount_of i) full \<and> prefix (calls_of i side_by_side) full"
    if some: "calls_of i side_by_side \<noteq> []" for i
  proof -
    consider "i = 0" | "i = 1" using i [OF some] by blast
    then have "calls_of i side_by_side = mount_calls i" using side_by_side_calls by cases simp_all
    then show ?thesis using tr by auto
  qed
  then show ?thesis using side_by_side_locks by (simp add: concurrent_def)
qed

theorem operations_serialise_witness:
  "\<exists>order. distinct order \<and> set order = {i. op_volume (mount_of i) = ''vol'' \<and> calls_of i side_by_side \<noteq> []} \<and>
    on_volume mount_of ''vol'' side_by_side = concat (map (\<lambda>i. map (Pair i) (calls_of i side_by_side)) order) \<and>
    list_all (\<lambda>i. op_trace storing_backend (mount_of i) (calls_of i side_by_side)) (butlast order)"
  by (rule operations_serialise [OF side_by_side_concurrent])

theorem no_orphaned_daemon_concurrent_witness:
  "running (view (map snd side_by_side)) ''vol'' = Some ''/target'' \<and>
   (\<exists>st. saved (view (map snd side_by_side)) ''vol'' = Some st \<and> vs_Target st = ''/target'')"
proof -
  have "node_lives storing_backend (map snd side_by_side)"
    using node_lives.life [OF node_lives.first side_by_side_concurrent side_by_side_loads side_by_side_timed] by simp
  from no_orphaned_daemon_concurrent [OF this side_by_side_running] show ?thesis
    using side_by_side_running by blast
qed

end
