(* ===== verification/NodeService.thy ===== *)
theory NodeService
  imports Publish
begin

text \<open>
  The Node service over many requests. A backend has a contract with the service: how many mounts
  there are on a target after its operations. From the contract alone, the service implements a set of
  published targets.
\<close>

section \<open>The contract of a backend\<close>

text \<open>A mount on \<open>t\<close>: one more if it succeeds; if it fails, none, or one that could not be detached.\<close>

definition mount_result :: "('w \<Rightarrow> string \<Rightarrow> nat) \<Rightarrow> string \<Rightarrow> 'e + unit \<Rightarrow> 'w \<Rightarrow> 'w \<Rightarrow> bool" where
  "mount_result depth t r w w' \<longleftrightarrow>
     depth w' = (depth w)(t := 1) \<or> isl r \<and> depth w' = depth w"

definition unmount_result :: "('w \<Rightarrow> string \<Rightarrow> nat) \<Rightarrow> string \<Rightarrow> 'e + unit \<Rightarrow> 'w \<Rightarrow> 'w \<Rightarrow> bool" where
  "unmount_result depth t r w w' \<longleftrightarrow>
     depth w' = (depth w)(t := 0) \<or> isl r \<and> depth w' = depth w"

text \<open>What the service gets from the machine: the mount check tells mounts, and making or removing the
  target directory and waiting leave them alone.\<close>

definition sees_mounts :: "('w, 'e) driver \<Rightarrow> ('w \<Rightarrow> string \<Rightarrow> nat) \<Rightarrow> bool" where
  "sees_mounts d depth \<longleftrightarrow>
     (\<forall>w t b. isMounted d t w = Inr b \<longrightarrow> b = (0 < depth w t)) \<and>
     (\<forall>w t. depth (snd (run_state (MkdirAll (d_machine d) t) w)) = depth w) \<and>
     (\<forall>w t. depth (snd (run_state (Remove (d_machine d) t) w)) = depth w) \<and>
     (\<forall>w. depth (Tick (mounter (d_machine d)) w) = depth w)"

section \<open>Requests\<close>

datatype node_request = PublishRequest publish_request | UnpublishRequest string string

fun handle :: "('w, 'e) driver \<Rightarrow> node_request \<Rightarrow> ('w, 'e, unit) handler" where
  "handle d (PublishRequest req) = NodePublishVolume d req"
| "handle d (UnpublishRequest volume target) = NodeUnpublishVolume d volume target"

fun target_of :: "node_request \<Rightarrow> string" where
  "target_of (PublishRequest req) = req_TargetPath req"
| "target_of (UnpublishRequest volume target) = target"

fun handle_all ::
    "('w, 'e) driver \<Rightarrow> node_request list \<Rightarrow> 'w \<Rightarrow> (('e status + unit) list \<times> 'w) option" where
  "handle_all d [] w = Some ([], w)"
| "handle_all d (q # qs) w =
     (case handle d q w of
        None \<Rightarrow> None
      | Some (r, w1) \<Rightarrow> (case handle_all d qs w1 of None \<Rightarrow> None | Some (rs, w2) \<Rightarrow> Some (r # rs, w2)))"

text \<open>The specification: the set of published targets. A request that fails may have had its effect.\<close>

fun published_after :: "node_request \<Rightarrow> string set \<Rightarrow> string set" where
  "published_after (PublishRequest req) S = insert (req_TargetPath req) S"
| "published_after (UnpublishRequest volume target) S = S - {target}"

inductive spec_run :: "string set \<Rightarrow> (node_request \<times> ('e + unit)) list \<Rightarrow> string set \<Rightarrow> bool" where
  rest: "spec_run S [] S"
| does: "spec_run (published_after q S) qs S' \<Longrightarrow> spec_run S ((q, r) # qs) S'"
| fails: "isl r \<Longrightarrow> spec_run S qs S' \<Longrightarrow> spec_run S ((q, r) # qs) S'"

definition published :: "('w \<Rightarrow> string \<Rightarrow> nat) \<Rightarrow> 'w \<Rightarrow> string set \<Rightarrow> bool" where
  "published depth w S \<longleftrightarrow> depth w = (\<lambda>t. if t \<in> S then 1 else 0)"

lemma published_change:
  assumes "published depth w S"
  shows "depth w' = (depth w)(t := 1) \<Longrightarrow> published depth w' (insert t S)"
    and "depth w' = (depth w)(t := 0) \<Longrightarrow> published depth w' (S - {t})"
    and "depth w' = depth w \<Longrightarrow> published depth w' S"
  using assms by (simp_all add: published_def fun_eq_iff)

section \<open>Handlers and mounts\<close>

definition still :: "('w \<Rightarrow> string \<Rightarrow> nat) \<Rightarrow> ('w, 'e, 'a) handler \<Rightarrow> bool" where
  "still depth h \<longleftrightarrow> (\<forall>w r w'. h w = Some (r, w') \<longrightarrow> depth w' = depth w)"

definition puts :: "('w \<Rightarrow> string \<Rightarrow> nat) \<Rightarrow> string \<Rightarrow> ('w, 'e, unit) handler \<Rightarrow> bool" where
  "puts depth t h \<longleftrightarrow>
     (\<forall>w r w'. depth w t = 0 \<longrightarrow> h w = Some (r, w') \<longrightarrow> mount_result depth t r w w')"

named_theorems mount_rules \<open>rules for handlers that mount\<close>

lemma still_give [mount_rules]: "still depth (give r)" by (simp add: still_def give_def)

lemma still_observe [mount_rules]: "still depth (observe f)" by (simp add: still_def observe_def)

lemma puts_error [mount_rules]: "puts depth t (give (Inl e))"
  by (simp add: puts_def give_def mount_result_def)

lemma puts_then [mount_rules]:
  assumes "still depth m" and "\<And>x. puts depth t (f x)"
  shows "puts depth t (and_then m f)"
  unfolding puts_def
proof (intro allI impI)
  fix w r w' assume d: "depth w t = 0" and run: "and_then m f w = Some (r, w')"
  show "mount_result depth t r w w'"
  proof (cases r)
    case (Inl e)
    then consider "m w = Some (Inl e, w')" | x w1 where "m w = Some (Inr x, w1)" "f x w1 = Some (Inl e, w')"
      using run by (auto simp: and_then_Inl)
    then show ?thesis
    proof cases
      case 1
      then show ?thesis using assms(1) Inl by (simp add: still_def mount_result_def)
    next
      case 2
      then have "depth w1 = depth w" using assms(1) by (simp add: still_def)
      then show ?thesis using assms(2) [of x, unfolded puts_def, rule_format, of w1 r w'] 2 d Inl
        by (simp add: mount_result_def)
    qed
  next
    case (Inr u)
    then obtain x w1 where 2: "m w = Some (Inr x, w1)" "f x w1 = Some (Inr u, w')"
      using run by (auto simp: and_then_Inr)
    then have "depth w1 = depth w" using assms(1) by (simp add: still_def)
    then show ?thesis using assms(2) [of x, unfolded puts_def, rule_format, of w1 r w'] 2 d Inr
      by (simp add: mount_result_def)
  qed
qed

lemma puts_if [mount_rules]: "puts depth t f \<Longrightarrow> puts depth t g \<Longrightarrow> puts depth t (if c then f else g)"
  by simp

lemma still_MkdirAll [mount_rules]: "sees_mounts d depth \<Longrightarrow> still depth (run (MkdirAll (d_machine d) t) h)"
  by (auto simp: still_def handler_simps sees_mounts_def) (metis snd_conv)

lemma still_wait [mount_rules]:
  assumes "sees_mounts d depth"
  shows "still depth (wait_for d ps h)"
proof -
  have "depth ((Tick (mounter (d_machine d)) ^^ n) w) = depth w" for n w
    using assms by (induction n) (simp_all add: sees_mounts_def)
  then show ?thesis by (auto simp: still_def handler_simps WaitReady_first_verdict)
qed

lemma puts_run:
  assumes "\<And>w r w'. depth w t = 0 \<Longrightarrow> run_state m w = (r, w') \<Longrightarrow> mount_result depth t r w w'"
  shows "puts depth t (run m h)"
  using assms unfolding puts_def run_iff mount_result_def by (metis isl_map_sum)

section \<open>The service\<close>

locale mounting_backend =
  fixes be :: "('w, 'e) backend" and depth :: "'w \<Rightarrow> string \<Rightarrow> nat"
  assumes mount_law: "depth w (Target spec) = 0 \<Longrightarrow> run_state (Mount be spec) w = (r, w') \<Longrightarrow>
      mount_result depth (Target spec) r w w'"
    and share_law: "depth w t = 0 \<Longrightarrow> run_state (Share be v s t ro) w = (r, w') \<Longrightarrow>
      mount_result depth t r w w'"
    and unmount_law: "depth w t \<le> 1 \<Longrightarrow> run_state (Unmount be v t) w = (r, w') \<Longrightarrow>
      unmount_result depth t r w w'"
begin

lemma puts_Mount: "puts depth (Target spec) (run (Mount be spec) h)"
  by (rule puts_run) (rule mount_law)

lemma puts_Share: "puts depth t (run (Share be v s t ro) h)"
  by (rule puts_run) (rule share_law)

lemma puts_publish:
  assumes "the_backend d = be" and "sees_mounts d depth"
  shows "puts depth (req_TargetPath req) (publishUnion d req attrs opts p)"
    and "puts depth (req_TargetPath req) (publishShared d req name source)"
proof -
  have m: "puts depth (req_TargetPath req) (run (Mount be \<lparr>VolumeID = v, Target = req_TargetPath req,
      Sources = ss, Options = opts, ReadOnly = ro\<rparr>) h)" for v ss ro h
    using puts_Mount [of "\<lparr>VolumeID = v, Target = req_TargetPath req, Sources = ss, Options = opts, ReadOnly = ro\<rparr>"]
    by simp
  show "puts depth (req_TargetPath req) (publishUnion d req attrs opts p)"
    "puts depth (req_TargetPath req) (publishShared d req name source)"
    unfolding publishUnion_def publishShared_def Let_def assms(1)
    by (intro mount_rules assms(2) puts_Share m)+
qed

lemma publish_result:
  assumes "the_backend d = be" and "sees_mounts d depth" and "depth w (req_TargetPath req) \<le> 1"
    and "NodePublishVolume d req w = Some (r, w')"
  shows "mount_result depth (req_TargetPath req) r w w'"
proof -
  let ?t = "req_TargetPath req"
  let ?go = "and_then (give (map_sum (\<lambda>e. (InvalidArgument, BadAttribute e)) id (parse d (req_VolumeContext req))))
      (\<lambda>attrs.
        if pa_PodNamespace attrs = [] \<or> pa_PodName attrs = [] \<or> pa_PodUID attrs = []
        then give (Inl (InvalidArgument, PodIdentityMissing))
        else
          and_then (give (map_sum (\<lambda>e. (InvalidArgument, RefusedOption e)) id
                      (Resolve (the_policy d) (pa_Options attrs)))) (\<lambda>options.
          and_then (give (map_sum resolveError id
                      (GetPod (d_resolver d) (pa_PodNamespace attrs) (pa_PodName attrs) (pa_PodUID attrs)))) (\<lambda>p.
          case (if cfg_ReuseMounts (d_config d) then sharedSource d p ?t else ([], [])) of
            (name, source) \<Rightarrow>
              if source \<noteq> [] then publishShared d req name source
              else publishUnion d req attrs options p)))"
  have go: "puts depth ?t ?go"
    using puts_publish [OF assms(1,2)] by (intro mount_rules) (auto split: prod.split)
  have mounted: "depth w ?t = 1" if "isMounted d ?t w = Inr True"
    using assms(2,3) that unfolding sees_mounts_def by fastforce
  have free: "depth w ?t = 0" if "isMounted d ?t w = Inr False"
    using assms(2) that unfolding sees_mounts_def by fastforce
  consider e where "r = Inl e" "w' = w" | "isMounted d ?t w = Inr True" "r = Inr ()" "w' = w"
    | "isMounted d ?t w = Inr False" "?go w = Some (r, w')"
    using assms(4) unfolding NodePublishVolume_def
    by (cases "isMounted d ?t w") (auto simp: handler_simps and_then_def give_def observe_def split: if_splits bool.splits)
  then show ?thesis
  proof cases
    case 3
    then show ?thesis using go free unfolding puts_def by blast
  qed (use mounted in \<open>auto simp: mount_result_def\<close>)
qed

lemma unpublish_result:
  assumes "the_backend d = be" and "sees_mounts d depth" and "depth w target \<le> 1"
    and "NodeUnpublishVolume d volume target w = Some (r, w')"
  shows "unmount_result depth target r w w'"
proof -
  obtain x w1 where u: "run_state (Unmount be volume target) w = (x, w1)" by fastforce
  obtain y w2 where rm: "run_state (Remove (d_machine d) target) w1 = (y, w2)" by fastforce
  have "depth w2 = depth w1" using assms(2) rm unfolding sees_mounts_def by (metis snd_conv)
  moreover have "depth w1 = (depth w)(target := 0) \<or> isl x \<and> depth w1 = depth w"
    using unmount_law [OF assms(3) u] by (simp add: unmount_result_def)
  ultimately show ?thesis
    using assms(1,4) u rm unfolding NodeUnpublishVolume_def unmount_result_def
    by (cases x; cases y) (auto simp: and_then_def give_def run_def split: if_splits)
qed

text \<open>One request, and then all of them.\<close>

lemma handle_step:
  assumes "the_backend d = be" and "sees_mounts d depth" and "published depth w S"
    and "handle d q w = Some (r, w')"
  shows "published depth w' (published_after q S) \<or> isl r \<and> published depth w' S"
proof (cases q)
  case (PublishRequest req)
  have "depth w (req_TargetPath req) \<le> 1" using assms(3) by (simp add: published_def)
  then have "mount_result depth (req_TargetPath req) r w w'"
    using publish_result [OF assms(1,2)] assms(4) PublishRequest by simp
  then show ?thesis using published_change [OF assms(3)] PublishRequest by (auto simp: mount_result_def)
next
  case (UnpublishRequest volume target)
  have "depth w target \<le> 1" using assms(3) by (simp add: published_def)
  then have "unmount_result depth target r w w'"
    using unpublish_result [OF assms(1,2)] assms(4) UnpublishRequest by simp
  then show ?thesis using published_change [OF assms(3)] UnpublishRequest by (auto simp: unmount_result_def)
qed

lemma service_refines:
  assumes "the_backend d = be" and "sees_mounts d depth"
  shows "published depth w S \<Longrightarrow> handle_all d qs w = Some (rs, w') \<Longrightarrow>
    \<exists>S'. spec_run S (zip qs rs) S' \<and> published depth w' S'"
proof (induction qs arbitrary: w S rs)
  case Nil
  then show ?case by (auto intro: spec_run.rest)
next
  case (Cons q qs)
  obtain r w1 rs1 where run: "handle d q w = Some (r, w1)" "handle_all d qs w1 = Some (rs1, w')" "rs = r # rs1"
    using Cons.prems(2) by (auto split: option.splits)
  from handle_step [OF assms Cons.prems(1) run(1)] show ?case
  proof
    assume "published depth w1 (published_after q S)"
    then show ?thesis using Cons.IH run(2,3) by (fastforce intro: spec_run.does)
  next
    assume "isl r \<and> published depth w1 S"
    then show ?thesis using Cons.IH run(2,3) by (fastforce intro: spec_run.fails)
  qed
qed

end

end
