(* ===== verification/NodeBackends.thy ===== *)
theory NodeBackends
  imports NodeService OverlaySafety MergerfsLifecycle
begin

text \<open>
  Both backends keep the contract of the Node service, so the service over either of them implements a
  set of published targets.
\<close>

section \<open>Overlay\<close>

definition overlay_depth :: "node \<Rightarrow> string \<Rightarrow> nat" where
  "overlay_depth n t = length (stacks (mounts (calls n)) t)"

text \<open>A kernel that does not claim that nothing is mounted on a target that has a mount; everything else
  is left to it.\<close>

definition truthful :: "kernel \<Rightarrow> kernel" where
  "truthful K log c =
     (case (c, K log c) of
        (SysUnmount t, Inl e) \<Rightarrow>
          if (e = EINVAL \<or> e = ENOENT) \<and> stacks (mounts log) t \<noteq> [] then Inl (Errno 16) else Inl e
      | (_, r) \<Rightarrow> r)"

lemma overlay_mount_depth:
  assumes "mount_outcome (stacks (mounts (calls n))) t ro r n'" and "overlay_depth n t = 0"
  shows "mount_result overlay_depth t r n n'"
  using assms by (auto simp: mount_outcome_def mount_result_def overlay_depth_def fun_eq_iff split: sum.splits)

interpretation overlay_mounts: mounting_backend "overlayBackend (truthful K)" overlay_depth for K
proof unfold_locales
  fix w w' :: node and spec r
  assume d: "overlay_depth w (Target spec) = 0"
    and run: "run_state (Mount (overlayBackend (truthful K)) spec) w = (r, w')"
  show "mount_result overlay_depth (Target spec) r w w'"
  proof (cases "planLayout spec")
    case (Inl e)
    then show ?thesis using run by (auto simp: overlayBackend_def mountUnion_def mount_result_def)
  next
    case (Inr l)
    show ?thesis
      using hoareD [OF outcome_mountUnion [OF Inr] refl, of "truthful K" overlay_Schema w r w'] run d
      by (intro overlay_mount_depth) (simp_all add: overlayBackend_def)
  qed
next
  fix w w' :: node and t v s ro r
  assume "overlay_depth w t = 0" and "run_state (Share (overlayBackend (truthful K)) v s t ro) w = (r, w')"
  then show "mount_result overlay_depth t r w w'"
    using hoareD [OF outcome_bindMount refl, of "truthful K" s t ro w r w']
    by (intro overlay_mount_depth) (simp_all add: overlayBackend_def)
next
  fix w w' :: node and t v r
  assume d: "overlay_depth w t \<le> 1" and run: "run_state (Unmount (overlayBackend (truthful K)) v t) w = (r, w')"
  let ?s = "stacks (mounts (calls w))"
  show "unmount_result overlay_depth t r w w'"
  proof (cases "truthful K (calls w) (SysUnmount t)")
    case (Inr x)
    moreover have "tl (?s t) = []" using d by (cases "?s t") (simp_all add: overlay_depth_def)
    ultimately show ?thesis using run
      by (auto simp: overlayBackend_def unmountUnion_def unmount_result_def overlay_depth_def fun_eq_iff)
  next
    case (Inl e)
    moreover have "?s t = []" if "e = EINVAL \<or> e = ENOENT"
      using Inl that by (auto simp: truthful_def split: sum.splits if_splits)
    ultimately show ?thesis using run
      by (auto simp: overlayBackend_def unmountUnion_def unmount_result_def overlay_depth_def fun_eq_iff
          split: if_splits)
  qed
qed

section \<open>Mergerfs\<close>

fun fuse_effect :: "(string \<Rightarrow> nat) \<Rightarrow> ext \<times> reply \<Rightarrow> string \<Rightarrow> nat" where
  "fuse_effect m (StartDaemon v cmd t, r) = (if failed r = None then m(t := Suc (m t)) else m)"
| "fuse_effect m (BindFuse s t ro, r) = (if failed r = None then m(t := Suc (m t)) else m)"
| "fuse_effect m (UnmountFuse t, r) = (if failed r = None then m(t := m t - 1) else m)"
| "fuse_effect m (c, r) = m"

text \<open>The mounts of daemons and the views bound to them, by target. A start that fails leaves no mount,
  and taking down a mount that is not there succeeds: both are promises of the supervisor library.\<close>

definition fuse_depth :: "mnode \<Rightarrow> string \<Rightarrow> nat" where
  "fuse_depth n = foldl fuse_effect (\<lambda>t. 0) (elog n)"

fun no_fuse_mount :: "ext \<Rightarrow> bool" where
  "no_fuse_mount (StartDaemon v cmd t) = False"
| "no_fuse_mount (BindFuse s t ro) = False"
| "no_fuse_mount (UnmountFuse t) = False"
| "no_fuse_mount c = True"

abbreviation fuse :: "(string \<Rightarrow> nat) \<Rightarrow> mnode \<Rightarrow> bool" where
  "fuse m n \<equiv> fuse_depth n = m"

lemma fuse_depth_snoc: "fuse_depth (n\<lparr>elog := elog n @ [x]\<rparr>) = fuse_effect (fuse_depth n) x"
  by (simp add: fuse_depth_def)

lemma fuse_ask [keeps_rules]: "no_fuse_mount c \<Longrightarrow> keeps (fuse m) (ask b c)"
  by (cases c) (auto simp: keeps_def hoare_def fuse_depth_snoc)

lemma fuse_ignore [keeps_rules]: "no_fuse_mount c \<Longrightarrow> keeps (fuse m) (ignore b c)"
  unfolding ignore_def by (intro keeps_rules)

lemma fuse_must [keeps_rules]: "no_fuse_mount c \<Longrightarrow> keeps (fuse m) (must b c w)"
  unfolding must_def by (intro keeps_rules)

lemma fuse_daemonCommand [keeps_rules]: "keeps (fuse m) (daemonCommand b st)"
  unfolding daemonCommand_def by (auto intro!: keeps_rules split: reply.splits)

lemma fuse_removeState [keeps_rules]: "keeps (fuse m) (removeState b v)"
  unfolding removeState_def by (intro keeps_rules) simp_all

text \<open>One more mount, or none, or one that a failure could not take down.\<close>

definition fuse_outcome :: "(string \<Rightarrow> nat) \<Rightarrow> string \<Rightarrow> 'e + unit \<Rightarrow> mnode \<Rightarrow> bool" where
  "fuse_outcome m t r n \<longleftrightarrow> fuse (m(t := Suc (m t))) n \<or> isl r \<and> fuse m n"

lemma fuse_start_command: "hoare (fuse m) (start_command b st cmd) (fuse_outcome m (vs_Target st))"
  by (auto simp: hoare_def start_command_def sealControlFile_def Let_def killDaemon_def run_must run_ignore
      fuse_outcome_def fuse_depth_def split: option.splits if_splits)

lemma fuse_outcome_keeps:
  assumes "hoare P m (fuse_outcome k t)" and "\<And>k. keeps (fuse k) g"
  shows "hoare P (finally_do m g) (fuse_outcome k t)"
proof (rule hoare_finally [OF assms(1)])
  fix r
  show "hoare (fuse_outcome k t r) g (\<lambda>_. fuse_outcome k t r)"
    unfolding hoare_def
  proof (intro allI impI)
    fix n u n' assume o: "fuse_outcome k t r n" and g: "run_state g n = (u, n')"
    have "keeps (fuse (fuse_depth n)) g" by (rule assms(2))
    from keepsD [OF this, of n] have "fuse_depth n' = fuse_depth n" using g by simp
    then show "fuse_outcome k t r n'" using o by (simp add: fuse_outcome_def)
  qed
qed

lemma fuse_startDaemon: "hoare (fuse m) (startDaemon b st) (fuse_outcome m (vs_Target st))"
  unfolding startDaemon_split
  by (rule hoare_try [OF fuse_daemonCommand [unfolded keeps_def]])
    (simp add: fuse_outcome_def, rule fuse_start_command)

lemma fuse_undone:
  "hoare (fuse_outcome m t (Inl e)) (do { _ \<leftarrow> removeState b v; fail x }) (fuse_outcome m t)"
proof -
  have "hoare (fuse_outcome m t (Inl e)) (removeState b v) (\<lambda>_. fuse_outcome m t (Inl e))"
    unfolding hoare_def
  proof (intro allI impI)
    fix n r n' assume o: "fuse_outcome m t (Inl e) n" and run: "run_state (removeState b v) n = (r, n')"
    have "keeps (fuse (fuse_depth n)) (removeState b v)" by (rule fuse_removeState)
    from keepsD [OF this, of n] have "fuse_depth n' = fuse_depth n" using run by simp
    then show "fuse_outcome m t (Inl e) n'" using o by (simp add: fuse_outcome_def)
  qed
  then show ?thesis by (rule hoare_bind) (auto simp: hoare_def fuse_outcome_def)
qed

lemma fuse_mountUnion: "hoare (fuse m) (mergerfs_mountUnion b spec) (fuse_outcome m (Target spec))"
proof -
  let ?t = "Target spec"
  have go: "hoare (fuse m) (try_do (must b (SaveState v st) External) (\<lambda>_.
      do { r \<leftarrow> startDaemon b st;
           case r of Inr _ \<Rightarrow> ok () | Inl e \<Rightarrow> do { _ \<leftarrow> removeState b v; fail e } })) (fuse_outcome m ?t)"
    if "vs_Target st = ?t" for v st
  proof (rule hoare_try [OF fuse_must [unfolded keeps_def]])
    have "hoare (fuse_outcome m ?t r)
        (case r of Inr _ \<Rightarrow> ok () | Inl e \<Rightarrow> do { _ \<leftarrow> removeState b v; fail e }) (fuse_outcome m ?t)"
      for r :: "mergerfs_error + unit"
      using fuse_undone [of m ?t] by (cases r) (simp_all add: hoare_def)
    then show "hoare (fuse m) (do { r \<leftarrow> startDaemon b st;
           case r of Inr _ \<Rightarrow> ok () | Inl e \<Rightarrow> do { _ \<leftarrow> removeState b v; fail e } }) (fuse_outcome m ?t)"
      by (rule hoare_bind [OF fuse_startDaemon [of m b st, unfolded that]])
  qed (simp_all add: fuse_outcome_def)
  obtain spec' branches where sb: "(if useSandbox b then sandboxed spec else (spec, [])) = (spec', branches)"
    by fastforce
  show ?thesis
  proof (cases "buildArgv spec'")
    case (Inl e)
    then show ?thesis
      by (simp only: mergerfs_mountUnion_def sb Let_def prod.case sum.case) (simp add: hoare_def fuse_outcome_def)
  next
    case (Inr argv)
    show ?thesis
      by (simp only: mergerfs_mountUnion_def sb Inr Let_def prod.case sum.case) (rule go, simp)
  qed
qed

lemma fuse_shareUnion: "hoare (fuse m) (shareUnion b v s t ro) (fuse_outcome m t)"
proof -
  have bind: "hoare (fuse m) (ask b (BindFuse s t ro)) (\<lambda>r. fuse_outcome m t (case failed r of None \<Rightarrow> Inr () | Some e \<Rightarrow> Inl e))"
    by (auto simp: hoare_def fuse_depth_snoc fuse_outcome_def split: option.split)
  have "hoare (fuse_outcome m t (case failed r of None \<Rightarrow> Inr () | Some e \<Rightarrow> Inl e))
      (case failed r of None \<Rightarrow> ok () | Some e \<Rightarrow> do { _ \<leftarrow> removeState b v; fail (External e) }) (fuse_outcome m t)" for r
    using fuse_undone [of m t] by (cases "failed r") (simp_all add: hoare_def fuse_outcome_def)
  note tail = hoare_bind [OF bind this]
  show ?thesis
    unfolding shareUnion_def Let_def
    by (rule hoare_try [OF fuse_must [unfolded keeps_def]], simp, simp add: fuse_outcome_def,
        rule hoare_try [OF fuse_must [unfolded keeps_def]], simp, simp add: fuse_outcome_def, rule tail)
qed

lemma fuse_unmountUnion:
  "hoare (fuse m) (mergerfs_unmountUnion b v t) (\<lambda>r n. fuse (m(t := m t - 1)) n \<or> isl r \<and> fuse m n)"
proof -
  have rest: "keeps (fuse k) (do { _ \<leftarrow> ignore b (ForgetProbe t); _ \<leftarrow> ignore b (StopScope v); removeState b v })" for k
    by (intro keeps_rules) simp_all
  have "hoare (fuse (m(t := m t - 1)))
      (do { _ \<leftarrow> ignore b (ForgetProbe t); _ \<leftarrow> ignore b (StopScope v); removeState b v })
      (\<lambda>r n. fuse (m(t := m t - 1)) n \<or> isl r \<and> fuse m n)"
    using rest unfolding keeps_def by (rule hoare_post) simp
  then show ?thesis
    unfolding mergerfs_unmountUnion_def
    by (intro hoare_try [where R = "\<lambda>r. case r of Inr _ \<Rightarrow> fuse (m(t := m t - 1)) | Inl _ \<Rightarrow> fuse m"])
      (auto simp: hoare_def run_must fuse_depth_snoc split: option.splits)
qed

lemma fuse_with_lock: "hoare (fuse m) p (fuse_outcome m t) \<Longrightarrow> hoare (fuse m) (with_lock b v p) (fuse_outcome m t)"
  unfolding with_lock_def
  by (rule hoare_bind [OF fuse_ignore [unfolded keeps_def]]) (simp, rule fuse_outcome_keeps, assumption, intro keeps_rules, simp)

interpretation mergerfs_mounts: mounting_backend "mergerfs_backend b" fuse_depth for b
proof unfold_locales
  fix w w' :: mnode and spec r
  assume "fuse_depth w (Target spec) = 0" and "run_state (Mount (mergerfs_backend b) spec) w = (r, w')"
  then show "mount_result fuse_depth (Target spec) r w w'"
    using hoareD [OF fuse_with_lock [OF fuse_mountUnion] refl, of b "VolumeID spec" b spec w r w']
    by (simp add: mergerfs_backend_def mount_result_def fuse_outcome_def)
next
  fix w w' :: mnode and t v s ro r
  assume "fuse_depth w t = 0" and "run_state (Share (mergerfs_backend b) v s t ro) w = (r, w')"
  then show "mount_result fuse_depth t r w w'"
    using hoareD [OF fuse_with_lock [OF fuse_shareUnion] refl, of b v b v s t ro w r w']
    by (simp add: mergerfs_backend_def mount_result_def fuse_outcome_def)
next
  fix w w' :: mnode and t v r
  assume d: "fuse_depth w t \<le> 1" and run: "run_state (Unmount (mergerfs_backend b) v t) w = (r, w')"
  let ?n = "snd (run_state (ignore b (LockVolume v)) w)"
  obtain n1 where n1: "run_state (mergerfs_unmountUnion b v t) ?n = (r, n1)"
    and last: "w' = snd (run_state (ignore b (UnlockVolume v)) n1)"
    using run by (auto simp: mergerfs_backend_def with_lock_def split: prod.splits)
  have "fuse_depth ?n = fuse_depth w" by (simp add: run_ignore fuse_depth_snoc)
  moreover have "fuse_depth w' = fuse_depth n1" by (simp add: last run_ignore fuse_depth_snoc)
  moreover have "fuse_depth w t - 1 = 0" using d by simp
  ultimately show "unmount_result fuse_depth t r w w'"
    using hoareD [OF fuse_unmountUnion refl n1] by (simp add: unmount_result_def)
qed

section \<open>The service over each backend\<close>

text \<open>C4: Over the overlay backend the Node service is a set of published targets. Whatever requests come
  in, in any order and as often as they like: a publish that succeeds puts its target into the set,
  an unpublish that succeeds takes it out, a request that fails does either that or nothing, and the
  node has exactly one mount of the backend on every target of the set and none on any other. The
  kernel may refuse any call, but not claim that nothing is mounted where something is.\<close>

theorem overlay_service_refines:
  assumes "the_backend d = overlayBackend (truthful K)" and "sees_mounts d overlay_depth"
    and "published overlay_depth w S" and "handle_all d requests w = Some (results, w')"
  shows "\<exists>S'. spec_run S (zip requests results) S' \<and> published overlay_depth w' S'"
  by (rule overlay_mounts.service_refines [OF assms])

text \<open>C5: The same holds over the mergerfs backend, for the mounts of its daemons and the views bound to
  them.\<close>

theorem mergerfs_service_refines:
  assumes "the_backend d = mergerfs_backend b" and "sees_mounts d fuse_depth"
    and "published fuse_depth w S" and "handle_all d requests w = Some (results, w')"
  shows "\<exists>S'. spec_run S (zip requests results) S' \<and> published fuse_depth w' S'"
  by (rule mergerfs_mounts.service_refines [OF assms])

text \<open>A pod that publishes its union and gives it back, over either backend.\<close>

definition counting_machine :: "('w \<Rightarrow> string \<Rightarrow> nat) \<Rightarrow> 'w machine" where
  "counting_machine depth =
     \<lparr>mounter = \<lparr>IsMountPoint = (\<lambda>w t. Inr (0 < depth w t)), files = (\<lambda>w. files toy_host ([], 0)),
        Now = (\<lambda>w. 0), Done = (\<lambda>w. None), Tick = (\<lambda>w. w)\<rparr>,
      MkdirAll = (\<lambda>t. ok ()), Remove = (\<lambda>t. ok ())\<rparr>"

definition driver_over :: "('w, 'e) backend \<Rightarrow> ('w \<Rightarrow> string \<Rightarrow> nat) \<Rightarrow> ('w, 'e) driver" where
  "driver_over be depth = \<lparr>d_config = \<lparr>cfg_VendorVersion = ''v1'', cfg_DriverName = ''union.csi'',
       cfg_NodeID = ''n1'', cfg_Endpoint = ''unix:///csi/csi.sock'', cfg_KubeletRoot = ''/var/lib/kubelet'',
       cfg_HostPaths = hostPaths web_resolver, cfg_StateDir = ''/s'', cfg_PublishTimeout = 1000,
       cfg_MaxSourceVolumes = 32, cfg_ReuseMounts = True, cfg_Backend = Some be,
       cfg_Policy = Some toy_policy, cfg_KubeClient = Some (client web_resolver)\<rparr>,
     d_resolver = web_resolver, d_machine = counting_machine depth\<rparr>"

lemma counting_sees: "sees_mounts (driver_over be depth) depth"
  by (auto simp: sees_mounts_def driver_over_def counting_machine_def isMounted_def)

abbreviation give_back :: "node_request list" where
  "give_back \<equiv> [PublishRequest web_request, UnpublishRequest ''csi-1'' web_target]"

definition willing_kernel :: kernel where
  "willing_kernel log c = Inr 0"

text \<open>The parts of the first request.\<close>

abbreviation empty_node :: node where
  "empty_node \<equiv> \<lparr>calls = [], fsopen_cache = None\<rparr>"

definition web_overlay :: "(node, overlay_error) driver" where
  "web_overlay = driver_over (overlayBackend willing_kernel) overlay_depth"

definition web_attrs :: parsed_attributes where
  "web_attrs = \<lparr>pa_SourceVolumes = [\<lparr>sv_Name = ''cache'', sv_Mode = ''RW''\<rparr>, \<lparr>sv_Name = ''data'', sv_Mode = ''RO''\<rparr>],
      pa_Options = [], pa_PodNamespace = ''shop'', pa_PodName = ''web'', pa_PodUID = ''u1''\<rparr>"

definition web_sources :: "source_path list" where
  "web_sources = (case ResolveIn (d_resolver web_overlay) web_pod [''cache'', ''data''] of Inr rs \<Rightarrow> rs | Inl e \<Rightarrow> [])"

definition web_real :: "source list" where
  "web_real = (case real_sources web_overlay [(''cache'', ''RW''), (''data'', ''RO'')] web_sources empty_node of
       Inr ss \<Rightarrow> ss | Inl e \<Rightarrow> [])"

definition web_mount :: mount_spec where
  "web_mount = \<lparr>VolumeID = ''csi-1'', Target = web_target, Sources = web_real, Options = overlay_DefaultOptions, ReadOnly = False\<rparr>"

definition web_layout :: layout where
  "web_layout = (case planLayout web_mount of Inr l \<Rightarrow> l | Inl e \<Rightarrow> undefined)"

lemma web_overlay_evaluated:
  "req_VolumeCapability web_request \<and> req_VolumeId web_request = ''csi-1'' \<and>
   req_TargetPath web_request = web_target \<and> web_target \<noteq> [] \<and>
   map_index (req_VolumeContext web_request) attrEphemeral = ''true'' \<and> \<not> req_Readonly web_request \<and>
   parse web_overlay (req_VolumeContext web_request) = Inr web_attrs \<and>
   Resolve (the_policy web_overlay) (pa_Options web_attrs) = Inr overlay_DefaultOptions \<and>
   GetPod (d_resolver web_overlay) (pa_PodNamespace web_attrs) (pa_PodName web_attrs) (pa_PodUID web_attrs) = Inr web_pod \<and>
   sharedSource web_overlay web_pod web_target = ([], []) \<and>
   ResolveIn (d_resolver web_overlay) web_pod (map sv_Name (pa_SourceVolumes web_attrs)) = Inr web_sources \<and>
   WaitReady (mounter (d_machine web_overlay)) web_sources (cfg_PublishTimeout (d_config web_overlay)) empty_node =
     Some (Inr (), empty_node) \<and>
   real_sources web_overlay [(''cache'', ''RW''), (''data'', ''RO'')] web_sources empty_node = Inr web_real"
  by code_simp

lemma web_layout_evaluated:
  "planLayout web_mount = Inr web_layout \<and> rwRoot web_layout \<noteq> [] \<and> \<not> readOnly web_layout \<and>
   options web_layout = overlay_DefaultOptions \<and> lowers web_layout = [hd (lowers web_layout)]"
  by code_simp

lemma web_overlay_real:
  "real_sources web_overlay (map (\<lambda>sv. (sv_Name sv, sv_Mode sv)) (pa_SourceVolumes web_attrs)) web_sources empty_node =
     Inr (Sources web_mount)"
  using web_overlay_evaluated by (simp add: web_attrs_def web_mount_def)

lemma web_overlay_mounted:
  "fst (run_state (mountUnion willing_kernel web_mount overlay_Schema) empty_node) = Inr ()"
proof -
  have "planLayout web_mount = Inr web_layout" "rwRoot web_layout \<noteq> []" "\<not> readOnly web_layout"
    "options web_layout = overlay_DefaultOptions"
    using web_layout_evaluated by blast+
  moreover obtain l where "lowers web_layout = [l]" using web_layout_evaluated by blast
  moreover have target: "Target web_mount = web_target" by (simp add: web_mount_def)
  ultimately show ?thesis
    by (simp add: mountUnion_def openWorkspace_def openLayer_def checkUpperFS_def sys_check_def
        openDirNoFollow_def Let_def close_fd_def ws_close_def mount_layout_def single_def
        fsopenSupported_def wrap_error_def mountFsconfig_def sortedOptions_def fdPath_def
        willing_kernel_def unsupportedUpperFS_def upperName_def workName_def target overlay_DefaultOptions_def)
qed

lemmas web_overlay_parts = web_overlay_evaluated web_overlay_real

lemma truthful_willing: "truthful willing_kernel = willing_kernel"
  by (rule ext)+ (simp add: truthful_def willing_kernel_def split: syscall.split)

lemma web_overlay_run: "\<exists>w'. handle_all web_overlay give_back empty_node = Some ([Inr (), Inr ()], w')"
proof -
  have unmounted: "isMounted web_overlay web_target empty_node = Inr False"
    by (simp add: isMounted_def web_overlay_def driver_over_def counting_machine_def overlay_depth_def mounts_def)
  have ids: "pa_PodNamespace web_attrs \<noteq> []" "pa_PodName web_attrs \<noteq> []" "pa_PodUID web_attrs \<noteq> []"
    by (simp_all add: web_attrs_def)
  have be: "Mount (the_backend web_overlay) spec = mountUnion willing_kernel spec overlay_Schema"
    "Unmount (the_backend web_overlay) v t = unmountUnion willing_kernel t"
    "MkdirAll (d_machine web_overlay) t = ok ()" "Remove (d_machine web_overlay) t = ok ()" for spec v t
    by (simp_all add: web_overlay_def driver_over_def overlayBackend_def counting_machine_def)
  obtain w1 where m: "run_state (mountUnion willing_kernel web_mount overlay_Schema) empty_node = (Inr (), w1)"
    using web_overlay_mounted by (metis prod.collapse)
  have spec: "\<lparr>VolumeID = ''csi-1'', Target = web_target, Sources = Sources web_mount, Options = overlay_DefaultOptions,
      ReadOnly = False\<rparr> = web_mount" by (simp add: web_mount_def)
  have "publishUnion web_overlay web_request web_attrs overlay_DefaultOptions web_pod empty_node = Some (Inr (), w1)"
    unfolding publishUnion_def Let_def
    by (simp add: and_then_def give_def observe_def run_def wait_for_def web_overlay_parts be spec m)
  then have "NodePublishVolume web_overlay web_request empty_node = Some (Inr (), w1)"
    using ids unmounted by (simp add: NodePublishVolume_def and_then_def give_def observe_def web_overlay_parts)
  moreover have "\<exists>w2. NodeUnpublishVolume web_overlay ''csi-1'' web_target w1 = Some (Inr (), w2)"
    by (simp add: NodeUnpublishVolume_def and_then_def run_def web_overlay_parts be unmountUnion_def willing_kernel_def)
  ultimately show ?thesis by auto
qed

theorem overlay_service_refines_witness:
  "\<exists>w' S'. handle_all web_overlay give_back empty_node = Some ([Inr (), Inr ()], w') \<and>
     spec_run {} (zip give_back [Inr () :: overlay_error status + unit, Inr ()]) S' \<and> published overlay_depth w' S'"
proof -
  obtain w' where run: "handle_all web_overlay give_back empty_node = Some ([Inr (), Inr ()], w')"
    using web_overlay_run by blast
  have "the_backend web_overlay = overlayBackend (truthful willing_kernel)"
    by (simp add: web_overlay_def driver_over_def truthful_willing)
  moreover have "sees_mounts web_overlay overlay_depth" by (simp add: web_overlay_def counting_sees)
  moreover have "published overlay_depth empty_node {}"
    by (simp add: published_def overlay_depth_def [abs_def] mounts_def)
  ultimately show ?thesis using overlay_service_refines [OF _ _ _ run] run by blast
qed

definition serving_backend :: mergerfsBackend where
  "serving_backend = \<lparr>outside = (\<lambda>log c. Done), useSandbox = True, sealControl = True, stateDir = ''/state''\<rparr>"

definition serving_node :: mnode where
  "serving_node = \<lparr>elog = [(StartDaemon ''csi-1'' [] ''/t'', Done)], stale = []\<rparr>"

definition web_mergerfs :: "(mnode, mergerfs_error) driver" where
  "web_mergerfs = driver_over (mergerfs_backend serving_backend) fuse_depth"

theorem mergerfs_service_refines_witness:
  "\<exists>w' S'. handle_all web_mergerfs [UnpublishRequest ''csi-1'' ''/t''] serving_node = Some ([Inr ()], w') \<and>
     spec_run {''/t''} [(UnpublishRequest ''csi-1'' ''/t'', Inr () :: mergerfs_error status + unit)] S' \<and>
     published fuse_depth w' S'"
proof -
  have "map_option fst (handle_all web_mergerfs [UnpublishRequest ''csi-1'' ''/t''] serving_node) = Some [Inr ()]"
    by code_simp
  then obtain w' where run: "handle_all web_mergerfs [UnpublishRequest ''csi-1'' ''/t''] serving_node = Some ([Inr ()], w')"
    by auto
  have "the_backend web_mergerfs = mergerfs_backend serving_backend" "sees_mounts web_mergerfs fuse_depth"
    by (simp_all add: web_mergerfs_def driver_over_def counting_sees [unfolded driver_over_def])
  moreover have "published fuse_depth serving_node {''/t''}"
    by (simp add: published_def fuse_depth_def serving_node_def failed_def fun_eq_iff)
  ultimately show ?thesis using mergerfs_service_refines [OF _ _ _ run] run by fastforce
qed

end
