(* ===== verification/Interceptor.thy ===== *)
theory Interceptor
  imports NodeService
begin

text \<open>
  The interceptor of the gRPC server, \<open>logGRPC\<close> and \<open>logGRPCJSON\<close> in \<open>pkg/driver/server.go\<close>: it runs around
  every handler and logs the call. Messages of any type \<open>'m\<close>; \<open>StripSecrets\<close> of the sanitizer library,
  \<open>json.Marshal\<close> and the text of an error are parameters.
\<close>

section \<open>Log lines\<close>

record ('m, 'e) log_message =
  lm_Method :: string
  lm_Request :: 'm
  lm_Response :: 'm
  lm_Error :: string
  lm_FullError :: "'e option"

datatype 'e log_line =
    CallLine string
  | RequestLine string
  | ErrorLine 'e
  | ResponseLine string
  | JSONLine string

record ('m, 'e) log_library =
  StripSecrets :: "'m \<Rightarrow> string"
  Marshal :: "('m, 'e) log_message \<Rightarrow> string + string"
  ErrorText :: "'e \<Rightarrow> string"

text \<open>\<open>klog.V(pri)\<close> prints if the verbosity of the process is \<open>pri\<close> or more.\<close>

definition klog_V :: "nat \<Rightarrow> nat \<Rightarrow> 'e log_line \<Rightarrow> 'e log_line list" where
  "klog_V verbosity pri line = (if pri \<le> verbosity then [line] else [])"

section \<open>The interceptor\<close>

text \<open>The code puts the error of \<open>json.Marshal\<close> into the message after the message was marshalled, where
  nothing reads it: what is logged then is the empty text \<open>Marshal\<close> returned.\<close>

definition logGRPCJSON ::
    "nat \<Rightarrow> ('m, 'e) log_library \<Rightarrow> string \<Rightarrow> 'm \<Rightarrow> 'm \<Rightarrow> 'e option \<Rightarrow> 'e log_line list" where
  "logGRPCJSON verbosity lib method request reply err =
     (let logMessage = \<lparr>lm_Method = method, lm_Request = request, lm_Response = reply,
            lm_Error = (case err of None \<Rightarrow> [] | Some e \<Rightarrow> ErrorText lib e), lm_FullError = err\<rparr>;
          msg = (case Marshal lib logMessage of Inl e \<Rightarrow> [] | Inr text \<Rightarrow> text)
      in klog_V verbosity 5 (JSONLine msg))"

text \<open>The lines logged, and what the handler returned, unless it does not return.\<close>

definition logGRPC ::
    "nat \<Rightarrow> ('m, 'e) log_library \<Rightarrow> string \<Rightarrow> 'm \<Rightarrow> ('m \<Rightarrow> 'w \<Rightarrow> (('m \<times> 'e option) \<times> 'w) option) \<Rightarrow> 'w \<Rightarrow>
     'e log_line list \<times> (('m \<times> 'e option) \<times> 'w) option" where
  "logGRPC verbosity lib method req handler w =
     (let pri = (if method = ''/csi.v1.Identity/Probe'' then 5 else 3);
          before = klog_V verbosity pri (CallLine method) @
            (if 5 \<le> verbosity then klog_V verbosity 5 (RequestLine (StripSecrets lib req)) else [])
      in case handler req w of
           None \<Rightarrow> (before, None)
         | Some ((resp, err), w') \<Rightarrow>
             (before @
              (case err of Some e \<Rightarrow> [ErrorLine e] | None \<Rightarrow> []) @
              (if 5 \<le> verbosity
               then klog_V verbosity 5 (ResponseLine (StripSecrets lib resp)) @
                 logGRPCJSON verbosity lib method req resp err
               else []),
              Some ((resp, err), w')))"

lemma klog_V_simps [simp]:
  "pri \<le> verbosity \<Longrightarrow> klog_V verbosity pri line = [line]"
  "verbosity < pri \<Longrightarrow> klog_V verbosity pri line = []"
  by (simp_all add: klog_V_def)

text \<open>The interceptor changes nothing of a call: the handler runs once, on the request as it came, and its
  response, its error and what it did to the node are passed on as they are. Every error is logged, at every
  verbosity, once.\<close>

theorem interceptor_transparent:
  "snd (logGRPC verbosity lib method req handler w) = handler req w \<and>
   filter (\<lambda>l. \<exists>e. l = ErrorLine e) (fst (logGRPC verbosity lib method req handler w)) =
     (case handler req w of Some ((resp, Some e), w') \<Rightarrow> [ErrorLine e] | _ \<Rightarrow> [])"
  by (auto simp: logGRPC_def logGRPCJSON_def Let_def klog_V_def split: option.split)

text \<open>Below verbosity 5 the log shows nothing of a request or a response: calls of the same method that
  end with the same error, or with none, or not at all, log the same.\<close>

theorem log_hides_messages:
  assumes "verbosity < 5"
    and "map_option (\<lambda>r. snd (fst r)) (handler req w) = map_option (\<lambda>r. snd (fst r)) (handler' req' w')"
  shows "fst (logGRPC verbosity lib method req handler w) = fst (logGRPC verbosity lib' method req' handler' w')"
  using assms
  by (cases "handler req w"; cases "handler' req' w'") (auto simp: logGRPC_def Let_def)

text \<open>C35: From verbosity 5 on, secrets are logged: the request is printed without them first, but the JSON
  line holds the request as it came. Two requests that only differ in what is stripped are told apart by the
  log, if the JSON of a message shows its request.\<close>

theorem log_shows_secrets:
  assumes "5 \<le> verbosity" and "StripSecrets lib req = StripSecrets lib req'" and "req \<noteq> req'"
    and "handler req w = Some ((resp, err), w1)" and "handler req' w = Some ((resp, err), w1)"
    and "\<And>m. Marshal lib m = Inr (json m)" and "\<And>m m'. json m = json m' \<Longrightarrow> lm_Request m = lm_Request m'"
  shows "fst (logGRPC verbosity lib method req handler w) \<noteq> fst (logGRPC verbosity lib method req' handler w) \<and>
    butlast (fst (logGRPC verbosity lib method req handler w)) = butlast (fst (logGRPC verbosity lib method req' handler w))"
  using assms(1-5) assms(7) [of "\<lparr>lm_Method = method, lm_Request = req, lm_Response = resp,
      lm_Error = (case err of None \<Rightarrow> [] | Some e \<Rightarrow> ErrorText lib e), lm_FullError = err\<rparr>"
    "\<lparr>lm_Method = method, lm_Request = req', lm_Response = resp,
      lm_Error = (case err of None \<Rightarrow> [] | Some e \<Rightarrow> ErrorText lib e), lm_FullError = err\<rparr>"]
  by (auto simp: logGRPC_def logGRPCJSON_def Let_def assms(6) butlast_append split: option.split)

text \<open>A library that strips everything and prints requests as they are, and a publish with a password.\<close>

definition plain_library :: "(string, unit) log_library" where
  "plain_library = \<lparr>StripSecrets = (\<lambda>m. ''***stripped***''), Marshal = (\<lambda>m. Inr (lm_Request m)), ErrorText = (\<lambda>e. [])\<rparr>"

definition accepting :: "string \<Rightarrow> unit \<Rightarrow> ((string \<times> unit option) \<times> unit) option" where
  "accepting req w = Some (([], None), w)"

theorem log_shows_secrets_witness:
  "fst (logGRPC 5 plain_library ''/csi.v1.Node/NodePublishVolume'' ''password 1'' accepting ()) \<noteq>
   fst (logGRPC 5 plain_library ''/csi.v1.Node/NodePublishVolume'' ''password 2'' accepting ())"
  using log_shows_secrets [of 5 plain_library "''password 1''" "''password 2''" accepting "()" "[]" None "()" lm_Request
      "''/csi.v1.Node/NodePublishVolume''"]
  by (simp add: plain_library_def accepting_def)

theorem log_hides_messages_witness:
  "fst (logGRPC 4 plain_library ''/csi.v1.Node/NodePublishVolume'' ''password 1'' accepting ()) =
   fst (logGRPC 4 plain_library ''/csi.v1.Node/NodePublishVolume'' ''password 2'' accepting ())"
  by (rule log_hides_messages) (simp_all add: accepting_def)

end
