(* ===== verification/DaemonLog.thy ===== *)
theory DaemonLog
  imports Prelude
begin

text \<open>
  The end of the output of a daemon, which \<open>startDaemon\<close> logs when the daemon does not come up:
  \<open>daemonOutput\<close> in \<open>mount_linux.go\<close>, with \<open>strings.TrimSpace\<close> on bytes.
\<close>

section \<open>White space\<close>

text \<open>The runes of \<open>unicode.IsSpace\<close> in UTF-8.\<close>

definition space_runes :: "string list" where
  "space_runes =
     [''\<newline>'', [CHR 0x09], [CHR 0x0B], [CHR 0x0C], [CHR 0x0D], '' '', [CHR 0xC2, CHR 0x85], [CHR 0xC2, CHR 0xA0],
      [CHR 0xE1, CHR 0x9A, CHR 0x80]] @
     map (\<lambda>c. [CHR 0xE2, CHR 0x80, c])
       [CHR 0x80, CHR 0x81, CHR 0x82, CHR 0x83, CHR 0x84, CHR 0x85, CHR 0x86, CHR 0x87, CHR 0x88, CHR 0x89,
        CHR 0x8A, CHR 0xA8, CHR 0xA9, CHR 0xAF] @
     [[CHR 0xE2, CHR 0x81, CHR 0x9F], [CHR 0xE3, CHR 0x80, CHR 0x80]]"

text \<open>Words of \<open>ws\<close> are taken off the front as long as there is one.\<close>

function trim_front :: "string list \<Rightarrow> string \<Rightarrow> string" where
  "trim_front ws s =
     (case find (\<lambda>w. w \<noteq> [] \<and> prefix w s) ws of
        None \<Rightarrow> s
      | Some w \<Rightarrow> trim_front ws (drop (length w) s))"
  by pat_completeness auto
termination
  by (relation "measure (\<lambda>(ws, s). length s)") (auto simp: find_Some_iff prefix_def)

declare trim_front.simps [simp del]

definition TrimSpace :: "string \<Rightarrow> string" where
  "TrimSpace s = rev (trim_front (map rev space_runes) (rev (trim_front space_runes s)))"

lemma trim_front_suffix: "suffix (trim_front ws s) s"
proof (induction ws s rule: trim_front.induct)
  case (1 ws s)
  show ?case
  proof (cases "find (\<lambda>w. w \<noteq> [] \<and> prefix w s) ws")
    case None
    then show ?thesis by (simp add: trim_front.simps [of ws s])
  next
    case (Some w)
    then have "suffix (trim_front ws (drop (length w) s)) (drop (length w) s)" by (rule 1)
    then have "suffix (trim_front ws (drop (length w) s)) s"
      using suffix_order.trans suffix_drop by blast
    then show ?thesis using Some by (simp add: trim_front.simps [of ws s])
  qed
qed

lemma trim_front_clean: "w \<in> set ws \<Longrightarrow> w \<noteq> [] \<Longrightarrow> \<not> prefix w (trim_front ws s)"
proof (induction ws s rule: trim_front.induct)
  case (1 ws s)
  show ?case
  proof (cases "find (\<lambda>w. w \<noteq> [] \<and> prefix w s) ws")
    case None
    then have "trim_front ws s = s" by (simp add: trim_front.simps [of ws s])
    then show ?thesis using None 1(2,3) by (auto simp: find_None_iff)
  next
    case (Some u)
    then show ?thesis using 1 by (simp add: trim_front.simps [of ws s])
  qed
qed

lemma trim_front_same: "(\<And>w. w \<in> set ws \<Longrightarrow> w \<noteq> [] \<Longrightarrow> \<not> prefix w s) \<Longrightarrow> trim_front ws s = s"
  by (auto simp: trim_front.simps [of ws s] find_Some_iff split: option.split)

text \<open>Nothing but white space goes, and none is left at an end.\<close>

definition no_space_ends :: "string \<Rightarrow> bool" where
  "no_space_ends s \<longleftrightarrow> list_all (\<lambda>w. \<not> prefix w s \<and> \<not> suffix w s) space_runes"

lemma space_runes_nonempty: "w \<in> set space_runes \<Longrightarrow> w \<noteq> []"
  by (auto simp: space_runes_def)

lemma TrimSpace_part: "\<exists>a z. s = a @ TrimSpace s @ z"
proof -
  obtain a where a: "s = a @ trim_front space_runes s"
    using trim_front_suffix [of space_runes s] by (auto simp: suffix_def)
  obtain z where "rev (trim_front space_runes s) = z @ rev (TrimSpace s)"
    using trim_front_suffix [of "map rev space_runes" "rev (trim_front space_runes s)"]
    by (auto simp: suffix_def TrimSpace_def)
  then have "trim_front space_runes s = TrimSpace s @ rev z" by (metis rev_append rev_rev_ident)
  then show ?thesis using a by metis
qed

lemma TrimSpace_ends: "no_space_ends (TrimSpace s)"
  unfolding no_space_ends_def list_all_iff
proof (intro ballI conjI)
  fix w assume w: "w \<in> set space_runes"
  have "prefix (TrimSpace s) (trim_front space_runes s)"
    using trim_front_suffix [of "map rev space_runes" "rev (trim_front space_runes s)"]
    by (simp add: TrimSpace_def suffix_to_prefix)
  then show "\<not> prefix w (TrimSpace s)"
    using trim_front_clean [OF w space_runes_nonempty [OF w], of s] prefix_order.trans by blast
  have "rev w \<in> set (map rev space_runes)" "rev w \<noteq> []" using w space_runes_nonempty by auto
  from trim_front_clean [OF this] show "\<not> suffix w (TrimSpace s)"
    by (simp add: TrimSpace_def suffix_to_prefix)
qed

lemma TrimSpace_same: "no_space_ends s \<Longrightarrow> TrimSpace s = s"
proof -
  assume a: "no_space_ends s"
  have "trim_front space_runes s = s"
    using a by (intro trim_front_same) (auto simp: no_space_ends_def list_all_iff)
  moreover have "trim_front (map rev space_runes) (rev s) = rev s"
    using a by (intro trim_front_same) (auto simp: no_space_ends_def list_all_iff suffix_to_prefix)
  ultimately show "TrimSpace s = s" by (simp add: TrimSpace_def)
qed

section \<open>The output\<close>

definition daemonOutputTail :: nat where
  "daemonOutputTail = 4096"

text \<open>\<open>opened\<close> and \<open>statted\<close> are what \<open>os.Open\<close> and \<open>Stat\<close> return; \<open>ReadAt n off\<close> are the bytes a read of
  \<open>n\<close> bytes at \<open>off\<close> got, at most \<open>n\<close>; its error is ignored.\<close>

definition daemonOutput :: "'e + unit \<Rightarrow> 'e + nat \<Rightarrow> (nat \<Rightarrow> nat \<Rightarrow> string) \<Rightarrow> string" where
  "daemonOutput opened statted ReadAt =
     (case opened of
        Inl e \<Rightarrow> []
      | Inr _ \<Rightarrow>
          (case statted of
             Inl e \<Rightarrow> []
           | Inr n \<Rightarrow> (let buf = min n daemonOutputTail in TrimSpace (take buf (ReadAt buf (n - buf))))))"

text \<open>What is logged of the output of a daemon is a part of what was read, at most 4096 bytes, without
  white space of any rune at its ends; of a file it is the end, without that white space, and what the daemon
  writes after the size was taken does not show.\<close>

theorem daemonOutput_tail:
  "length (daemonOutput opened statted ReadAt) \<le> daemonOutputTail \<and>
   no_space_ends (daemonOutput opened statted ReadAt) \<and>
   daemonOutput (Inr ()) (Inr (length out)) (\<lambda>n off. take n (drop off (out @ later))) =
     TrimSpace (drop (length out - daemonOutputTail) out)"
proof (intro conjI)
  have "length (TrimSpace s) \<le> length s" for s
    using TrimSpace_part [of s] by (metis length_append le_add1 le_add2 le_trans)
  then have "length (TrimSpace (take (min n daemonOutputTail) s)) \<le> daemonOutputTail" for n s
    by (rule order.trans) simp
  then show "length (daemonOutput opened statted ReadAt) \<le> daemonOutputTail"
    by (simp add: daemonOutput_def Let_def split: sum.split)
  have "no_space_ends []" by (auto simp: no_space_ends_def list_all_iff dest: space_runes_nonempty)
  then show "no_space_ends (daemonOutput opened statted ReadAt)"
    by (simp add: daemonOutput_def Let_def TrimSpace_ends split: sum.split)
  let ?n = "min (length out) daemonOutputTail"
  have "take ?n (take ?n (drop (length out - ?n) (out @ later))) = drop (length out - daemonOutputTail) out"
    by (simp add: min_def)
  then show "daemonOutput (Inr ()) (Inr (length out)) (\<lambda>n off. take n (drop off (out @ later))) =
      TrimSpace (drop (length out - daemonOutputTail) out)"
    by (simp add: daemonOutput_def Let_def)
qed

end
