(* ===== verification/Server.thy ===== *)
theory Server
  imports Main
begin

text \<open>
  The life of the gRPC server: \<open>Driver.Run\<close> (\<open>pkg/driver/driver.go\<close>) and \<open>pkg/driver/server.go\<close>. Two
  goroutines run side by side, the one that called \<open>Run\<close> and the one \<open>Start\<close> creates for \<open>serve\<close>; a
  step is one of them moving, in any order. A panic and \<open>klog.Fatalf\<close> end the process. Of the gRPC
  library the model takes that \<open>GracefulStop\<close> dereferences its receiver, closes the listener being
  served and makes \<open>Serve\<close> return, and that \<open>Serve\<close> on a stopped server closes its listener; of
  package \<open>net\<close> that closing a listener on a socket file removes the file.
\<close>

section \<open>States\<close>

datatype run_pc = Starting | WaitingForSignal | InStop | InCleanup | StopReturned | RunReturned | Panicked

datatype serve_pc =
    NotStarted | InListen | SettingServer | SettingCleanup | Registering | Serving | ServeReturned
  | FatalExit

text \<open>\<open>up_at_signal\<close> is history: whether both fields of the server were set when the signal came.\<close>

record grpc_server =
  run_at :: run_pc
  serve_at :: serve_pc
  server_set :: bool
  cleanup_set :: bool
  stopped :: bool
  listener_open :: bool
  socket_file :: bool
  runner_cancelled :: bool
  up_at_signal :: bool

definition new_server :: grpc_server where
  "new_server = \<lparr>run_at = Starting, serve_at = NotStarted, server_set = False, cleanup_set = False,
     stopped = False, listener_open = False, socket_file = False, runner_cancelled = False,
     up_at_signal = False\<rparr>"

definition process_runs :: "grpc_server \<Rightarrow> bool" where
  "process_runs s \<longleftrightarrow> run_at s \<noteq> Panicked \<and> run_at s \<noteq> RunReturned \<and> serve_at s \<noteq> FatalExit"

section \<open>Steps\<close>

text \<open>The goroutine of \<open>Run\<close> outside \<open>Stop\<close>.\<close>

inductive run_step :: "grpc_server \<Rightarrow> grpc_server \<Rightarrow> bool" where
  Start: "run_at s = Starting \<Longrightarrow>
    run_step s (s\<lparr>run_at := WaitingForSignal, serve_at := InListen\<rparr>)"
| signal: "run_at s = WaitingForSignal \<Longrightarrow>
    run_step s (s\<lparr>run_at := InStop, up_at_signal := (server_set s \<and> cleanup_set s)\<rparr>)"
| returns: "run_at s = StopReturned \<Longrightarrow>
    run_step s (s\<lparr>run_at := RunReturned, runner_cancelled := True\<rparr>)"

text \<open>\<open>Stop\<close>: the graceful stop and the clean-up, each through a field that may still be nil.\<close>

inductive stop_step :: "grpc_server \<Rightarrow> grpc_server \<Rightarrow> bool" where
  stop_nil: "run_at s = InStop \<Longrightarrow> \<not> server_set s \<Longrightarrow> stop_step s (s\<lparr>run_at := Panicked\<rparr>)"
| stop: "run_at s = InStop \<Longrightarrow> server_set s \<Longrightarrow> serve_at s \<noteq> Serving \<Longrightarrow>
    stop_step s (s\<lparr>run_at := InCleanup, stopped := True\<rparr>)"
| stop_serving: "run_at s = InStop \<Longrightarrow> server_set s \<Longrightarrow> serve_at s = Serving \<Longrightarrow>
    stop_step s (s\<lparr>run_at := InCleanup, stopped := True, serve_at := ServeReturned,
      listener_open := False, socket_file := False\<rparr>)"
| cleanup_nil: "run_at s = InCleanup \<Longrightarrow> \<not> cleanup_set s \<Longrightarrow> stop_step s (s\<lparr>run_at := Panicked\<rparr>)"
| cleanup: "run_at s = InCleanup \<Longrightarrow> cleanup_set s \<Longrightarrow>
    stop_step s (s\<lparr>run_at := StopReturned, socket_file := False\<rparr>)"

text \<open>The goroutine of \<open>serve\<close>. \<open>unix\<close>: the endpoint is a socket file, which the clean-up removes.\<close>

inductive serve_step :: "bool \<Rightarrow> grpc_server \<Rightarrow> grpc_server \<Rightarrow> bool" for unix where
  listen_fails: "serve_at s = InListen \<Longrightarrow> serve_step unix s (s\<lparr>serve_at := FatalExit\<rparr>)"
| listens: "serve_at s = InListen \<Longrightarrow>
    serve_step unix s (s\<lparr>serve_at := SettingServer, listener_open := True, socket_file := unix\<rparr>)"
| sets_server: "serve_at s = SettingServer \<Longrightarrow>
    serve_step unix s (s\<lparr>serve_at := SettingCleanup, server_set := True\<rparr>)"
| sets_cleanup: "serve_at s = SettingCleanup \<Longrightarrow>
    serve_step unix s (s\<lparr>serve_at := Registering, cleanup_set := True\<rparr>)"
| serves: "serve_at s = Registering \<Longrightarrow> \<not> stopped s \<Longrightarrow>
    serve_step unix s (s\<lparr>serve_at := Serving\<rparr>)"
| serves_stopped: "serve_at s = Registering \<Longrightarrow> stopped s \<Longrightarrow>
    serve_step unix s (s\<lparr>serve_at := ServeReturned, listener_open := False, socket_file := False\<rparr>)"

inductive server_step :: "bool \<Rightarrow> grpc_server \<Rightarrow> grpc_server \<Rightarrow> bool" for unix where
  run: "process_runs s \<Longrightarrow> run_step s t \<Longrightarrow> server_step unix s t"
| stops: "process_runs s \<Longrightarrow> stop_step s t \<Longrightarrow> server_step unix s t"
| serve: "process_runs s \<Longrightarrow> serve_step unix s t \<Longrightarrow> server_step unix s t"

lemmas server_rules =
  server_step.run [OF _ run_step.Start] server_step.run [OF _ run_step.signal]
  server_step.run [OF _ run_step.returns] server_step.stops [OF _ stop_step.stop_nil]
  server_step.stops [OF _ stop_step.stop] server_step.stops [OF _ stop_step.stop_serving]
  server_step.stops [OF _ stop_step.cleanup_nil] server_step.stops [OF _ stop_step.cleanup]
  server_step.serve [OF _ serve_step.listens] server_step.serve [OF _ serve_step.sets_server]
  server_step.serve [OF _ serve_step.sets_cleanup] server_step.serve [OF _ serve_step.serves]

inductive server_reachable :: "bool \<Rightarrow> grpc_server \<Rightarrow> bool" for unix where
  start: "server_reachable unix new_server"
| step: "server_reachable unix s \<Longrightarrow> server_step unix s t \<Longrightarrow> server_reachable unix t"

section \<open>The invariant\<close>

definition serve_inv :: "grpc_server \<Rightarrow> bool" where
  "serve_inv s \<longleftrightarrow>
     (server_set s \<longleftrightarrow> serve_at s \<in> {SettingCleanup, Registering, Serving, ServeReturned}) \<and>
     (cleanup_set s \<longleftrightarrow> serve_at s \<in> {Registering, Serving, ServeReturned}) \<and>
     (listener_open s \<longleftrightarrow> serve_at s \<in> {SettingServer, SettingCleanup, Registering, Serving}) \<and>
     (run_at s = Starting \<longleftrightarrow> serve_at s = NotStarted)"

definition stop_inv :: "bool \<Rightarrow> grpc_server \<Rightarrow> bool" where
  "stop_inv unix s \<longleftrightarrow>
     (up_at_signal s \<longrightarrow> cleanup_set s \<and> run_at s \<notin> {Starting, WaitingForSignal, Panicked}) \<and>
     (run_at s \<in> {Starting, WaitingForSignal, InStop} \<longrightarrow> \<not> stopped s) \<and>
     (run_at s \<in> {InCleanup, StopReturned, RunReturned} \<longrightarrow> stopped s \<and> serve_at s \<noteq> Serving) \<and>
     (runner_cancelled s \<longleftrightarrow> run_at s = RunReturned) \<and>
     (socket_file s \<longrightarrow> unix \<and> listener_open s) \<and>
     (run_at s \<in> {StopReturned, RunReturned} \<longrightarrow> cleanup_set s \<and> \<not> socket_file s)"

lemma run_step_inv:
  "run_step s t \<Longrightarrow> serve_inv s \<Longrightarrow> stop_inv unix s \<Longrightarrow> serve_inv t \<and> stop_inv unix t"
  by (induction rule: run_step.induct) (auto simp: serve_inv_def stop_inv_def)

lemma stop_step_inv:
  "stop_step s t \<Longrightarrow> serve_inv s \<Longrightarrow> stop_inv unix s \<Longrightarrow> serve_inv t \<and> stop_inv unix t"
  by (induction rule: stop_step.induct) (auto simp: serve_inv_def stop_inv_def)

lemma serve_step_inv:
  "serve_step unix s t \<Longrightarrow> process_runs s \<Longrightarrow> serve_inv s \<Longrightarrow> stop_inv unix s \<Longrightarrow> serve_inv t \<and> stop_inv unix t"
  by (induction rule: serve_step.induct) (auto simp: serve_inv_def stop_inv_def process_runs_def)

lemma server_step_inv:
  "server_step unix s t \<Longrightarrow> serve_inv s \<Longrightarrow> stop_inv unix s \<Longrightarrow> serve_inv t \<and> stop_inv unix t"
  using run_step_inv stop_step_inv serve_step_inv by (blast elim: server_step.cases)

lemma server_reachable_inv: "server_reachable unix s \<Longrightarrow> serve_inv s \<and> stop_inv unix s"
proof (induction rule: server_reachable.induct)
  case start
  show ?case by (simp add: serve_inv_def stop_inv_def new_server_def)
next
  case (step s t)
  then show ?case using server_step_inv by blast
qed


section \<open>A signal that comes early\<close>

lemma step_to:
  "server_reachable unix s \<Longrightarrow> server_step unix s t \<Longrightarrow> t = t' \<Longrightarrow> server_reachable unix t'"
  using server_reachable.step by blast

lemmas server_run = new_server_def process_runs_def

text \<open>The steps of \<open>serve\<close> while the driver waits for the signal.\<close>

abbreviation waiting_server :: grpc_server where
  "waiting_server \<equiv> new_server\<lparr>run_at := WaitingForSignal, serve_at := InListen\<rparr>"

abbreviation listening_server :: grpc_server where
  "listening_server \<equiv> waiting_server\<lparr>serve_at := SettingServer, listener_open := True, socket_file := True\<rparr>"

abbreviation half_set_server :: grpc_server where
  "half_set_server \<equiv> listening_server\<lparr>serve_at := SettingCleanup, server_set := True\<rparr>"

abbreviation serving_server :: grpc_server where
  "serving_server \<equiv> half_set_server\<lparr>serve_at := Serving, cleanup_set := True\<rparr>"

lemma reach_waiting: "server_reachable unix waiting_server"
  by (rule step_to [OF server_reachable.start server_rules(1)]) (simp_all add: server_run)

lemma reach_listening: "server_reachable True listening_server"
  by (rule step_to [OF reach_waiting server_rules(9)]) (simp_all add: server_run)

lemma reach_half_set: "server_reachable True half_set_server"
  by (rule step_to [OF reach_listening server_rules(10)]) (simp_all add: server_run)

lemma reach_serving: "server_reachable True serving_server"
proof -
  have "server_reachable True (half_set_server\<lparr>serve_at := Registering, cleanup_set := True\<rparr>)"
    by (rule step_to [OF reach_half_set server_rules(11)]) (simp_all add: server_run)
  then show ?thesis by (rule step_to [OF _ server_rules(12)]) (simp_all add: server_run)
qed

text \<open>C39: A signal that comes while the server is still being set up can end the driver in a panic, in
  either of two ways: before the server is set, when \<open>Stop\<close> calls a method of a nil server, and
  between the server and its clean-up, when \<open>Stop\<close> calls a nil function; the second leaves the socket
  file behind.\<close>

theorem early_signal_panics:
  "(\<exists>s. server_reachable True s \<and> run_at s = Panicked \<and> \<not> server_set s) \<and>
   (\<exists>s. server_reachable True s \<and> run_at s = Panicked \<and> server_set s \<and> socket_file s)"
proof (rule conjI)
  have "server_reachable True (waiting_server\<lparr>run_at := InStop\<rparr>)"
    by (rule step_to [OF reach_waiting server_rules(2)]) (simp_all add: server_run)
  then have "server_reachable True (waiting_server\<lparr>run_at := Panicked\<rparr>)"
    by (rule step_to [OF _ server_rules(4)]) (simp_all add: server_run)
  then show "\<exists>s. server_reachable True s \<and> run_at s = Panicked \<and> \<not> server_set s"
    by (intro exI [of _ "waiting_server\<lparr>run_at := Panicked\<rparr>"]) (simp add: server_run)
  have "server_reachable True (half_set_server\<lparr>run_at := InStop\<rparr>)"
    by (rule step_to [OF reach_half_set server_rules(2)]) (simp_all add: server_run)
  then have "server_reachable True (half_set_server\<lparr>run_at := InCleanup, stopped := True\<rparr>)"
    by (rule step_to [OF _ server_rules(5)]) (simp_all add: server_run)
  then have "server_reachable True (half_set_server\<lparr>run_at := Panicked, stopped := True\<rparr>)"
    by (rule step_to [OF _ server_rules(7)]) (simp_all add: server_run)
  then show "\<exists>s. server_reachable True s \<and> run_at s = Panicked \<and> server_set s \<and> socket_file s"
    by (intro exI [of _ "half_set_server\<lparr>run_at := Panicked, stopped := True\<rparr>"]) (simp add: server_run)
qed


end
