(* ===== verification/Proxy.thy ===== *)
theory Proxy
  imports "HOL-Library.Sublist"
begin

text \<open>
  \<open>internal/proxy/proxy.go\<close>: two listening sockets whose connections are paired, and two goroutines
  per pair that copy in one direction each. A step is one goroutine, one of the peers or the closing
  goroutine moving, in any order. A write does not block for ever: the peer takes what is written or
  the write fails. A peer that is done (it closed, or will send no more) may refuse
  what is written to it; one that aborted may also lose what it had sent. \<open>sent\<close> is history.
\<close>

section \<open>One pair of connections\<close>

record conn =
  sent :: string
  unread :: string
  hungup :: bool
  aborted :: bool
  written :: string
  closed :: bool

definition new_conn :: conn where
  "new_conn = \<lparr>sent = [], unread = [], hungup = False, aborted = False, written = [], closed = False\<rparr>"

text \<open>\<open>copy\<close> holds what it has read and not yet written. It ends by closing the connection it writes
  to, whatever ended it.\<close>

datatype copier = Copying string | Copied

inductive copy_step :: "conn \<Rightarrow> conn \<Rightarrow> copier \<Rightarrow> conn \<Rightarrow> conn \<Rightarrow> copier \<Rightarrow> bool" where
  reads: "unread f = xs @ ys \<Longrightarrow> xs \<noteq> [] \<Longrightarrow> \<not> closed f \<Longrightarrow>
    copy_step f t (Copying []) (f\<lparr>unread := ys\<rparr>) t (Copying xs)"
| writes: "xs \<noteq> [] \<Longrightarrow> \<not> closed t \<Longrightarrow>
    copy_step f t (Copying xs) f (t\<lparr>written := written t @ xs\<rparr>) (Copying [])"
| ends: "unread f = [] \<Longrightarrow> hungup f \<Longrightarrow>
    copy_step f t (Copying []) f (t\<lparr>closed := True\<rparr>) Copied"
| read_fails: "closed f \<or> aborted f \<Longrightarrow>
    copy_step f t (Copying []) f (t\<lparr>closed := True\<rparr>) Copied"
| write_fails: "xs \<noteq> [] \<Longrightarrow> hungup t \<or> aborted t \<or> closed t \<Longrightarrow> prefix zs xs \<Longrightarrow> closed t \<longrightarrow> zs = [] \<Longrightarrow>
    copy_step f t (Copying xs) f (t\<lparr>written := written t @ zs, closed := True\<rparr>) Copied"

inductive peer_step :: "conn \<Rightarrow> conn \<Rightarrow> bool" where
  sends: "\<not> hungup c \<Longrightarrow> \<not> aborted c \<Longrightarrow> peer_step c (c\<lparr>sent := sent c @ xs, unread := unread c @ xs\<rparr>)"
| hangs_up: "peer_step c (c\<lparr>hungup := True\<rparr>)"
| aborts: "peer_step c (c\<lparr>aborted := True\<rparr>)"

record link =
  conn1 :: conn
  conn2 :: conn
  copy12 :: copier
  copy21 :: copier

definition new_link :: link where
  "new_link = \<lparr>conn1 = new_conn, conn2 = new_conn, copy12 = Copying [], copy21 = Copying []\<rparr>"

inductive copiers_step :: "link \<Rightarrow> link \<Rightarrow> bool" where
  forward: "copy_step (conn1 l) (conn2 l) (copy12 l) c1 c2 d \<Longrightarrow>
    copiers_step l (l\<lparr>conn1 := c1, conn2 := c2, copy12 := d\<rparr>)"
| backward: "copy_step (conn2 l) (conn1 l) (copy21 l) c2 c1 d \<Longrightarrow>
    copiers_step l (l\<lparr>conn1 := c1, conn2 := c2, copy21 := d\<rparr>)"

inductive link_step :: "link \<Rightarrow> link \<Rightarrow> bool" where
  copies: "copiers_step l l' \<Longrightarrow> link_step l l'"
| peer1: "peer_step (conn1 l) c \<Longrightarrow> link_step l (l\<lparr>conn1 := c\<rparr>)"
| peer2: "peer_step (conn2 l) c \<Longrightarrow> link_step l (l\<lparr>conn2 := c\<rparr>)"

inductive link_reachable :: "link \<Rightarrow> bool" where
  start: "link_reachable new_link"
| step: "link_reachable l \<Longrightarrow> link_step l l' \<Longrightarrow> link_reachable l'"

section \<open>What arrives\<close>

text \<open>One direction: while it copies, nothing is lost; when it has ended, what arrived is a prefix of
  what was sent, and all of it unless an end failed first. \<open>other\<close> is whether the other direction
  has ended, which is what closes the source.\<close>

definition direction_ok :: "conn \<Rightarrow> conn \<Rightarrow> copier \<Rightarrow> bool \<Rightarrow> bool" where
  "direction_ok f t d other \<longleftrightarrow>
     (case d of
        Copying buf \<Rightarrow> sent f = written t @ buf @ unread f \<and> \<not> closed t
      | Copied \<Rightarrow> closed t \<and> prefix (written t) (sent f) \<and>
          (written t = sent f \<and> hungup f \<or> aborted f \<or> hungup t \<or> aborted t \<or> other))"

definition link_inv :: "link \<Rightarrow> bool" where
  "link_inv l \<longleftrightarrow>
     direction_ok (conn1 l) (conn2 l) (copy12 l) (copy21 l = Copied) \<and>
     direction_ok (conn2 l) (conn1 l) (copy21 l) (copy12 l = Copied)"

lemma copy_step_ok:
  assumes "copy_step f t d f' t' d'" and "direction_ok f t d other" and "direction_ok t f e (d = Copied)"
    and "other = (e = Copied)"
  shows "direction_ok f' t' d' other \<and> direction_ok t' f' e (d' = Copied)"
  using assms
  by (induction rule: copy_step.induct) (auto simp: direction_ok_def prefix_def split: copier.splits)

lemma peer_step_ok:
  assumes "peer_step c c'"
  shows "direction_ok c t d other \<Longrightarrow> direction_ok c' t d other"
    and "direction_ok f c e other' \<Longrightarrow> direction_ok f c' e other'"
  using assms by (induction rule: peer_step.induct) (auto simp: direction_ok_def prefix_def split: copier.splits)

lemma link_step_inv: "link_step l l' \<Longrightarrow> link_inv l \<Longrightarrow> link_inv l'"
proof (induction rule: link_step.induct)
  case (copies l l')
  then show ?case
  proof (induction rule: copiers_step.induct)
    case (forward l c1 c2 d)
    then show ?case
      using copy_step_ok [OF forward(1), of "copy21 l = Copied" "copy21 l"] by (simp add: link_inv_def)
  next
    case (backward l c2 c1 d)
    then show ?case
      using copy_step_ok [OF backward(1), of "copy12 l = Copied" "copy12 l"] by (simp add: link_inv_def)
  qed
qed (simp_all add: link_inv_def peer_step_ok)

lemma link_reachable_inv: "link_reachable l \<Longrightarrow> link_inv l"
proof (induction rule: link_reachable.induct)
  case start
  show ?case by (simp add: link_inv_def direction_ok_def new_link_def new_conn_def)
next
  case (step l l')
  then show ?case using link_step_inv by blast
qed

lemma direction_ok_prefix: "direction_ok f t d other \<Longrightarrow> prefix (written t) (sent f)"
  by (auto simp: direction_ok_def prefix_def split: copier.splits)

text \<open>C28: What one peer receives is, at any moment and in any interleaving, a prefix of what the other
  peer sent, byte for byte and in order, and once a copy has ended it is all of it, unless one of the
  ends broke off first or the copy in the other direction ended first.\<close>

theorem proxy_forwards_in_order:
  assumes "link_reachable l"
  shows "prefix (written (conn2 l)) (sent (conn1 l)) \<and> prefix (written (conn1 l)) (sent (conn2 l)) \<and>
    (copy12 l = Copied \<and> copy21 l \<noteq> Copied \<and> \<not> aborted (conn1 l) \<and> \<not> hungup (conn2 l) \<and> \<not> aborted (conn2 l) \<longrightarrow>
       written (conn2 l) = sent (conn1 l)) \<and>
    (copy21 l = Copied \<and> copy12 l \<noteq> Copied \<and> \<not> aborted (conn2 l) \<and> \<not> hungup (conn1 l) \<and> \<not> aborted (conn1 l) \<longrightarrow>
       written (conn1 l) = sent (conn2 l))"
proof -
  have "direction_ok (conn1 l) (conn2 l) (copy12 l) (copy21 l = Copied)"
    "direction_ok (conn2 l) (conn1 l) (copy21 l) (copy12 l = Copied)"
    using link_reachable_inv [OF assms] by (simp_all add: link_inv_def)
  then show ?thesis using direction_ok_prefix by (auto simp: direction_ok_def)
qed

section \<open>Closing is noticed\<close>

text \<open>The work a copy has left.\<close>

fun copy_left :: "conn \<Rightarrow> copier \<Rightarrow> nat" where
  "copy_left f (Copying buf) = 3 * length (unread f) + (if buf = [] then 1 else 2)"
| "copy_left f Copied = 0"

definition link_left :: "link \<Rightarrow> nat" where
  "link_left l = copy_left (conn1 l) (copy12 l) + copy_left (conn2 l) (copy21 l)"

lemma copy_step_left:
  "copy_step f t d f' t' d' \<Longrightarrow> copy_left f' d' < copy_left f d \<and> copy_left t' e = copy_left t e"
proof (induction rule: copy_step.induct)
  case (reads f xs ys t)
  then have "length xs \<ge> 1" by (cases xs) auto
  then show ?case using reads by (cases e) auto
qed (cases e; auto)+

lemma copiers_step_left: "copiers_step l l' \<Longrightarrow> link_left l' < link_left l"
proof (induction rule: copiers_step.induct)
  case (forward l c1 c2 d)
  then show ?case using copy_step_left [OF forward, of "copy21 l"] by (simp add: link_left_def)
next
  case (backward l c2 c1 d)
  then show ?case using copy_step_left [OF backward, of "copy12 l"] by (simp add: link_left_def)
qed

lemma copy_progress:
  assumes "d \<noteq> Copied" and "d = Copying [] \<Longrightarrow> unread f \<noteq> [] \<or> hungup f \<or> aborted f \<or> closed f"
  shows "\<exists>f' t' d'. copy_step f t d f' t' d'"
proof (cases d)
  case (Copying buf)
  consider "buf = []" "closed f \<or> aborted f" | "buf = []" "\<not> closed f" "unread f \<noteq> []"
    | "buf = []" "unread f = []" "hungup f" | "buf \<noteq> []" "closed t" | "buf \<noteq> []" "\<not> closed t"
    using assms Copying by blast
  then show ?thesis
  proof cases
    case 2
    then show ?thesis using copy_step.reads [of f "unread f" "[]" t] Copying by auto
  next
    case 4
    then show ?thesis using copy_step.write_fails [of buf t "[]" f] Copying by auto
  qed (use Copying in \<open>blast intro: copy_step.intros\<close>)+
qed (use assms in simp)

definition ending :: "link \<Rightarrow> bool" where
  "ending l \<longleftrightarrow> hungup (conn1 l) \<or> aborted (conn1 l) \<or> hungup (conn2 l) \<or> aborted (conn2 l) \<or>
     copy12 l = Copied \<or> copy21 l = Copied"

lemma copy_step_peer:
  "copy_step f t d f' t' d' \<Longrightarrow>
     hungup f' = hungup f \<and> aborted f' = aborted f \<and> hungup t' = hungup t \<and> aborted t' = aborted t \<and> d \<noteq> Copied"
  by (induction rule: copy_step.induct) auto

lemma copiers_ending: "copiers_step l l' \<Longrightarrow> ending l \<Longrightarrow> ending l'"
  by (induction rule: copiers_step.induct) (auto simp: ending_def dest: copy_step_peer)

lemma wound_down:
  assumes "link_inv l" and "ending l" and "\<nexists>l'. copiers_step l l'"
  shows "copy12 l = Copied \<and> copy21 l = Copied \<and> closed (conn1 l) \<and> closed (conn2 l)"
proof -
  have no: "\<nexists>f' t' d'. copy_step (conn1 l) (conn2 l) (copy12 l) f' t' d'"
    "\<nexists>f' t' d'. copy_step (conn2 l) (conn1 l) (copy21 l) f' t' d'"
    using assms(3) copiers_step.intros by blast+
  have c: "copy12 l = Copied \<longrightarrow> closed (conn2 l)" "copy21 l = Copied \<longrightarrow> closed (conn1 l)"
    using assms(1) by (auto simp: link_inv_def direction_ok_def)
  have "copy12 l = Copied \<or> copy21 l = Copied"
    using assms(2) copy_progress no unfolding ending_def by metis
  then show ?thesis using c copy_progress no by metis
qed

text \<open>C29: Closing one side is noticed at the other: once a peer of a pair has hung up or aborted, or one
  copy has ended, the two copies run out of steps, whatever the schedule, and when they have, both
  have ended and both connections are closed. So no pair of goroutines or connections is leaked.\<close>

theorem proxy_winds_down:
  assumes "link_reachable l" and "ending l"
  shows "Wellfounded.accp (\<lambda>l' l. copiers_step l l') l \<and>
    (\<forall>l'. copiers_step\<^sup>*\<^sup>* l l' \<and> (\<nexists>l''. copiers_step l' l'') \<longrightarrow>
       copy12 l' = Copied \<and> copy21 l' = Copied \<and> closed (conn1 l') \<and> closed (conn2 l'))"
proof (rule conjI)
  have "wfp (\<lambda>l' l. copiers_step l l')"
    using copiers_step_left by (intro wfp_if_convertible_to_nat [of _ link_left]) blast
  then show "Wellfounded.accp (\<lambda>l' l. copiers_step l l') l" by (rule accp_wfpD)
  show "\<forall>l'. copiers_step\<^sup>*\<^sup>* l l' \<and> (\<nexists>l''. copiers_step l' l'') \<longrightarrow>
       copy12 l' = Copied \<and> copy21 l' = Copied \<and> closed (conn1 l') \<and> closed (conn2 l')"
  proof (rule allI, rule impI)
    fix l' assume l': "copiers_step\<^sup>*\<^sup>* l l' \<and> (\<nexists>l''. copiers_step l' l'')"
    have "link_inv l' \<and> ending l'"
      using conjunct1 [OF l']
    proof (induction rule: rtranclp_induct)
      case base
      then show ?case using assms link_reachable_inv by blast
    next
      case (step y z)
      then show ?case using link_step_inv [OF link_step.copies] copiers_ending by blast
    qed
    then show "copy12 l' = Copied \<and> copy21 l' = Copied \<and> closed (conn1 l') \<and> closed (conn2 l')"
      using wound_down l' by blast
  qed
qed

section \<open>The accepting goroutine\<close>

text \<open>\<open>accept_pc\<close> is where the goroutine of \<open>Run\<close> is: it has, while waiting on the second socket, the
  first connection in hand. \<open>close_pc\<close> counts the calls \<open>Close\<close> has made: cancel, close of the two
  listeners, the two clean-ups. A listener that is closed accepts nothing; one that is open may
  still fail to.\<close>

datatype accept_pc = Accepting1 | Accepting2 | ShutDown bool

record proxy =
  accept_at :: accept_pc
  close_at :: nat
  ctx_done :: bool
  established :: nat

definition new_proxy :: proxy where
  "new_proxy = \<lparr>accept_at = Accepting1, close_at = 0, ctx_done = False, established = 0\<rparr>"

definition open1 :: "proxy \<Rightarrow> bool" where "open1 p \<longleftrightarrow> close_at p < 2"
definition open2 :: "proxy \<Rightarrow> bool" where "open2 p \<longleftrightarrow> close_at p < 3"

text \<open>\<open>accept\<close> on a listener, with whether it got a connection; an error that is ignored makes it go on.\<close>

inductive accept :: "bool \<Rightarrow> bool \<Rightarrow> bool \<Rightarrow> bool" where
  connects: "listening \<Longrightarrow> accept listening ctx_is_done True"
| shuts_down: "ctx_is_done \<Longrightarrow> accept listening ctx_is_done False"

inductive_simps accept_simps [simp]: "accept listening ctx_is_done got"

text \<open>\<open>ShutDown b\<close>: \<open>b\<close> says that a connection accepted before was closed.\<close>

inductive accept_step :: "proxy \<Rightarrow> proxy \<Rightarrow> bool" where
  accepts1: "accept_at p = Accepting1 \<Longrightarrow> accept (open1 p) (ctx_done p) True \<Longrightarrow>
    accept_step p (p\<lparr>accept_at := Accepting2\<rparr>)"
| accepts2: "accept_at p = Accepting2 \<Longrightarrow> accept (open2 p) (ctx_done p) True \<Longrightarrow>
    accept_step p (p\<lparr>accept_at := Accepting1, established := Suc (established p)\<rparr>)"
| gives_up1: "accept_at p = Accepting1 \<Longrightarrow> accept (open1 p) (ctx_done p) False \<Longrightarrow>
    accept_step p (p\<lparr>accept_at := ShutDown False\<rparr>)"
| gives_up2: "accept_at p = Accepting2 \<Longrightarrow> accept (open2 p) (ctx_done p) False \<Longrightarrow>
    accept_step p (p\<lparr>accept_at := ShutDown True\<rparr>)"

inductive close_step :: "proxy \<Rightarrow> proxy \<Rightarrow> bool" where
  cancels: "close_at p = 0 \<Longrightarrow> close_step p (p\<lparr>close_at := 1, ctx_done := True\<rparr>)"
| closes: "0 < close_at p \<Longrightarrow> close_at p < 5 \<Longrightarrow> close_step p (p\<lparr>close_at := Suc (close_at p)\<rparr>)"

inductive proxy_step :: "proxy \<Rightarrow> proxy \<Rightarrow> bool" where
  accepting: "accept_step p p' \<Longrightarrow> proxy_step p p'"
| closing: "close_step p p' \<Longrightarrow> proxy_step p p'"
| parent_done: "proxy_step p (p\<lparr>ctx_done := True\<rparr>)"

inductive proxy_reachable :: "proxy \<Rightarrow> bool" where
  start: "proxy_reachable new_proxy"
| step: "proxy_reachable p \<Longrightarrow> proxy_step p p' \<Longrightarrow> proxy_reachable p'"

inductive_cases accept_stepE: "accept_step p p'"

lemma close_cancels_first: "proxy_reachable p \<Longrightarrow> 0 < close_at p \<Longrightarrow> ctx_done p"
proof (induction rule: proxy_reachable.induct)
  case (step p p')
  from step.hyps(2) step.IH step.prems show ?case
    by (induction rule: proxy_step.induct) (auto elim!: accept_step.cases close_step.cases)
qed (simp add: new_proxy_def)

text \<open>Closing ends the accepting goroutine: from the moment both listeners are closed it has exactly
  one more step, which shuts it down without a new pair and closes a first connection it still held;
  it never spins on a closed listener, because the context is cancelled before the listeners are
  closed.\<close>

theorem close_ends_accepting:
  assumes "proxy_reachable p" and "3 \<le> close_at p"
  shows "ctx_done p \<and>
    (accept_at p = Accepting1 \<longrightarrow> (\<forall>p'. accept_step p p' \<longleftrightarrow> p' = p\<lparr>accept_at := ShutDown False\<rparr>)) \<and>
    (accept_at p = Accepting2 \<longrightarrow> (\<forall>p'. accept_step p p' \<longleftrightarrow> p' = p\<lparr>accept_at := ShutDown True\<rparr>)) \<and>
    (\<forall>b p'. accept_at p = ShutDown b \<longrightarrow> \<not> accept_step p p')"
proof -
  have "ctx_done p" using assms close_cancels_first by simp
  then show ?thesis
    using assms(2) by (auto simp: open1_def open2_def intro: accept_step.intros elim!: accept_stepE)
qed

text \<open>A done context alone does not end it: until \<open>Close\<close> is called, the goroutine goes on to accept
  and pair connections.\<close>

theorem done_context_still_accepts:
  "\<exists>p p'. proxy_reachable p \<and> ctx_done p \<and> close_at p = 0 \<and> accept_step\<^sup>*\<^sup>* p p' \<and>
     established p' = Suc (established p)"
proof (intro exI conjI)
  let ?p = "new_proxy\<lparr>ctx_done := True\<rparr>"
  show "proxy_reachable ?p" by (rule proxy_reachable.step [OF proxy_reachable.start proxy_step.parent_done])
  show "ctx_done ?p" "close_at ?p = 0" by (simp_all add: new_proxy_def)
  have "accept_step ?p (?p\<lparr>accept_at := Accepting2\<rparr>)"
    by (rule accept_step.accepts1) (simp_all add: new_proxy_def open1_def)
  moreover have "accept_step (?p\<lparr>accept_at := Accepting2\<rparr>)
      (?p\<lparr>accept_at := Accepting2\<rparr>\<lparr>accept_at := Accepting1, established := Suc (established (?p\<lparr>accept_at := Accepting2\<rparr>))\<rparr>)"
    by (rule accept_step.accepts2) (simp_all add: open2_def new_proxy_def)
  ultimately show "accept_step\<^sup>*\<^sup>* ?p
      (?p\<lparr>accept_at := Accepting2\<rparr>\<lparr>accept_at := Accepting1, established := Suc (established (?p\<lparr>accept_at := Accepting2\<rparr>))\<rparr>)"
    by (meson rtranclp.rtrancl_into_rtrancl rtranclp.rtrancl_refl)
  show "established (?p\<lparr>accept_at := Accepting2\<rparr>\<lparr>accept_at := Accepting1,
      established := Suc (established (?p\<lparr>accept_at := Accepting2\<rparr>))\<rparr>) = Suc (established ?p)"
    by simp
qed

theorem close_ends_accepting_witness:
  "\<exists>p. proxy_reachable p \<and> close_at p = 3 \<and> accept_at p = Accepting2 \<and>
     (\<forall>p'. accept_step p p' \<longleftrightarrow> p' = p\<lparr>accept_at := ShutDown True\<rparr>)"
proof -
  let ?a = "new_proxy\<lparr>accept_at := Accepting2\<rparr>"
  have "accept_step new_proxy ?a" by (rule accept_step.accepts1) (simp_all add: new_proxy_def open1_def)
  then have a: "proxy_reachable ?a" by (blast intro: proxy_reachable.intros proxy_step.accepting)
  have cl: "proxy_reachable (p\<lparr>close_at := Suc (close_at p), ctx_done := True\<rparr>)"
    if "proxy_reachable p" "close_at p < 5" "0 < close_at p \<longrightarrow> ctx_done p" for p
  proof (cases "close_at p = 0")
    case True
    then have "close_step p (p\<lparr>close_at := 1, ctx_done := True\<rparr>)" by (rule close_step.cancels)
    then show ?thesis using that True by (auto intro: proxy_reachable.step proxy_step.closing)
  next
    case False
    then have "close_step p (p\<lparr>close_at := Suc (close_at p)\<rparr>)" using that by (intro close_step.closes) simp_all
    moreover have "p\<lparr>close_at := Suc (close_at p), ctx_done := True\<rparr> = p\<lparr>close_at := Suc (close_at p)\<rparr>"
      using False that by (cases p) simp
    ultimately show ?thesis using that by (metis proxy_reachable.step proxy_step.closing)
  qed
  have "proxy_reachable (?a\<lparr>close_at := 1, ctx_done := True\<rparr>)" using cl [OF a] by (simp add: new_proxy_def)
  from cl [OF this] have "proxy_reachable (?a\<lparr>close_at := 2, ctx_done := True\<rparr>)" by (simp add: eval_nat_numeral)
  from cl [OF this] have r: "proxy_reachable (?a\<lparr>close_at := 3, ctx_done := True\<rparr>)" by (simp add: eval_nat_numeral)
  have "accept_at (?a\<lparr>close_at := 3, ctx_done := True\<rparr>) = Accepting2"
    "close_at (?a\<lparr>close_at := 3, ctx_done := True\<rparr>) = 3" by simp_all
  then show ?thesis using close_ends_accepting [OF r] r by auto
qed

section \<open>A conversation\<close>

text \<open>The first peer sends a message and hangs up.\<close>

definition said :: link where
  "said = new_link\<lparr>conn1 := new_conn\<lparr>sent := ''ping'', unread := ''ping'', hungup := True\<rparr>\<rparr>"

lemma said_reachable: "link_reachable said"
proof -
  have "link_step new_link (new_link\<lparr>conn1 := new_conn\<lparr>sent := ''ping'', unread := ''ping''\<rparr>\<rparr>)"
    using link_step.peer1 [OF peer_step.sends [of "conn1 new_link" "''ping''"]]
    by (simp add: new_link_def new_conn_def)
  moreover have "link_step (new_link\<lparr>conn1 := new_conn\<lparr>sent := ''ping'', unread := ''ping''\<rparr>\<rparr>) said"
    using link_step.peer1 [OF peer_step.hangs_up, of "new_link\<lparr>conn1 := new_conn\<lparr>sent := ''ping'', unread := ''ping''\<rparr>\<rparr>"]
    by (simp add: said_def new_link_def)
  ultimately show ?thesis using link_reachable.intros by blast
qed

definition relayed :: link where
  "relayed = said\<lparr>conn1 := (conn1 said)\<lparr>unread := []\<rparr>,
     conn2 := new_conn\<lparr>written := ''ping'', closed := True\<rparr>, copy12 := Copied\<rparr>"

lemma relayed_reachable: "link_reachable relayed"
proof -
  let ?r = "said\<lparr>conn1 := (conn1 said)\<lparr>unread := []\<rparr>, copy12 := Copying ''ping''\<rparr>"
  let ?w = "?r\<lparr>conn2 := new_conn\<lparr>written := ''ping''\<rparr>, copy12 := Copying []\<rparr>"
  have "copiers_step said ?r"
    using copiers_step.forward [of said "(conn1 said)\<lparr>unread := []\<rparr>" "conn2 said" "Copying ''ping''"]
      copy_step.reads [of "conn1 said" "''ping''" "[]" "conn2 said"]
    by (simp add: said_def new_link_def new_conn_def)
  moreover have "copiers_step ?r ?w"
    using copiers_step.forward [of ?r "conn1 ?r" "conn2 ?w" "Copying []"]
      copy_step.writes [of "''ping''" "conn2 ?r" "conn1 ?r"]
    by (simp add: said_def new_link_def new_conn_def)
  moreover have "copiers_step ?w relayed"
    using copiers_step.forward [of ?w "conn1 ?w" "conn2 relayed" Copied]
      copy_step.ends [of "conn1 ?w" "conn2 ?w"]
    by (simp add: said_def relayed_def new_link_def new_conn_def)
  ultimately show ?thesis using said_reachable link_reachable.step link_step.copies by meson
qed

theorem proxy_forwards_in_order_witness:
  "link_reachable relayed \<and> written (conn2 relayed) = ''ping'' \<and> written (conn2 relayed) = sent (conn1 relayed)"
proof -
  have "copy12 relayed = Copied \<and> copy21 relayed \<noteq> Copied \<and> \<not> aborted (conn1 relayed) \<and>
      \<not> hungup (conn2 relayed) \<and> \<not> aborted (conn2 relayed)"
    by (simp add: relayed_def said_def new_link_def new_conn_def)
  then show ?thesis
    using proxy_forwards_in_order [OF relayed_reachable] relayed_reachable by (simp add: relayed_def)
qed

theorem proxy_winds_down_witness:
  "Wellfounded.accp (\<lambda>l' l. copiers_step l l') said"
proof -
  have "ending said" by (simp add: ending_def said_def new_conn_def)
  then show ?thesis using proxy_winds_down [OF said_reachable] by blast
qed

end
