(* ===== verification/Unsupported.thy ===== *)
theory Unsupported
  imports Publish Overlay Mergerfs
begin

text \<open>
  Other systems than Linux: \<open>bind_unsupported.go\<close> and the two \<open>mount_unsupported.go\<close>. The tables of the
  backends are the same; whatever mounts, shares or unmounts is a fixed error, a repair pass does
  nothing, and the check of the sandbox passes.
\<close>

datatype unsupported = OnlyOnLinux string

definition other_BindMount :: "string \<Rightarrow> string \<Rightarrow> bool \<Rightarrow> ('w, unsupported, unit) prog" where
  "other_BindMount source target ro = fail (OnlyOnLinux ''bind mounts'')"

definition other_overlay_mountUnion :: "mount_spec \<Rightarrow> ('w, unsupported, unit) prog" where
  "other_overlay_mountUnion spec = fail (OnlyOnLinux ''overlay'')"

definition other_overlay_unmountUnion :: "string \<Rightarrow> ('w, unsupported, unit) prog" where
  "other_overlay_unmountUnion target = fail (OnlyOnLinux ''overlay'')"

definition other_overlay_bindMount :: "string \<Rightarrow> string \<Rightarrow> bool \<Rightarrow> ('w, unsupported, unit) prog" where
  "other_overlay_bindMount source target ro = fail (OnlyOnLinux ''overlay'')"

definition other_mergerfs_mountUnion :: "mount_spec \<Rightarrow> ('w, unsupported, unit) prog" where
  "other_mergerfs_mountUnion spec = fail (OnlyOnLinux ''mergerfs'')"

definition other_mergerfs_shareUnion :: "string \<Rightarrow> string \<Rightarrow> string \<Rightarrow> bool \<Rightarrow> ('w, unsupported, unit) prog" where
  "other_mergerfs_shareUnion volumeID source target ro = fail (OnlyOnLinux ''mergerfs'')"

definition other_mergerfs_unmountUnion :: "string \<Rightarrow> string \<Rightarrow> ('w, unsupported, unit) prog" where
  "other_mergerfs_unmountUnion volumeID target = fail (OnlyOnLinux ''mergerfs'')"

definition other_ids :: "('w, string list) state" where
  "other_ids = State_Monad.return []"

definition other_reconcile :: "string \<Rightarrow> ('w, unit) state" where
  "other_reconcile volumeID = State_Monad.return ()"

definition other_checkSandbox :: "('w, unsupported, unit) prog" where
  "other_checkSandbox = ok ()"

text \<open>The backends these give.\<close>

definition other_overlay :: "('w, unsupported) backend" where
  "other_overlay = \<lparr>Name = ''overlay'', Schema = overlay_Schema, SourceModes = overlay_SourceModes,
     MaxWritable = overlay_MaxWritable, DefaultOptions = overlay_DefaultOptions,
     DefaultDenylist = overlay_DefaultDenylist, Mount = other_overlay_mountUnion,
     Share = (\<lambda>volumeID. other_overlay_bindMount),
     Unmount = (\<lambda>volumeID. other_overlay_unmountUnion)\<rparr>"

definition other_mergerfs :: "bool \<Rightarrow> ('w, unsupported) backend" where
  "other_mergerfs useSandbox = \<lparr>Name = ''mergerfs'', Schema = mergerfs_Schema useSandbox,
     SourceModes = mergerfs_SourceModes, MaxWritable = mergerfs_MaxWritable,
     DefaultOptions = mergerfs_DefaultOptions, DefaultDenylist = mergerfs_DefaultDenylist,
     Mount = other_mergerfs_mountUnion, Share = other_mergerfs_shareUnion,
     Unmount = other_mergerfs_unmountUnion\<rparr>"

lemmas other_defs =
  other_overlay_mountUnion_def other_overlay_unmountUnion_def other_overlay_bindMount_def
  other_mergerfs_mountUnion_def other_mergerfs_shareUnion_def other_mergerfs_unmountUnion_def
  other_overlay_def other_mergerfs_def

text \<open>On such a system no publish and no unpublish succeeds, but for a target that was already mounted,
  and an unpublish leaves the target in place.\<close>

theorem other_systems_never_publish:
  assumes "the_backend d = other_overlay \<or> the_backend d = other_mergerfs useSandbox"
  shows "isMounted d (req_TargetPath req) w = Inr False \<Longrightarrow> NodePublishVolume d req w \<noteq> Some (Inr (), w')"
    and "volumeId \<noteq> [] \<Longrightarrow> target \<noteq> [] \<Longrightarrow>
      \<exists>e. NodeUnpublishVolume d volumeId target w = Some (Inl (Internal, UnmountError e), w)"
proof -
  assume unmounted: "isMounted d (req_TargetPath req) w = Inr False"
  show "NodePublishVolume d req w \<noteq> Some (Inr (), w')"
  proof
    assume "NodePublishVolume d req w = Some (Inr (), w')"
    from publish_success [OF this unmounted] show False
      using assms by (auto simp: mounted_union_def shared_union_def other_defs split: if_splits)
  qed
next
  assume "volumeId \<noteq> []" "target \<noteq> []"
  then show "\<exists>e. NodeUnpublishVolume d volumeId target w = Some (Inl (Internal, UnmountError e), w)"
    using assms by (auto simp: NodeUnpublishVolume_def handler_simps other_defs)
qed

end
