(* ===== verification/FilterJunit.thy ===== *)
theory FilterJunit
  imports Prelude
begin

text \<open>
  \<open>release-tools/filter-junit.go\<close>: merges JUnit files and keeps one result per test whose name matches.
  The XML library and the regular expression are parameters: what a file holds as a \<open>testsuite\<close> and as
  \<open>testsuites\<close>, how a suite is written, and which names match. A panic is \<open>None\<close>. The order of the kept
  results stands for one iteration order of the Go map.
\<close>

section \<open>Results\<close>

record test_case =
  tc_Name :: string
  tc_Time :: string
  SystemOut :: string
  SystemErr :: string
  Failure :: string
  Skipped :: string

text \<open>The \<open>skipped\<close> element: present or not, with its text. \<open>omitempty\<close> leaves it out for an empty
  string, so a present but empty element is held as a space.\<close>

definition UnmarshalText :: "string \<Rightarrow> string" where
  "UnmarshalText text = (if text = [] then '' '' else text)"

definition MarshalText :: "string \<Rightarrow> string" where
  "MarshalText s = (if s = '' '' then [] else s)"

definition read_skipped :: "string option \<Rightarrow> string" where
  "read_skipped e = (case e of None \<Rightarrow> [] | Some text \<Rightarrow> UnmarshalText text)"

definition write_skipped :: "string \<Rightarrow> string option" where
  "write_skipped s = (if s = [] then None else Some (MarshalText s))"

section \<open>Reading\<close>

datatype xml_error = WrongRoot | XmlError string

record xml =
  suite :: "string \<Rightarrow> xml_error + test_case list"
  suites :: "string \<Rightarrow> xml_error + test_case list"
  encode :: "test_case list \<Rightarrow> string option"

text \<open>One \<open>os.Stdin.Read(data)\<close> puts at most \<open>length data\<close> bytes over the data read before, and reads
  nothing into an empty buffer. \<open>chunks\<close> is what the reads of standard input give, in order; after
  them comes the end of the input, an error.\<close>

definition read_stdin :: "string list \<Rightarrow> string \<Rightarrow> (string \<times> string list) option" where
  "read_stdin chunks data =
     (if data = [] then Some (data, chunks)
      else (case chunks of
          [] \<Rightarrow> None
        | c # cs \<Rightarrow> Some (take (length data) c @ drop (length c) data, cs)))"

text \<open>\<open>files\<close> is \<open>os.ReadFile\<close>. The results of a suite are added to those read before.\<close>

fun read_inputs ::
    "xml \<Rightarrow> (string \<Rightarrow> string option) \<Rightarrow> string list \<Rightarrow> string \<Rightarrow> test_case list \<Rightarrow> string list \<Rightarrow>
     test_case list option" where
  "read_inputs x files chunks data cases [] = Some cases"
| "read_inputs x files chunks data cases (input # inputs) =
     (case (if input = ''-''
            then read_stdin chunks data
            else (case files input of None \<Rightarrow> None | Some d \<Rightarrow> Some (d, chunks))) of
        None \<Rightarrow> None
      | Some (data, chunks) \<Rightarrow>
          (case suite x data of
             Inr cs \<Rightarrow> read_inputs x files chunks data (cases @ cs) inputs
           | Inl (XmlError e) \<Rightarrow> None
           | Inl WrongRoot \<Rightarrow>
               (case suites x data of
                  Inl e \<Rightarrow> None
                | Inr cs \<Rightarrow> read_inputs x files chunks data (cases @ cs) inputs)))"

section \<open>Filtering\<close>

definition keep_case :: "(string \<Rightarrow> bool) \<Rightarrow> test_case gomap \<Rightarrow> test_case \<Rightarrow> test_case gomap" where
  "keep_case matches filtered t =
     (if \<not> matches (tc_Name t) then filtered
      else
        (case map_of filtered (tc_Name t) of
           None \<Rightarrow> AList.update (tc_Name t) t filtered
         | Some entry \<Rightarrow>
             if Skipped entry \<noteq> [] \<and> Skipped t = [] then AList.update (tc_Name t) t filtered
             else filtered))"

definition filter_cases :: "(string \<Rightarrow> bool) \<Rightarrow> test_case list \<Rightarrow> test_case gomap" where
  "filter_cases matches cases = foldl (keep_case matches) [] cases"

text \<open>The destination, \<open>None\<close> for standard output, and what is written to it.\<close>

definition filter_junit ::
    "xml \<Rightarrow> (string \<Rightarrow> string option) \<Rightarrow> string list \<Rightarrow> (string \<Rightarrow> bool) \<Rightarrow> string \<Rightarrow> string list \<Rightarrow>
     (string option \<times> string) option" where
  "filter_junit x files chunks matches output inputs =
     (case read_inputs x files chunks [] [] inputs of
        None \<Rightarrow> None
      | Some cases \<Rightarrow>
          (case encode x (map snd (filter_cases matches cases)) of
             None \<Rightarrow> None
           | Some data \<Rightarrow> Some (if output = ''-'' then None else Some output, data)))"

section \<open>What is kept\<close>

text \<open>The result of a test: its first run that was not skipped, or else its first skip.\<close>

definition chosen :: "test_case list \<Rightarrow> string \<Rightarrow> test_case option" where
  "chosen cases name =
     (let runs = filter (\<lambda>t. tc_Name t = name) cases
      in case filter (\<lambda>t. Skipped t = []) runs of
           t # ts \<Rightarrow> Some t
         | [] \<Rightarrow> (case runs of [] \<Rightarrow> None | t # ts \<Rightarrow> Some t))"

lemma chosen_simps:
  "chosen [] name = None"
  "chosen (cases @ [t]) name =
     (if tc_Name t \<noteq> name then chosen cases name
      else (case chosen cases name of
          None \<Rightarrow> Some t
        | Some entry \<Rightarrow> if Skipped entry \<noteq> [] \<and> Skipped t = [] then Some t else Some entry))"
proof -
  have real: "r \<in> set (filter (\<lambda>t. Skipped t = []) xs) \<Longrightarrow> Skipped r = []" for r and xs :: "test_case list" by simp
  have skip: "filter (\<lambda>t. Skipped t = []) xs = [] \<Longrightarrow> xs = y # ys \<Longrightarrow> Skipped y \<noteq> []"
    for xs y and ys :: "test_case list" by (auto split: if_splits)
  let ?xs = "filter (\<lambda>t. tc_Name t = name) cases"
  show "chosen [] name = None" by (simp add: chosen_def)
  show "chosen (cases @ [t]) name =
     (if tc_Name t \<noteq> name then chosen cases name
      else (case chosen cases name of
          None \<Rightarrow> Some t
        | Some entry \<Rightarrow> if Skipped entry \<noteq> [] \<and> Skipped t = [] then Some t else Some entry))"
  proof (cases "filter (\<lambda>t. Skipped t = []) ?xs")
    case (Cons r rs)
    then have "Skipped r = []" using real [of r ?xs] by simp
    then show ?thesis using Cons by (simp add: chosen_def Let_def)
  next
    case Nil
    then show ?thesis using skip [OF Nil] by (cases ?xs) (simp_all add: chosen_def Let_def)
  qed
qed

lemma set_update: "x \<in> set (AList.update k v m) \<Longrightarrow> x = (k, v) \<or> x \<in> set m"
  by (induction m) (auto split: if_splits)

text \<open>C40: Filtering keeps exactly one result of every test whose name matches and no other: its first
  run that was not skipped, in the order of the inputs, or its first skip if it never ran.\<close>

theorem filter_cases_keeps:
  "map_of (filter_cases matches cases) name = (if matches name then chosen cases name else None) \<and>
   distinct (map fst (filter_cases matches cases)) \<and>
   list_all (\<lambda>(k, t). tc_Name t = k) (filter_cases matches cases)"
proof (induction cases arbitrary: name rule: rev_induct)
  case Nil
  show ?case by (simp add: filter_cases_def chosen_simps)
next
  case (snoc t cases)
  let ?m = "filter_cases matches cases"
  have step: "filter_cases matches (cases @ [t]) = keep_case matches ?m t" by (simp add: filter_cases_def)
  have "map_of (keep_case matches ?m t) name = (if matches name then chosen (cases @ [t]) name else None)"
    using snoc [of name] snoc [of "tc_Name t"]
    by (auto simp: keep_case_def chosen_simps gomap_update split: option.splits)
  moreover have "distinct (map fst (keep_case matches ?m t))"
    using snoc by (auto simp: keep_case_def distinct_update split: option.split)
  moreover have "list_all (\<lambda>(k, t'). tc_Name t' = k) (keep_case matches ?m t)"
    using snoc by (fastforce simp: keep_case_def list_all_iff split: option.split dest!: set_update)
  ultimately show ?case unfolding step by blast
qed

section \<open>Skipped tests and standard input\<close>

text \<open>The \<open>skipped\<close> element survives, present or not, with its text; only a text that is a single
  space comes out empty.\<close>

theorem skipped_roundtrip: "write_skipped (read_skipped e) = (if e = Some '' '' then Some [] else e)"
  by (auto simp: write_skipped_def read_skipped_def UnmarshalText_def MarshalText_def split: option.split)

text \<open>As the first input, \<open>-\<close> stands for an empty file, whatever standard input holds: the buffer it is
  read into has no length. An empty file is no XML, so the program ends in a panic.\<close>

theorem stdin_first_panics:
  assumes "suite x [] = Inl (XmlError e)"
  shows "filter_junit x files chunks matches output (''-'' # inputs) = None"
  using assms by (simp add: filter_junit_def read_stdin_def)

end
