(* ===== verification/Spec2Isabelle.thy ===== *)
theory Spec2Isabelle
  imports OverlaySafety Sharing Program MergerfsProgress MergerfsLives NodeBackends Interceptor DaemonLog Server Proxy Unsupported FilterJunit
begin

text \<open>
  A model of the union CSI driver, which mounts the union of several volumes of a pod as one more,
  inline ephemeral volume of that pod. The driver turns a request of kubelet into a mount in five
  steps: it parses the volume attributes, resolves the options under the administrator's policy,
  finds where kubelet puts the named sibling volumes, waits until they are set up, and asks its
  backend, overlay or mergerfs, to mount them at the target. The mergerfs backend keeps daemons and
  repairs their mounts in the background.

  The theories, and the code under \<open>src/\<close> each models:

  \<^item> \<open>Prelude\<close>, \<open>GoPath\<close>, \<open>Regex\<close>: what the code uses of Go's \<open>strings\<close>, \<open>strconv\<close>, maps,
    \<open>path/filepath\<close> (byte by byte, for Unix) and \<open>regexp\<close>. A Go map is an association list whose
    order stands for one iteration order; a result \<open>(T, error)\<close> is a sum with \<open>Inl\<close> the error; code
    with effects is a \<open>State_Monad\<close> program, with \<open>try_do\<close> for the early return of an error and
    \<open>finally_do\<close> for \<open>defer\<close>. \<open>hoare\<close> and \<open>keeps\<close> are its program logic.
  \<^item> \<open>Backend\<close>, \<open>Policy\<close>: \<open>pkg/backend\<close> (\<open>backend.go\<close>, \<open>policy.go\<close>): the interface of a backend as a
    record of functions, option schemas, and the policy on options. Shown: which pod options are
    accepted, who wins for each option, that the result stays in the schema and does not depend on
    the order maps are walked in, the bounds of numbers. The locale \<open>backend_contract\<close> states what the
    driver needs of a backend's tables; both backends are interpretations.
  \<^item> \<open>HostPaths\<close>, \<open>RealPath\<close>, \<open>Resolver\<close>, \<open>Ready\<close>: \<open>pkg/volsource\<close> (\<open>hostpaths.go\<close>, \<open>resolve.go\<close>,
    \<open>ready.go\<close>): the host path policy, the resolution of links one component at a time, the volumes
    of a pod and their paths, and the wait. Shown: string comparison of paths is containment of
    directories; a resolved source is below its root, free of links and within the policy; which
    errors are retried; the wait returns, with the verdict of the first poll that has one. The API
    server (record \<open>api\<close>), the file system (\<open>file_system\<close>) and the mount table with the clock (\<open>host\<close>)
    are parameters. The link budget of 255 in \<open>realpath_loop\<close> is the code's own. Locales:
    \<open>path_policy\<close>, \<open>source_resolver\<close>.
  \<^item> \<open>Overlay\<close>, \<open>OverlayMount\<close>, \<open>OverlaySafety\<close>: \<open>pkg/backend/overlay\<close> and \<open>bind_linux.go\<close>: the plan of
    the layers, and every system call of a mount over an arbitrary kernel, a function from the calls
    made so far to the next answer. Shown: the plan refines a declarative layout, the option string
    reads back, and for every kernel the mount table changes as promised, descriptors are closed, and
    only directories opened without following links are mounted.
  \<^item> \<open>Mergerfs\<close>, \<open>Stale\<close>, \<open>MergerfsMount\<close>, \<open>MergerfsSafety\<close>, \<open>MergerfsLifecycle\<close>,
    \<open>MergerfsProgress\<close>, \<open>MergerfsNode\<close>, \<open>DaemonLog\<close>: \<open>pkg/backend/mergerfs\<close>: command line and names; the counter of bad passes; mount, share, unmount,
    repair and the repair pass over an arbitrary \<open>outside\<close>, which stands for the supervisor, scope,
    state, probe and sandbox libraries and the kernel. The record \<open>mnode\<close> holds the log of calls with
    their replies and the stale counter, the only state the package keeps itself. Shown: a mount is
    up with its state saved or unwound; every disruptive call of a repair pass has its reason in what
    the pass saw; a branch is replaced only after three bad passes in a row; all work is done under
    the lock of the volume; an operation that dies half way leaves nothing the repair pass would not
    find; a dead mount is brought back, and a branch that stays stuck is replaced within three passes;
    over any sequence of operations and crashes, no daemon is without its state file.
  \<^item> \<open>Schedule\<close>, \<open>MergerfsReplay\<close>, \<open>MergerfsConcurrent\<close>, \<open>MergerfsLives\<close>: the operations of the
    mergerfs backend side by side, as the gRPC server and the supervisor run them: a schedule is any
    interleaving of their calls that takes a lock only when it is free, with any reply to any call.
    The locale \<open>locked_operations\<close> states what makes a lock work, and the backend is an
    interpretation. Shown: the operations on one volume happen one after the other; an operation
    depends on the world only through its replies; no daemon is without its state file on a node
    where operations on many volumes interleave and drivers die at any call. Hypotheses are that a
    load returns what was saved, that the supervisor holds the lock of the volume it repairs, and
    that a mount or share of a volume starts only when no daemon of the volume is left.
  \<^item> \<open>Params\<close>, \<open>Driver\<close>, \<open>Publish\<close>, \<open>Sharing\<close>: \<open>pkg/driver\<close>: the grammar of the volume attributes, the
    Node and Identity services. A handler maps the node state to a result and the state it leaves,
    or to \<open>None\<close> if it does not return. Shown: what a successful publish has mounted, error codes,
    idempotence, that it returns; the volumes of a pod that declare one union agree on the one that
    mounts it. \<open>NodeService\<close>, \<open>NodeBackends\<close>: any sequence of requests implements a set of
    published targets, each with exactly one mount. The locale \<open>mounting_backend\<close> states what the
    service needs of \<open>Mount\<close>, \<open>Share\<close> and \<open>Unmount\<close>, and both backends are interpretations; hypotheses
    are that the mount check tells mounts (\<open>sees_mounts\<close>) and, for overlay, a kernel that does not
    claim a mounted target to be free (\<open>truthful\<close>).
  \<^item> \<open>Startup\<close>: \<open>cmd/union-csi-driver/main.go\<close>, \<open>internal/endpoint\<close> and the registry in \<open>backend.go\<close>:
    flags, the configuration made of them and the socket. \<open>Program\<close>: all of \<open>main\<close>, and the sockets of
    the proxy. Shown: the driver runs only fully configured, and a proxy that fails leaks no socket.
  \<^item> \<open>Server\<close>: \<open>Run\<close> in \<open>driver.go\<close> and \<open>server.go\<close>: the two goroutines of the gRPC server as a step
    relation. Shown: it stops cleanly once it is set up, and what a signal that comes earlier does.
    \<open>Interceptor\<close>: the logging of every call. Shown: it changes nothing of a call; what the log tells
    of requests below and from verbosity 5 on.
  \<^item> \<open>Proxy\<close>: \<open>internal/proxy\<close>: accepting, copying and closing as step relations over all
    interleavings. Shown: bytes arrive in order and, unless an end breaks off, completely; a pair of
    copies winds down once one side is gone; closing ends the accepting goroutine.
  \<^item> \<open>Unsupported\<close>: the stubs for other systems, where nothing is ever published.
  \<^item> \<open>FilterJunit\<close>: \<open>release-tools/filter-junit.go\<close>, the filter of test reports.
  \<^item> This theory: what the parts give together, from the flags to the mount.

  Loops are structural recursion; the symlink walk terminates by its link budget and the wait is a
  partial function whose termination is a theorem. Integers of the driver are unbounded here: its
  counts are list lengths, and parsed numbers carry their 32 or 64 bit bounds explicitly.

  Properties of the overlay mount table hold for one operation at a time: that backend takes no lock,
  and leaves it to kubelet to make one call per target at a time. File systems are snapshots: what
  another process does between two system calls is not modelled, which is why the overlay backend
  opens the resolved directories again without following links.

  Not modelled: log messages, except those of the interceptor and the output of a daemon, and the text
  of errors, which are constructors; the JSON of the state files and the libraries the mergerfs
  backend calls, of which only calls and replies appear, with the loop of the supervisor that \<open>Run\<close>
  enters; the gRPC library; the flag package that reads the command line; the XML library and the
  regular expressions of the report filter.
\<close>

section \<open>Sources end to end\<close>

text \<open>Where a source may lie: in the volumes of the pod, or in a host directory the administrator
  allowed and did not deny, seen through the host path mount.\<close>

definition confined_source :: "('w, 'e) driver_config \<Rightarrow> pod \<Rightarrow> string \<Rightarrow> bool" where
  "confined_source cfg p path \<longleftrightarrow>
     inside path (filepath_Join [cfg_KubeletRoot cfg, ''pods'', pod_UID p, ''volumes'']) \<or>
     (\<exists>host. abs_clean host \<and> path = filepath_Join [hp_Root (cfg_HostPaths cfg), host] \<and>
        (\<exists>a \<in> set (hp_Allowed (cfg_HostPaths cfg)). inside host a) \<and>
        (\<forall>x \<in> set (hp_Denied (cfg_HostPaths cfg)). \<not> inside host x))"

lemma New_driver:
  assumes "run_state (New Init m cfg) w = (Inr d, w')"
  shows "d = \<lparr>d_config = cfg, d_resolver = NewResolver (the (cfg_KubeClient cfg)) (cfg_KubeletRoot cfg)
               (cfg_HostPaths cfg) (cfg_DriverName cfg), d_machine = m\<rparr>"
  using assms by (auto simp: New_def Let_def split: if_splits option.splits sum.splits prod.splits)

lemma RealPath_confined:
  assumes "d_resolver d = NewResolver kc (cfg_KubeletRoot cfg) (cfg_HostPaths cfg) name"
    and "filepath_IsAbs (cfg_KubeletRoot cfg)" and "hp_Validate (cfg_HostPaths cfg) = Inr ()"
    and "resolve_name (d_resolver d) p n = Inr sp" and "RealPath F sp = Inr q"
  shows "confined_source cfg p q"
proof -
  let ?r = "d_resolver d"
  have root: "filepath_IsAbs (hp_Root (cfg_HostPaths cfg))"
    using assms(3) by (simp add: hp_Validate_iff abs_clean_def)
  have o: "source_origin ?r p n sp" using resolve_name_Inr(1) [OF assms(4)] .
  have abs: "filepath_IsAbs (sp_Root sp)"
    using o root assms(1,2) by (auto simp: source_origin_def NewResolver_def)
  obtain es where es: "propers es" "q = render (elems (sp_Root sp) @ es)"
    "\<And>h. sp_hostPaths sp = Some h \<Longrightarrow> hp_check h (render es) = Inr ()"
    using RealPath_good [OF abs assms(5)] by metis
  show ?thesis
  proof (cases "sp_hostPaths sp")
    case None
    then have "sp_Root sp = filepath_Join [cfg_KubeletRoot cfg, ''pods'', pod_UID p, ''volumes'']"
      using o assms(1) by (simp add: source_origin_def NewResolver_def)
    moreover have "inside q (sp_Root sp)" using es by (simp add: inside_def)
    ultimately show ?thesis by (simp add: confined_source_def)
  next
    case (Some h)
    then have h: "h = cfg_HostPaths cfg" "sp_Root sp = hp_Root (cfg_HostPaths cfg)"
      using o assms(1) by (auto simp: source_origin_def NewResolver_def)
    have c: "abs_clean (render es)" using es(1) by simp
    have "q = filepath_Join [hp_Root (cfg_HostPaths cfg), render es]" using es abs h by simp
    then show ?thesis
      using c es(3) [OF Some] hp_check_Inr [OF assms(3) c] h(1) unfolding confined_source_def by blast
  qed
qed

text \<open>What the backend is asked to mount, for a request the driver did not share.\<close>

definition asked_to_mount ::
    "('w, 'e) driver \<Rightarrow> publish_request \<Rightarrow> string gomap \<Rightarrow> source list \<Rightarrow> 'w \<Rightarrow> bool" where
  "asked_to_mount d req opts sources w' \<longleftrightarrow>
     (\<exists>w. run_state (Mount (the_backend d)
        \<lparr>VolumeID = req_VolumeId req, Target = req_TargetPath req, Sources = sources, Options = opts,
         ReadOnly = req_Readonly req\<rparr>) w = (Inr (), w'))"

lemma list_all2_right: "list_all2 P xs ys \<Longrightarrow> y \<in> set ys \<Longrightarrow> \<exists>x \<in> set xs. P x y"
  by (induction rule: list_all2_induct) auto

lemma list_all2_left: "list_all2 P xs ys \<Longrightarrow> x \<in> set xs \<Longrightarrow> \<exists>y \<in> set ys. P x y"
  by (induction rule: list_all2_induct) auto

lemma mounted_sources:
  assumes "mounted_union d req svs opts p w'"
    and "\<And>n sp F q. resolve_name (d_resolver d) p n = Inr sp \<Longrightarrow> RealPath F sp = Inr q \<Longrightarrow> P q"
  shows "\<exists>sources. (\<forall>s \<in> set sources. P (src_Path s)) \<and> map src_Mode sources = map sv_Mode svs \<and>
    asked_to_mount d req opts sources w'"
proof -
  obtain rs sources w1 w2 where
    rs: "ResolveIn (d_resolver d) p (map sv_Name svs) = Inr rs" and
    real: "list_all2 (\<lambda>sp s. RealPath (files (mounter (d_machine d)) w1) sp = Inr (src_Path s)) rs sources" and
    rest: "map src_Mode sources = map sv_Mode svs" "asked_to_mount d req opts sources w'"
    using assms(1) unfolding mounted_union_def asked_to_mount_def by blast
  have "P (src_Path s)" if s: "s \<in> set sources" for s
  proof -
    obtain sp where sp: "sp \<in> set rs" "RealPath (files (mounter (d_machine d)) w1) sp = Inr (src_Path s)"
      using list_all2_right [OF real s] by blast
    obtain n where "resolve_name (d_resolver d) p n = Inr sp"
      using rs list_all2_right [OF _ sp(1)] unfolding ResolveIn_def traverse_Inr_iff by blast
    then show ?thesis using assms(2) sp(2) by blast
  qed
  then show ?thesis using rest by blast
qed

text \<open>C1: From the flags to the mount: in a driver that \<open>main\<close> configured and \<open>New\<close> built, with an
  absolute kubelet root, a publish that succeeds for an unmounted target either made the target a
  view of another union of the same pod, or had the backend mount sources each of which lies, with
  all links resolved, in the volumes directory of the very pod the request names or in a host
  directory that the administrator allowed and did not deny.\<close>

theorem published_sources_confined:
  assumes "main_config registry version kc fl = Inr cfg" and "run_state (New Init m cfg) w0 = (Inr d, w1)"
    and "filepath_IsAbs (fl_kubelet_root fl)" and "isMounted d (req_TargetPath req) w = Inr False"
    and "NodePublishVolume d req w = Some (Inr (), w')"
  shows "\<exists>attrs p. parse d (req_VolumeContext req) = Inr attrs \<and> pod_UID p = pa_PodUID attrs \<and>
    (cfg_ReuseMounts cfg \<and> snd (sharedSource d p (req_TargetPath req)) \<noteq> [] \<and>
       shared_union d req (snd (sharedSource d p (req_TargetPath req))) w' \<or>
     (\<exists>opts sources. (\<forall>s \<in> set sources. confined_source cfg p (src_Path s)) \<and>
       map src_Mode sources = map sv_Mode (pa_SourceVolumes attrs) \<and>
       asked_to_mount d req opts sources w'))"
proof -
  note d = New_driver [OF assms(2)]
  then have cfg: "d_config d = cfg" by simp
  have root: "filepath_IsAbs (cfg_KubeletRoot cfg)"
    using assms(1,3) by (auto simp: main_config_def Let_def split: if_splits option.splits sum.splits)
  obtain attrs opts p where a: "parse d (req_VolumeContext req) = Inr attrs"
    "GetPod (d_resolver d) (pa_PodNamespace attrs) (pa_PodName attrs) (pa_PodUID attrs) = Inr p"
    "if cfg_ReuseMounts (d_config d) \<and> snd (sharedSource d p (req_TargetPath req)) \<noteq> []
     then shared_union d req (snd (sharedSource d p (req_TargetPath req))) w'
     else mounted_union d req (pa_SourceVolumes attrs) opts p w'"
    using publish_success [OF assms(5,4)] by blast
  have uid: "pod_UID p = pa_PodUID attrs"
    using a(2) by (auto simp: GetPod_def split: api_result.splits if_splits)
  have conf: "confined_source cfg p q" if "resolve_name (d_resolver d) p n = Inr sp" "RealPath F sp = Inr q" for n sp F q
    by (rule RealPath_confined [OF _ root main_config_Inr(1) [OF assms(1)] that]) (simp add: d)
  show ?thesis
  proof (cases "cfg_ReuseMounts cfg \<and> snd (sharedSource d p (req_TargetPath req)) \<noteq> []")
    case True
    then show ?thesis using a uid by (auto simp: cfg)
  next
    case False
    then have "mounted_union d req (pa_SourceVolumes attrs) opts p w'" using a(3) by (simp only: cfg if_False)
    then show ?thesis
      using mounted_sources [of d req "pa_SourceVolumes attrs" opts p w' "confined_source cfg p"] conf a(1) uid
      by blast
  qed
qed

text \<open>A mount request as every backend expects it.\<close>

definition well_typed :: "('w, 'e) backend \<Rightarrow> policy \<Rightarrow> int \<Rightarrow> string gomap \<Rightarrow> source list \<Rightarrow> bool" where
  "well_typed be pol limit opts sources \<longleftrightarrow>
     sources \<noteq> [] \<and> int (length sources) \<le> limit \<and>
     list_all (\<lambda>s. src_Mode s \<in> set (fst (SourceModes be))) sources \<and>
     (MaxWritable be > 0 \<longrightarrow> length (filter (\<lambda>s. src_Mode s = ''RW'') sources) \<le> MaxWritable be) \<and>
     list_all (\<lambda>(k, v). map_of (Schema be) k \<noteq> None \<and> checkSchema pol k v = Inr ()) opts"

lemma filter_modes:
  assumes "map src_Mode sources = map sv_Mode svs"
  shows "length (filter (\<lambda>s. src_Mode s = m) sources) = length (filter (\<lambda>sv. sv_Mode sv = m) svs)"
proof -
  have "length (filter (\<lambda>x. x = m) (map src_Mode sources)) = length (filter (\<lambda>x. x = m) (map sv_Mode svs))"
    using assms by simp
  then show ?thesis by (simp add: filter_map comp_def)
qed

lemma parse_sources:
  assumes "parse d attrs = Inr a"
  shows "pa_SourceVolumes a \<noteq> []" and "int (length (pa_SourceVolumes a)) \<le> cfg_MaxSourceVolumes (d_config d)"
    and "valid_sources (the_backend d) (pa_SourceVolumes a)"
  using assms
  by (auto simp: parse_def parseAttributes_def parseSourceVolumes_Inr split: option.splits sum.splits)

lemma parsed_modes:
  assumes "parse d attrs = Inr a" and "map src_Mode sources = map sv_Mode (pa_SourceVolumes a)"
  shows "sources \<noteq> []" and "int (length sources) \<le> cfg_MaxSourceVolumes (d_config d)"
    and "list_all (\<lambda>s. src_Mode s \<in> set (fst (SourceModes (the_backend d)))) sources"
    and "MaxWritable (the_backend d) > 0 \<longrightarrow>
      length (filter (\<lambda>s. src_Mode s = ''RW'') sources) \<le> MaxWritable (the_backend d)"
proof -
  note ps = parse_sources [OF assms(1)]
  have len: "length sources = length (pa_SourceVolumes a)" using assms(2) by (metis length_map)
  show "sources \<noteq> []" "int (length sources) \<le> cfg_MaxSourceVolumes (d_config d)"
    using len ps(1,2) by auto
  have "list_all (\<lambda>m. m \<in> set (fst (SourceModes (the_backend d)))) (map src_Mode sources)"
    using ps(3) by (simp add: assms(2) valid_sources_def list_all_iff)
  then show "list_all (\<lambda>s. src_Mode s \<in> set (fst (SourceModes (the_backend d)))) sources"
    by (simp add: list_all_iff)
  show "MaxWritable (the_backend d) > 0 \<longrightarrow>
      length (filter (\<lambda>s. src_Mode s = ''RW'') sources) \<le> MaxWritable (the_backend d)"
    using ps(3) by (simp add: valid_sources_def filter_modes [OF assms(2)])
qed


section \<open>Parsed requests and the backends\<close>

text \<open>C25: Whatever a pod asks for, once the request is parsed for the overlay backend, planning its
  layers fails for one reason only: a writable source that is not the first. The other errors of
  \<open>planLayout\<close> are ruled out by the tables the parser reads.\<close>

theorem overlay_plan_only_order:
  assumes "SourceModes (the_backend d) = overlay_SourceModes" and "MaxWritable (the_backend d) = overlay_MaxWritable"
    and "parse d attrs = Inr a" and "map src_Mode (Sources spec) = map sv_Mode (pa_SourceVolumes a)"
  shows "(\<exists>l. planLayout spec = Inr l) \<or>
    planLayout spec = Inl RWNotFirst \<and> (\<exists>s \<in> set (tl (Sources spec)). src_Mode s = modeRW)"
proof (cases "planLayout spec")
  case (Inl e)
  note pm = parsed_modes [OF assms(3,4)]
  have modes: "list_all (\<lambda>s. src_Mode s \<in> {modeRW, modeRO}) (Sources spec)"
    using pm(3) assms(1) by (auto simp: overlay_SourceModes_def modeRW_def modeRO_def list_all_iff)
  have "length (filter (\<lambda>s. src_Mode s = modeRW) (Sources spec)) \<le> 1"
    using pm(4) assms(2) by (simp add: overlay_MaxWritable_def modeRW_def)
  then have e: "e = RWNotFirst" using planLayout_modes [OF Inl pm(1) modes] by blast
  have "\<exists>s \<in> set (tl (Sources spec)). src_Mode s = modeRW"
  proof (rule ccontr)
    assume "\<not> ?thesis"
    then have "\<forall>s \<in> set (tl (Sources spec)). src_Mode s = modeRO"
      using modes by (cases "Sources spec") (auto simp: list_all_iff)
    moreover have "src_Mode (hd (Sources spec)) \<in> {modeRW, modeRO}"
      using modes pm(1) by (cases "Sources spec") auto
    ultimately show False
      using Inl pm(1) by (cases "Sources spec") (auto simp: planLayout_def dest!: plan_sources_tail_error split: sum.splits)
  qed
  then show ?thesis using e Inl by blast
qed blast

text \<open>C26: For the mergerfs backend in its sandbox, every parsed request has a command line: no choice
  of sources, options or paths makes building it fail.\<close>

theorem sandboxed_always_has_argv:
  assumes "SourceModes (the_backend d) = mergerfs_SourceModes"
    and "parse d attrs = Inr a" and "map src_Mode (Sources spec) = map sv_Mode (pa_SourceVolumes a)"
  shows "\<exists>branches. buildArgv (fst (sandboxed spec)) =
    Inr [''-f'', ''-o'', buildOptions (fst (sandboxed spec)), branches, sandboxTarget]"
proof -
  obtain spec' binds where s: "sandboxed spec = (spec', binds)" by fastforce
  note parts = sandboxed_parts [OF s] and pm = parsed_modes [OF assms(2,3)]
  have "map src_Mode (Sources spec') = map sv_Mode (pa_SourceVolumes a)" using parts(4) assms(3) by simp
  note pm' = parsed_modes [OF assms(2) this]
  have "list_all renderable (Sources spec')"
  proof -
    have "known_mode (src_Mode x)" if "x \<in> set (Sources spec')" for x
      using pm'(3) that assms(1) by (auto simp: mergerfs_SourceModes_def known_mode_def mergerfs_modes list_all_iff)
    moreover have "src_Path x \<in> range branch_path" if "x \<in> set (Sources spec')" for x
    proof -
      have "src_Path x \<in> set (map src_Path (Sources spec'))" using that by simp
      then show ?thesis unfolding parts(3) by auto
    qed
    ultimately show ?thesis using branch_path_plain by (fastforce simp: list_all_iff renderable_def)
  qed
  then have "buildBranches (Sources spec') = Inr (join_with '':'' (map render_branch (Sources spec')))"
    using pm'(1) by (simp add: buildBranches_Inr)
  then show ?thesis using parts(6) by (simp add: buildArgv_def s)
qed

section \<open>A node\<close>

text \<open>The web pod on a node whose driver is started with flags that allow \<open>/srv\<close>.\<close>

definition node_flags :: flags where
  "node_flags = web_flags\<lparr>fl_reuse_mounts := False\<rparr>"

definition node_registry :: "(toy_node, string) registry" where
  "node_registry = Register ''overlay'' toy_backend []"

definition node_policy :: policy where
  "node_policy = NewPolicy overlay_Schema (policy_flags node_flags toy_backend)"

definition node_config :: "(toy_node, string) driver_config" where
  "node_config = \<lparr>cfg_VendorVersion = ''v1'', cfg_DriverName = ''overlay.csi.ruekov.eu'',
     cfg_NodeID = ''n1'', cfg_Endpoint = ''unix:///csi/csi.sock'', cfg_KubeletRoot = ''/var/lib/kubelet'',
     cfg_HostPaths = \<lparr>hp_Root = ''/host'', hp_Allowed = [''/srv''], hp_Denied = []\<rparr>,
     cfg_StateDir = ''/var/lib/kubelet/plugins/overlay.csi.ruekov.eu/state'',
     cfg_PublishTimeout = 30000000000, cfg_MaxSourceVolumes = 32, cfg_ReuseMounts = False,
     cfg_Backend = Some toy_backend, cfg_Policy = Some node_policy,
     cfg_KubeClient = Some (client web_resolver)\<rparr>"

definition node_driver :: "(toy_node, string) driver" where
  "node_driver = \<lparr>d_config = node_config,
     d_resolver = NewResolver (client web_resolver) ''/var/lib/kubelet'' (cfg_HostPaths node_config)
       ''overlay.csi.ruekov.eu'',
     d_machine = d_machine web_driver\<rparr>"

lemma node_starts: "main_config node_registry ''v1'' (Inr (client web_resolver)) node_flags = Inr node_config"
proof -
  have g: "Get node_registry ''overlay'' = Some toy_backend"
    by (simp add: Get_def node_registry_def Register_def)
  have s: "Schema toy_backend = overlay_Schema" by (simp add: toy_backend_def)
  have v: "Validate node_policy = Inr ()" by code_simp
  have h: "hp_Validate \<lparr>hp_Root = ''/host'', hp_Allowed = [''/srv''], hp_Denied = []\<rparr> = Inr ()"
    by code_simp
  have j: "filepath_Join [''/var/lib/kubelet'', ''plugins'', ''overlay.csi.ruekov.eu'', ''state''] =
      ''/var/lib/kubelet/plugins/overlay.csi.ruekov.eu/state''" by code_simp
  have p: "NewPolicy overlay_Schema (policy_flags node_flags toy_backend) = node_policy"
    by (simp only: node_policy_def)
  have fl: "fl_backend node_flags = ''overlay''" "fl_denylist_mode node_flags = DenylistRefuse"
    "fl_drivername node_flags = []" "fl_state_dir node_flags = []" "fl_kubelet_root node_flags = ''/var/lib/kubelet''"
    "fl_host_root node_flags = ''/host''" "fl_host_path_allow node_flags = [''/srv'']"
    "fl_host_path_deny node_flags = []" "fl_nodeid node_flags = ''n1''"
    "fl_endpoint node_flags = ''unix:///csi/csi.sock''" "fl_publish_timeout node_flags = 30000000000"
    "fl_max_source_volumes node_flags = 32" "fl_reuse_mounts node_flags = False"
    by (simp_all add: node_flags_def web_flags_def default_flags_def DenylistRefuse_def)
  show ?thesis
    by (simp add: main_config_def Let_def fl g s p v h j node_config_def)
qed

lemma node_built: "run_state (New None (d_machine web_driver) node_config) w = (Inr node_driver, w)"
  by (simp add: New_def Let_def node_driver_def node_config_def)

lemma node_publishes: "NodePublishVolume node_driver web_request ([], 0) = Some (Inr (), ([web_target], 0))"
  by code_simp

lemma node_free: "isMounted node_driver (req_TargetPath web_request) ([], 0) = Inr False"
  by code_simp

theorem published_sources_confined_witness:
  "\<exists>p opts sources. pod_UID p = ''u1'' \<and> (\<forall>s \<in> set sources. confined_source node_config p (src_Path s)) \<and>
     map src_Mode sources = [''RW'', ''RO''] \<and> asked_to_mount node_driver web_request opts sources ([web_target], 0)"
proof -
  have "filepath_IsAbs (fl_kubelet_root node_flags)" by code_simp
  note c = published_sources_confined [OF node_starts node_built this node_free node_publishes]
  have p: "parse node_driver (req_VolumeContext web_request) = Inr
     \<lparr>pa_SourceVolumes = [\<lparr>sv_Name = ''cache'', sv_Mode = ''RW''\<rparr>, \<lparr>sv_Name = ''data'', sv_Mode = ''RO''\<rparr>],
      pa_Options = [], pa_PodNamespace = ''shop'', pa_PodName = ''web'', pa_PodUID = ''u1''\<rparr>"
    by code_simp
  have r: "\<not> cfg_ReuseMounts node_config" by (simp add: node_config_def)
  show ?thesis using c unfolding p by (auto simp: r)
qed


definition late_writer :: mount_spec where
  "late_writer = \<lparr>VolumeID = ''v'', Target = ''/t'', Sources = [\<lparr>src_Path = ''/a'', src_Mode = ''RO''\<rparr>,
     \<lparr>src_Path = ''/b'', src_Mode = ''RW''\<rparr>], Options = [], ReadOnly = False\<rparr>"

lemma late_writer_parsed:
  "parse web_driver [(''sourceVolumes'', ''a=RO,b=RW'')] = Inr
     \<lparr>pa_SourceVolumes = [\<lparr>sv_Name = ''a'', sv_Mode = ''RO''\<rparr>, \<lparr>sv_Name = ''b'', sv_Mode = ''RW''\<rparr>],
      pa_Options = [], pa_PodNamespace = [], pa_PodName = [], pa_PodUID = []\<rparr>"
  by code_simp

theorem overlay_plan_only_order_witness:
  "planLayout late_writer = Inl RWNotFirst"
proof -
  have "SourceModes (the_backend web_driver) = overlay_SourceModes"
    "MaxWritable (the_backend web_driver) = overlay_MaxWritable"
    by (simp_all add: web_driver_def toy_backend_def)
  then have "(\<exists>l. planLayout late_writer = Inr l) \<or> planLayout late_writer = Inl RWNotFirst"
    using overlay_plan_only_order [OF _ _ late_writer_parsed, of late_writer] by (auto simp: late_writer_def)
  moreover have "isl (planLayout late_writer)" by code_simp
  ultimately show ?thesis by auto
qed

definition mergerfs_driver :: "(toy_node, string) driver" where
  "mergerfs_driver = web_driver\<lparr>d_config := (d_config web_driver)\<lparr>cfg_Backend := Some
     (toy_backend\<lparr>SourceModes := mergerfs_SourceModes, MaxWritable := mergerfs_MaxWritable\<rparr>)\<rparr>\<rparr>"

theorem sandboxed_always_has_argv_witness:
  "\<exists>branches. buildArgv (fst (sandboxed late_writer)) =
     Inr [''-f'', ''-o'', ''allow_other'', branches, ''/union'']"
proof -
  have m: "SourceModes (the_backend mergerfs_driver) = mergerfs_SourceModes"
    by (simp add: mergerfs_driver_def)
  have p: "parse mergerfs_driver [(''sourceVolumes'', ''a=RO,b=RW'')] = Inr
     \<lparr>pa_SourceVolumes = [\<lparr>sv_Name = ''a'', sv_Mode = ''RO''\<rparr>, \<lparr>sv_Name = ''b'', sv_Mode = ''RW''\<rparr>],
      pa_Options = [], pa_PodNamespace = [], pa_PodName = [], pa_PodUID = []\<rparr>"
    by code_simp
  have o: "buildOptions (fst (sandboxed late_writer)) = ''allow_other''" by code_simp
  have "map src_Mode (Sources late_writer) = [''RO'', ''RW'']" by (simp add: late_writer_def)
  then show ?thesis
    using sandboxed_always_has_argv [OF m p, of late_writer] unfolding o sandboxTarget_def by simp
qed

end
